(* ===== verification/Prelude.thy ===== *)
theory Prelude
  imports Main "HOL-Library.AList" "HOL-Library.Finite_Map"
begin

text \<open>
  Shared ground of the development: the value types that every component of the job orchestrator
  uses (JSON values and dictionaries, instants, intervals), the fragments of Python that the
  sources rely on (slicing, truthiness of an optional dictionary, numbers printed in decimal), and
  the generic lemmas on association lists and maps that carry the component proofs.

  A Python dictionary that is only looked up, merged and compared is a finite map
  (\<open>fmap\<close>: Python's equality of dictionaries ignores their order too). A dictionary whose iteration
  order the program observes is an association list kept in insertion order, written by
  \<open>AList.update\<close>, which like Python replaces a value in place and appends a new key.
\<close>

section \<open>Collections of facts\<close>

named_theorems ops_defs \<open>definitions of the store operations, for unfolding\<close>
named_theorems spec_defs \<open>definitions of the abstract store operations\<close>
named_theorems wf_intros \<open>preservation of well-formedness by the abstract operations\<close>
named_theorems frame_simps \<open>what an operation leaves unchanged\<close>

section \<open>Values\<close>

text \<open>
  What \<open>json.loads\<close> returns: the values of a decoded JSON document. A float is a pair (mantissa,
  exponent) for \<open>mantissa * 2 ^ exponent\<close>, which covers every finite double.
\<close>

datatype json =
    JNull
  | JBool bool
  | JInt int
  | JFloat int int
  | JStr string
  | JArr "json list"
  | JObj "(string, json) fmap"

type_synonym payload = "(string, json) fmap"

text \<open>Instants (\<open>datetime\<close>) and intervals (\<open>timedelta\<close>) are counted in microseconds.\<close>

type_synonym time = int
type_synonym interval = int

definition minutes :: "int \<Rightarrow> interval" where
  "minutes n = n * 60 * 1000000"

text \<open>The successive readings of the clock that a composite operation takes.\<close>

type_synonym clock = "nat \<Rightarrow> time"

section \<open>Fragments of Python\<close>

text \<open>The exceptions the modelled code raises or lets through.\<close>

datatype exn = KeyError string | TypeError | ValueError | AttributeError | RuntimeError string
  | DatabaseError string

text \<open>The slice \<open>xs[:n]\<close>: a negative bound counts from the end.\<close>

definition slice_to :: "int \<Rightarrow> 'a list \<Rightarrow> 'a list" where
  "slice_to n xs = (if 0 \<le> n then take (nat n) xs else take (length xs - nat (- n)) xs)"

text \<open>\<open>d or {}\<close> for a dictionary or \<open>None\<close>: both \<open>None\<close> and the empty dictionary give \<open>{}\<close>.\<close>

definition or_empty :: "payload option \<Rightarrow> payload" where
  "or_empty d = (case d of None \<Rightarrow> fmempty | Some p \<Rightarrow> p)"

text \<open>\<open>str(n)\<close> for an integer.\<close>

definition digit :: "nat \<Rightarrow> char" where
  "digit n = char_of (48 + n mod 10)"

fun nat_str :: "nat \<Rightarrow> string" where
  "nat_str n = (if n < 10 then [digit n] else nat_str (n div 10) @ [digit n])"

declare nat_str.simps [simp del]

definition int_str :: "int \<Rightarrow> string" where
  "int_str i = (if i < 0 then CHR ''-'' # nat_str (nat (- i)) else nat_str (nat i))"

definition newline :: string where
  "newline = [char_of (10 :: nat)]"

section \<open>Lemmas on slices and payloads\<close>

lemma slice_to_nonneg [simp]: "0 \<le> n \<Longrightarrow> slice_to n xs = take (nat n) xs"
  by (simp add: slice_to_def)

lemma set_slice_to: "set (slice_to n xs) \<subseteq> set xs"
  by (auto simp: slice_to_def dest: in_set_takeD)

lemma drop_take_drop: "k \<le> n \<Longrightarrow> drop k (take n xs) @ drop n xs = drop k xs"
  using append_take_drop_id [of "n - k" "drop k xs"] by (simp add: drop_take)

lemma or_empty_simps [simp]:
  "or_empty None = fmempty"
  "or_empty (Some p) = p"
  by (simp_all add: or_empty_def)

section \<open>Decimal printing is injective\<close>

text \<open>Horner's reading of a decimal numeral, the left inverse of \<^const>\<open>nat_str\<close>.\<close>

definition digit_val :: "char \<Rightarrow> nat" where
  "digit_val c = of_char c - 48"

definition read_nat :: "string \<Rightarrow> nat" where
  "read_nat = foldl (\<lambda>n c. 10 * n + digit_val c) 0"

lemma digit_val_digit [simp]: "digit_val (digit n) = n mod 10"
proof -
  have "n mod 10 < 10" by simp
  then have "(48 + n mod 10) mod 256 = 48 + n mod 10" by simp
  then show ?thesis by (simp add: digit_val_def digit_def)
qed

lemma read_nat_str [simp]: "read_nat (nat_str n) = n"
proof (induction n rule: nat_str.induct)
  case (1 n)
  show ?case
  proof (cases "n < 10")
    case True
    then show ?thesis by (simp add: nat_str.simps [of n] read_nat_def)
  next
    case False
    then have "read_nat (nat_str (n div 10)) = n div 10" by (rule "1.IH")
    with False show ?thesis by (simp add: nat_str.simps [of n] read_nat_def)
  qed
qed

lemma digit_not_minus [simp]: "digit n \<noteq> CHR ''-''"
proof -
  have "of_char (digit n) \<noteq> (of_char (CHR ''-'') :: nat)"
    using mod_less_divisor [of 10 n] by (simp add: digit_def del: mod_less_divisor)
  then show ?thesis by auto
qed

lemma hd_nat_str [simp]: "hd (nat_str n) \<noteq> CHR ''-''"
proof (induction n rule: nat_str.induct)
  case (1 n)
  have ne: "nat_str (n div 10) \<noteq> []" by (subst nat_str.simps) simp
  show ?case
  proof (cases "n < 10")
    case True
    then show ?thesis by (simp add: nat_str.simps [of n])
  next
    case False
    then have "hd (nat_str (n div 10)) \<noteq> CHR ''-''" by (rule "1.IH")
    with False ne show ?thesis by (simp add: nat_str.simps [of n])
  qed
qed

lemma int_str_inject [simp]: "int_str i = int_str j \<longleftrightarrow> i = j"
proof
  assume eq: "int_str i = int_str j"
  have sign: "i < 0 \<longleftrightarrow> hd (int_str i) = CHR ''-''" for i
    using hd_nat_str [of "nat i"] by (simp add: int_str_def)
  then have same: "i < 0 \<longleftrightarrow> j < 0" using eq by simp
  show "i = j"
  proof (cases "i < 0")
    case True
    with same eq have "nat_str (nat (- i)) = nat_str (nat (- j))" by (simp add: int_str_def)
    then have "nat (- i) = nat (- j)" by (metis read_nat_str)
    with True same show ?thesis by simp
  next
    case False
    with same eq have "nat_str (nat i) = nat_str (nat j)" by (simp add: int_str_def)
    then have "nat i = nat j" by (metis read_nat_str)
    with False same show ?thesis by simp
  qed
qed simp

section \<open>Association lists in insertion order\<close>

lemma map_of_AList_update [simp]: "map_of (AList.update k v d) = (map_of d)(k \<mapsto> v)"
  by (rule update_conv')

lemma keys_AList_update: "k \<in> fst ` set d \<Longrightarrow> map fst (AList.update k v d) = map fst d"
  by (induction d) auto

lemma keys_AList_update_new:
  "k \<notin> fst ` set d \<Longrightarrow> map fst (AList.update k v d) = map fst d @ [k]"
  by (induction d) auto

lemma AList_update_new: "k \<notin> fst ` set d \<Longrightarrow> AList.update k v d = d @ [(k, v)]"
  by (induction d) auto

lemma map_of_dom: "map_of d k = Some v \<Longrightarrow> k \<in> fst ` set d"
  by (metis domI dom_map_of_conv_image_fst)

lemma map_of_keys_update:
  "map_of d k = Some w \<Longrightarrow> map fst (AList.update k v d) = map fst d"
  by (simp add: keys_AList_update map_of_dom)

lemma map_of_fresh: "(\<forall>k' \<in> fst ` set d. k' < (k::'a::linorder)) \<Longrightarrow> map_of d k = None"
  by (force simp: map_of_eq_None_iff)

end
