(* ===== verification/Models.thy ===== *)
theory Models
  imports Prelude
begin

text \<open>
  The domain model shared by every component (\<open>common/models.py\<close>): the life cycle of a job, who
  created it, the job row, the outbox row, the reaper's view of a stuck run, and the Kafka
  envelope, which is a pure pointer \<open>{job_id, job_type}\<close>.

  The statuses are string constants of a class in the source. They are a datatype here, and
  \<open>status_str\<close> gives the string of each, as it appears in the HTTP responses and in the rows of
  the database.
\<close>

section \<open>Data\<close>

datatype job_status = QUEUED | DISPATCHED | RUNNING | COMPLETED | FAILED

fun status_str :: "job_status \<Rightarrow> string" where
  "status_str QUEUED = ''queued''"
| "status_str DISPATCHED = ''dispatched''"
| "status_str RUNNING = ''running''"
| "status_str COMPLETED = ''completed''"
| "status_str FAILED = ''failed''"

definition ACTIVE :: "job_status list" where
  "ACTIVE = [QUEUED, DISPATCHED, RUNNING]"

definition TERMINAL :: "job_status list" where
  "TERMINAL = [COMPLETED, FAILED]"

record creator =
  cr_sub :: "string option"
  cr_type :: "string option"
  cr_client_id :: "string option"

text \<open>\<open>Creator()\<close>: every field defaults to \<open>None\<close>.\<close>

definition no_creator :: creator where
  "no_creator = \<lparr>cr_sub = None, cr_type = None, cr_client_id = None\<rparr>"

record job =
  j_id :: int
  j_job_type :: string
  j_status :: job_status
  j_input_payload :: payload
  j_payload :: payload
  j_attempts :: int
  j_created_at :: time
  j_updated_at :: time
  j_created_by :: "creator option"

record outbox_message =
  om_id :: int
  om_job_id :: int
  om_payload :: payload

record stuck_job =
  sj_job_id :: int
  sj_job_type :: string
  sj_attempts :: int

definition build_envelope :: "int \<Rightarrow> string \<Rightarrow> payload" where
  "build_envelope job_id job_type =
     fmap_of_list [(''job_id'', JInt job_id), (''job_type'', JStr job_type)]"

section \<open>Facts on statuses and envelopes\<close>

lemma ACTIVE_simps [simp]:
  "QUEUED \<in> set ACTIVE" "DISPATCHED \<in> set ACTIVE" "RUNNING \<in> set ACTIVE"
  "COMPLETED \<notin> set ACTIVE" "FAILED \<notin> set ACTIVE"
  by (simp_all add: ACTIVE_def)

lemma TERMINAL_simps [simp]:
  "QUEUED \<notin> set TERMINAL" "DISPATCHED \<notin> set TERMINAL" "RUNNING \<notin> set TERMINAL"
  "COMPLETED \<in> set TERMINAL" "FAILED \<in> set TERMINAL"
  by (simp_all add: TERMINAL_def)

lemma ACTIVE_iff: "st \<in> set ACTIVE \<longleftrightarrow> st = QUEUED \<or> st = DISPATCHED \<or> st = RUNNING"
  by (auto simp: ACTIVE_def)

lemma TERMINAL_iff: "st \<in> set TERMINAL \<longleftrightarrow> st = COMPLETED \<or> st = FAILED"
  by (auto simp: TERMINAL_def)

lemma active_or_terminal: "st \<in> set ACTIVE \<longleftrightarrow> st \<notin> set TERMINAL"
  by (cases st) simp_all

lemma status_str_inject [simp]: "status_str a = status_str b \<longleftrightarrow> a = b"
  by (cases a; cases b) simp_all

lemma envelope_lookup [simp]:
  "fmlookup (build_envelope i t) ''job_id'' = Some (JInt i)"
  "fmlookup (build_envelope i t) ''job_type'' = Some (JStr t)"
  by (simp_all add: build_envelope_def fmlookup_of_list)

lemma envelope_dom: "fset (fmdom (build_envelope i t)) = {''job_id'', ''job_type''}"
  by (auto simp: build_envelope_def fmlookup_of_list simp flip: fmlookup_dom_iff)

lemma build_envelope_inject [simp]:
  "build_envelope i t = build_envelope i' t' \<longleftrightarrow> i = i' \<and> t = t'"
proof
  assume "build_envelope i t = build_envelope i' t'"
  then have "fmlookup (build_envelope i t) k = fmlookup (build_envelope i' t') k" for k by simp
  from this [of "''job_id''"] this [of "''job_type''"] show "i = i' \<and> t = t'" by simp
qed simp

end
