(* ===== verification/Store_Spec.thy ===== *)
theory Store_Spec
  imports Models
begin

text \<open>
  The contract of the job store (\<open>common/store.py\<close>, class \<open>Store\<close>).

  The protocol itself is the record \<open>store_ops\<close>: one field per method of the class, acting on an
  arbitrary state type by state passing. The two implementations, \<open>InMemoryStore\<close> and
  \<open>PostgresStore\<close>, are two values of this record, and the components (dispatcher, worker, reaper,
  handler, HTTP front doors) are functions of it, as they take any \<open>Store\<close> in the source.

  The contract is an abstract state \<open>astate\<close> (three finite tables) with one abstract operation per
  method, a well-formedness invariant \<open>a_wf\<close>, and the locale \<open>job_store\<close>, whose assumptions say
  that each method computes its abstract operation under an abstraction function. The lemmas of the
  components are proved once from this locale and hold for both implementations.

  Methods that read the clock take the instant as an argument. \<open>op_handler_wrote\<close> is no method of
  the class: it is what a job handler's own writes to the dictionary it is given do to the store,
  since \<open>InMemoryStore.resolve_payload\<close> hands out the very dictionary it keeps in the row.
\<close>

section \<open>The protocol\<close>

record 's store_ops =
  op_enqueue :: "time \<Rightarrow> time \<Rightarrow> string \<Rightarrow> payload option \<Rightarrow> creator option \<Rightarrow> 's \<Rightarrow> int option \<times> 's"
  op_fetch_unpublished :: "int \<Rightarrow> 's \<Rightarrow> exn + outbox_message list"
  op_mark_dispatched :: "time \<Rightarrow> int \<Rightarrow> int \<Rightarrow> 's \<Rightarrow> 's"
  op_claim :: "time \<Rightarrow> int \<Rightarrow> 's \<Rightarrow> bool \<times> 's"
  op_resolve_payload :: "time \<Rightarrow> int \<Rightarrow> string \<Rightarrow> 's \<Rightarrow> payload option \<times> 's"
  op_handler_wrote :: "int \<Rightarrow> payload \<Rightarrow> 's \<Rightarrow> 's"
  op_complete :: "time \<Rightarrow> int \<Rightarrow> 's \<Rightarrow> bool \<times> 's"
  op_fail :: "time \<Rightarrow> int \<Rightarrow> 's \<Rightarrow> bool \<times> 's"
  op_find_stuck :: "time \<Rightarrow> 's \<Rightarrow> stuck_job list"
  op_requeue_stuck :: "time \<Rightarrow> int \<Rightarrow> 's \<Rightarrow> bool \<times> 's"
  op_dead_letter :: "time \<Rightarrow> int \<Rightarrow> 's \<Rightarrow> bool \<times> 's"
  op_get_job :: "int \<Rightarrow> 's \<Rightarrow> job option"

section \<open>Per-type configuration\<close>

definition DEFAULT_RUN_TIMEOUT :: interval where
  "DEFAULT_RUN_TIMEOUT = minutes 15"

definition DEFAULT_MAX_ATTEMPTS :: int where
  "DEFAULT_MAX_ATTEMPTS = 3"

record type_config =
  tc_run_timeout :: interval
  tc_max_attempts :: int
  tc_payload :: payload

definition timeout_of :: "(string \<rightharpoonup> type_config) \<Rightarrow> string \<Rightarrow> interval" where
  "timeout_of cfg jt = (case cfg jt of None \<Rightarrow> DEFAULT_RUN_TIMEOUT | Some c \<Rightarrow> tc_run_timeout c)"

definition max_attempts_of :: "(string \<rightharpoonup> type_config) \<Rightarrow> string \<Rightarrow> int" where
  "max_attempts_of cfg jt = (case cfg jt of None \<Rightarrow> DEFAULT_MAX_ATTEMPTS | Some c \<Rightarrow> tc_max_attempts c)"

section \<open>The abstract store\<close>

text \<open>
  \<open>a_outbox\<close> gives each outbox row with its published flag. A job of the abstract store always has
  a creator: a missing one is \<open>Creator()\<close>, as the columns of the database read back.
\<close>

record astate =
  a_jobs :: "int \<rightharpoonup> job"
  a_outbox :: "int \<rightharpoonup> outbox_message \<times> bool"
  a_config :: "string \<rightharpoonup> type_config"

abbreviation "active_job b \<equiv> j_status b \<in> set ACTIVE"
abbreviation "terminal_job b \<equiv> j_status b \<in> set TERMINAL"

definition a_active :: "astate \<Rightarrow> string \<Rightarrow> bool" where
  "a_active a jt \<longleftrightarrow> (\<exists>j b. a_jobs a j = Some b \<and> j_job_type b = jt \<and> active_job b)"

definition a_unpublished :: "astate \<Rightarrow> int set" where
  "a_unpublished a = {k. \<exists>m. a_outbox a k = Some (m, False)}"

definition a_message :: "astate \<Rightarrow> int \<Rightarrow> outbox_message" where
  "a_message a k = fst (the (a_outbox a k))"

text \<open>The unpublished rows in the order of their ids: what the dispatcher still has to send.\<close>

definition a_pending :: "astate \<Rightarrow> outbox_message list" where
  "a_pending a = map (a_message a) (sorted_list_of_set (a_unpublished a))"

definition a_stuck :: "time \<Rightarrow> astate \<Rightarrow> int set" where
  "a_stuck now a = {j. \<exists>b. a_jobs a j = Some b \<and> j_status b = RUNNING \<and>
     now - j_updated_at b > timeout_of (a_config a) (j_job_type b)}"

definition with_creator :: "job \<Rightarrow> job" where
  "with_creator b = b\<lparr>j_created_by :=
     Some (case j_created_by b of None \<Rightarrow> no_creator | Some c \<Rightarrow> c)\<rparr>"

section \<open>The abstract operations\<close>

text \<open>Compare-and-set on one row: the shape of every guarded update of the store.\<close>

definition a_guarded :: "int \<Rightarrow> (job \<Rightarrow> bool) \<Rightarrow> (job \<Rightarrow> job) \<Rightarrow> astate \<Rightarrow> bool \<times> astate" where
  "a_guarded j P f a = (case a_jobs a j of
      None \<Rightarrow> (False, a)
    | Some b \<Rightarrow> if P b then (True, a\<lparr>a_jobs := (a_jobs a)(j \<mapsto> f b)\<rparr>) else (False, a))"

definition new_job :: "int \<Rightarrow> time \<Rightarrow> time \<Rightarrow> string \<Rightarrow> payload option \<Rightarrow> creator option \<Rightarrow> job" where
  "new_job jid t u jt p c = \<lparr>j_id = jid, j_job_type = jt, j_status = QUEUED,
     j_input_payload = or_empty p, j_payload = fmempty, j_attempts = 0,
     j_created_at = t, j_updated_at = u, j_created_by = c\<rparr>"

definition new_message :: "int \<Rightarrow> int \<Rightarrow> string \<Rightarrow> outbox_message" where
  "new_message k jid jt = \<lparr>om_id = k, om_job_id = jid, om_payload = build_envelope jid jt\<rparr>"

definition spec_enqueue ::
  "int \<Rightarrow> int \<Rightarrow> time \<Rightarrow> time \<Rightarrow> string \<Rightarrow> payload option \<Rightarrow> creator option \<Rightarrow> astate \<Rightarrow> astate" where
  [spec_defs]: "spec_enqueue jid k t u jt p c a = a\<lparr>
     a_jobs := (a_jobs a)(jid \<mapsto> with_creator (new_job jid t u jt p c)),
     a_outbox := (a_outbox a)(k \<mapsto> (new_message k jid jt, False))\<rparr>"

definition spec_mark :: "time \<Rightarrow> int \<Rightarrow> int \<Rightarrow> astate \<Rightarrow> astate" where
  [spec_defs]: "spec_mark now k j a = (snd (a_guarded j (\<lambda>b. j_status b = QUEUED)
       (\<lambda>b. b\<lparr>j_status := DISPATCHED, j_updated_at := now\<rparr>) a))
     \<lparr>a_outbox := (\<lambda>k'. map_option (\<lambda>(m, p). (m, p \<or> k' = k)) (a_outbox a k'))\<rparr>"

definition spec_claim :: "time \<Rightarrow> int \<Rightarrow> astate \<Rightarrow> bool \<times> astate" where
  [spec_defs]: "spec_claim now j = a_guarded j (\<lambda>b. j_status b \<in> {QUEUED, DISPATCHED})
     (\<lambda>b. b\<lparr>j_status := RUNNING, j_updated_at := now\<rparr>)"

definition spec_finish :: "job_status \<Rightarrow> time \<Rightarrow> int \<Rightarrow> astate \<Rightarrow> bool \<times> astate" where
  [spec_defs]: "spec_finish st now j = a_guarded j (\<lambda>b. j_status b = RUNNING)
     (\<lambda>b. b\<lparr>j_status := st, j_updated_at := now\<rparr>)"

definition spec_resolve :: "time \<Rightarrow> int \<Rightarrow> astate \<Rightarrow> payload option \<times> astate" where
  [spec_defs]: "spec_resolve now j a = (case a_jobs a j of
      None \<Rightarrow> (None, a)
    | Some b \<Rightarrow> if j_status b \<noteq> RUNNING then (None, a) else
        (case a_config a (j_job_type b) of
           None \<Rightarrow> (None, a)
         | Some c \<Rightarrow> let p = tc_payload c ++\<^sub>f j_input_payload b in
             (Some p, a\<lparr>a_jobs := (a_jobs a)(j \<mapsto> b\<lparr>j_payload := p, j_updated_at := now\<rparr>)\<rparr>)))"

definition spec_handler_wrote :: "int \<Rightarrow> payload \<Rightarrow> astate \<Rightarrow> astate" where
  [spec_defs]: "spec_handler_wrote j p a =
     snd (a_guarded j (\<lambda>b. True) (\<lambda>b. b\<lparr>j_payload := p\<rparr>) a)"

definition a_rearm :: "int \<Rightarrow> (int \<rightharpoonup> outbox_message \<times> bool) \<Rightarrow> (int \<rightharpoonup> outbox_message \<times> bool)" where
  "a_rearm j ob = (\<lambda>k. map_option (\<lambda>(m, p). (m, p \<and> om_job_id m \<noteq> j)) (ob k))"

definition spec_requeue :: "time \<Rightarrow> int \<Rightarrow> astate \<Rightarrow> bool \<times> astate" where
  [spec_defs]: "spec_requeue now j a = (case a_jobs a j of
      None \<Rightarrow> (False, a)
    | Some b \<Rightarrow>
        if j_status b = RUNNING \<and> j_attempts b < max_attempts_of (a_config a) (j_job_type b) then
          (True, a\<lparr>a_jobs := (a_jobs a)(j \<mapsto> b\<lparr>j_status := QUEUED,
                       j_attempts := j_attempts b + 1, j_updated_at := now\<rparr>),
                   a_outbox := a_rearm j (a_outbox a)\<rparr>)
        else (False, a))"

section \<open>Well-formedness\<close>

definition rows_ok :: "astate \<Rightarrow> bool" where
  "rows_ok a \<longleftrightarrow> finite (dom (a_jobs a)) \<and> finite (dom (a_outbox a)) \<and>
     (\<forall>j b. a_jobs a j = Some b \<longrightarrow> j_id b = j)"

text \<open>Every outbox row carries the envelope of an existing job.\<close>

definition outbox_ok :: "astate \<Rightarrow> bool" where
  "outbox_ok a \<longleftrightarrow> (\<forall>k m p. a_outbox a k = Some (m, p) \<longrightarrow> om_id m = k \<and>
     (\<exists>b. a_jobs a (om_job_id m) = Some b \<and>
        om_payload m = build_envelope (om_job_id m) (j_job_type b)))"

text \<open>Every job has exactly one outbox row.\<close>

definition covered :: "astate \<Rightarrow> bool" where
  "covered a \<longleftrightarrow>
     (\<forall>j \<in> dom (a_jobs a). \<exists>k m p. a_outbox a k = Some (m, p) \<and> om_job_id m = j) \<and>
     (\<forall>k k' m m' p p'. a_outbox a k = Some (m, p) \<and> a_outbox a k' = Some (m', p') \<and>
        om_job_id m = om_job_id m' \<longrightarrow> k = k')"

text \<open>At most one active job per type: the partial unique index of the schema.\<close>

definition one_active :: "astate \<Rightarrow> bool" where
  "one_active a \<longleftrightarrow> (\<forall>j j' b b'. a_jobs a j = Some b \<and> a_jobs a j' = Some b' \<and>
     active_job b \<and> active_job b' \<and> j_job_type b = j_job_type b' \<longrightarrow> j = j')"

text \<open>A queued job is still to be published; a dispatched one has been.\<close>

definition armed :: "astate \<Rightarrow> bool" where
  "armed a \<longleftrightarrow> (\<forall>k m p b. a_outbox a k = Some (m, p) \<and> a_jobs a (om_job_id m) = Some b \<longrightarrow>
     (j_status b = QUEUED \<longrightarrow> \<not> p) \<and> (j_status b = DISPATCHED \<longrightarrow> p))"

definition a_wf :: "astate \<Rightarrow> bool" where
  "a_wf a \<longleftrightarrow> rows_ok a \<and> outbox_ok a \<and> covered a \<and> one_active a \<and> armed a"

text \<open>The reaper's counter stays under the type's churn cap.\<close>

definition a_capped :: "astate \<Rightarrow> bool" where
  "a_capped a \<longleftrightarrow> (\<forall>j b. a_jobs a j = Some b \<longrightarrow>
     0 \<le> j_attempts b \<and> j_attempts b \<le> max 0 (max_attempts_of (a_config a) (j_job_type b)))"

section \<open>The life cycle\<close>

inductive status_step :: "job_status \<Rightarrow> job_status \<Rightarrow> bool" where
  dispatched: "status_step QUEUED DISPATCHED"
| claimed_early: "status_step QUEUED RUNNING"
| claimed: "status_step DISPATCHED RUNNING"
| completed: "status_step RUNNING COMPLETED"
| failed: "status_step RUNNING FAILED"
| requeued: "status_step RUNNING QUEUED"

text \<open>
  How the table may evolve: rows stay, what the producer wrote is never overwritten, the status
  follows the life cycle, the counter never decreases, and a terminal row never changes again.
\<close>

definition job_evolves :: "job \<Rightarrow> job \<Rightarrow> bool" where
  "job_evolves b b' \<longleftrightarrow> j_id b' = j_id b \<and> j_job_type b' = j_job_type b \<and>
     j_input_payload b' = j_input_payload b \<and> j_created_at b' = j_created_at b \<and>
     j_created_by b' = j_created_by b \<and> j_attempts b \<le> j_attempts b' \<and>
     status_step\<^sup>*\<^sup>* (j_status b) (j_status b') \<and> (terminal_job b \<longrightarrow> b' = b)"

definition a_evolves :: "astate \<Rightarrow> astate \<Rightarrow> bool" where
  "a_evolves a a' \<longleftrightarrow> a_config a' = a_config a \<and>
     (\<forall>j b. a_jobs a j = Some b \<longrightarrow> (\<exists>b'. a_jobs a' j = Some b' \<and> job_evolves b b'))"

end
