(* ===== verification/Store_Laws.thy ===== *)
theory Store_Laws
  imports Store_Spec
begin

text \<open>
  Consequences of the abstract store: every abstract operation keeps the well-formedness of the
  tables, keeps the churn cap and lets rows evolve along the life cycle only; and the locale
  \<open>job_store\<close>, the contract between the components and a store implementation.
\<close>

section \<open>Guarded updates\<close>

lemma a_guarded_None [simp]: "a_jobs a j = None \<Longrightarrow> a_guarded j P f a = (False, a)"
  by (simp add: a_guarded_def)

lemma a_guarded_Some:
  "a_jobs a j = Some b \<Longrightarrow> a_guarded j P f a =
     (if P b then (True, a\<lparr>a_jobs := (a_jobs a)(j \<mapsto> f b)\<rparr>) else (False, a))"
  by (simp add: a_guarded_def)

lemma a_guarded_frame [frame_simps, simp]:
  "a_outbox (snd (a_guarded j P f a)) = a_outbox a"
  "a_config (snd (a_guarded j P f a)) = a_config a"
  "j' \<noteq> j \<Longrightarrow> a_jobs (snd (a_guarded j P f a)) j' = a_jobs a j'"
  by (auto simp: a_guarded_def split: option.splits)

lemma a_guarded_at:
  "a_jobs (snd (a_guarded j P f a)) j =
     map_option (\<lambda>b. if P b then f b else b) (a_jobs a j)"
  by (auto simp: a_guarded_def split: option.splits)

lemma a_guarded_fst: "fst (a_guarded j P f a) \<longleftrightarrow> (\<exists>b. a_jobs a j = Some b \<and> P b)"
  by (auto simp: a_guarded_def split: option.splits)

lemma flags_id [simp]: "a\<lparr>a_jobs := js, a_outbox := \<lambda>k. map_option id (a_outbox a k)\<rparr> = a\<lparr>a_jobs := js\<rparr>"
  by (cases a) (simp add: option.map_id)

section \<open>Well-formedness is kept\<close>

lemma a_wfE:
  assumes "a_wf a"
  obtains "rows_ok a" "outbox_ok a" "covered a" "one_active a" "armed a"
  using assms by (simp add: a_wf_def)

text \<open>
  The general step: one row is rewritten to a row of the same id and type that is active only if it
  was, and published flags may change on the rows of that job only.
\<close>

lemma a_wf_update:
  assumes wf: "a_wf a" and b: "a_jobs a j = Some b"
    and same: "j_id b' = j" "j_job_type b' = j_job_type b"
    and act: "active_job b' \<Longrightarrow> active_job b"
    and own: "\<And>k m p. a_outbox a k = Some (m, p) \<Longrightarrow> om_job_id m = j \<Longrightarrow>
       (j_status b' = QUEUED \<longrightarrow> \<not> F k m p) \<and> (j_status b' = DISPATCHED \<longrightarrow> F k m p)"
    and others: "\<And>k m p. a_outbox a k = Some (m, p) \<Longrightarrow> om_job_id m \<noteq> j \<Longrightarrow> F k m p = p"
  shows "a_wf (a\<lparr>a_jobs := (a_jobs a)(j \<mapsto> b'),
                 a_outbox := (\<lambda>k. map_option (\<lambda>(m, p). (m, F k m p)) (a_outbox a k))\<rparr>)"
    (is "a_wf ?a'")
proof -
  from wf have rows: "rows_ok a" and out: "outbox_ok a" and cov: "covered a"
    and one: "one_active a" and arm: "armed a" by (auto elim: a_wfE)
  have lookup: "\<exists>p. a_outbox a k = Some (m, p) \<and> q = F k m p"
    if "a_outbox ?a' k = Some (m, q)" for k m q
    using that by auto
  have keep: "\<exists>q. a_outbox ?a' k = Some (m, q)" if "a_outbox a k = Some (m, p)" for k m p
    using that by auto
  have dom: "dom (a_outbox ?a') = dom (a_outbox a)" by auto
  have "rows_ok ?a'" using rows same(1) dom by (auto simp: rows_ok_def)
  moreover have "outbox_ok ?a'"
    unfolding outbox_ok_def
  proof (intro allI impI)
    fix k m q
    assume "a_outbox ?a' k = Some (m, q)"
    then obtain p where "a_outbox a k = Some (m, p)" using lookup by blast
    with out obtain c where "om_id m = k" "a_jobs a (om_job_id m) = Some c"
      "om_payload m = build_envelope (om_job_id m) (j_job_type c)"
      unfolding outbox_ok_def by blast
    then show "om_id m = k \<and> (\<exists>c. a_jobs ?a' (om_job_id m) = Some c \<and>
        om_payload m = build_envelope (om_job_id m) (j_job_type c))"
      using b same(2) by auto
  qed
  moreover have "covered ?a'"
  proof -
    have "\<exists>k m q. a_outbox ?a' k = Some (m, q) \<and> om_job_id m = i" if "i \<in> dom (a_jobs ?a')" for i
    proof -
      from that b have "i \<in> dom (a_jobs a)" by (auto split: if_splits)
      with cov obtain k m p where "a_outbox a k = Some (m, p)" "om_job_id m = i"
        unfolding covered_def by blast
      with keep show ?thesis by blast
    qed
    moreover have "k = k'"
      if "a_outbox ?a' k = Some (m, q)" "a_outbox ?a' k' = Some (m', q')" "om_job_id m = om_job_id m'"
      for k k' m m' q q'
      using lookup [OF that(1)] lookup [OF that(2)] that(3) cov unfolding covered_def by blast
    ultimately show ?thesis unfolding covered_def by blast
  qed
  moreover have "one_active ?a'"
  proof -
    have "j = i \<and> i = i'" if "a_jobs ?a' i = Some c" "a_jobs ?a' i' = Some c'" "i = j \<or> i' = j"
      "active_job c" "active_job c'" "j_job_type c = j_job_type c'" for i i' c c'
      using that one b act same(2) unfolding one_active_def
      by (simp split: if_splits)
    moreover have "i = i'" if "a_jobs ?a' i = Some c" "a_jobs ?a' i' = Some c'" "i \<noteq> j" "i' \<noteq> j"
      "active_job c" "active_job c'" "j_job_type c = j_job_type c'" for i i' c c'
      using that one unfolding one_active_def by auto
    ultimately show ?thesis unfolding one_active_def by blast
  qed
  moreover have "armed ?a'"
    unfolding armed_def
  proof (intro allI impI)
    fix k m q c
    assume h: "a_outbox ?a' k = Some (m, q) \<and> a_jobs ?a' (om_job_id m) = Some c"
    then obtain p where p: "a_outbox a k = Some (m, p)" "q = F k m p" using lookup by blast
    show "(j_status c = QUEUED \<longrightarrow> \<not> q) \<and> (j_status c = DISPATCHED \<longrightarrow> q)"
    proof (cases "om_job_id m = j")
      case True
      with h have "c = b'" by simp
      with own [OF p(1) True] p(2) show ?thesis by simp
    next
      case False
      with h have "a_jobs a (om_job_id m) = Some c" by simp
      with arm p others [OF p(1) False] show ?thesis unfolding armed_def by blast
    qed
  qed
  ultimately show ?thesis by (simp add: a_wf_def)
qed

lemma a_wf_row:
  assumes "a_wf a" "a_jobs a j = Some b" "j_id b' = j" "j_job_type b' = j_job_type b"
    and "active_job b' \<Longrightarrow> active_job b"
    and "j_status b' \<in> {QUEUED, DISPATCHED} \<Longrightarrow> j_status b' = j_status b"
  shows "a_wf (a\<lparr>a_jobs := (a_jobs a)(j \<mapsto> b')\<rparr>)"
proof -
  have "a_wf (a\<lparr>a_jobs := (a_jobs a)(j \<mapsto> b'),
     a_outbox := (\<lambda>k. map_option (\<lambda>(m, p). (m, p)) (a_outbox a k))\<rparr>)"
  proof (rule a_wf_update [where F = "\<lambda>k m p. p", OF assms(1-5)])
    fix k m p
    assume "a_outbox a k = Some (m, p)" "om_job_id m = j"
    with assms(1,2) have "(j_status b = QUEUED \<longrightarrow> \<not> p) \<and> (j_status b = DISPATCHED \<longrightarrow> p)"
      unfolding a_wf_def armed_def by blast
    with assms(6) show "(j_status b' = QUEUED \<longrightarrow> \<not> p) \<and> (j_status b' = DISPATCHED \<longrightarrow> p)"
      by auto
  qed simp_all
  then show ?thesis by simp
qed

lemma a_wf_id: "a_wf a \<Longrightarrow> a_jobs a j = Some b \<Longrightarrow> j_id b = j"
  by (auto simp: a_wf_def rows_ok_def)

lemma a_wf_message_id: "a_wf a \<Longrightarrow> a_outbox a k = Some (m, p) \<Longrightarrow> om_id m = k"
  unfolding a_wf_def outbox_ok_def by blast

lemma a_wf_message_job:
  assumes "a_wf a" "a_outbox a k = Some (m, p)"
  obtains b where "a_jobs a (om_job_id m) = Some b"
    "om_payload m = build_envelope (om_job_id m) (j_job_type b)"
  using assms unfolding a_wf_def outbox_ok_def by blast

lemma a_wf_message_unique:
  assumes "a_wf a" "a_outbox a k = Some (m, p)" "a_outbox a k' = Some (m', p')" "om_job_id m = om_job_id m'"
  shows "k = k'"
proof -
  from assms(1) have "covered a" by (simp add: a_wf_def)
  with assms(2-4) show ?thesis unfolding covered_def by blast
qed

lemma a_wf_guarded:
  assumes "a_wf a"
    and "\<And>b. P b \<Longrightarrow> j_id (f b) = j_id b \<and> j_job_type (f b) = j_job_type b \<and>
       (active_job (f b) \<longrightarrow> active_job b) \<and>
       (j_status (f b) \<in> {QUEUED, DISPATCHED} \<longrightarrow> j_status (f b) = j_status b)"
  shows "a_wf (snd (a_guarded j P f a))"
proof (cases "a_jobs a j")
  case None
  with assms(1) show ?thesis by simp
next
  case (Some b)
  show ?thesis
  proof (cases "P b")
    case True
    have "a_wf (a\<lparr>a_jobs := (a_jobs a)(j \<mapsto> f b)\<rparr>)"
      by (rule a_wf_row [OF assms(1) Some])
        (use assms(2) [OF True] a_wf_id [OF assms(1) Some] in auto)
    with Some True show ?thesis by (simp add: a_guarded_Some)
  next
    case False
    with Some assms(1) show ?thesis by (simp add: a_guarded_Some)
  qed
qed

lemma spec_claim_wf [wf_intros]: "a_wf a \<Longrightarrow> a_wf (snd (spec_claim now j a))"
  unfolding spec_claim_def by (erule a_wf_guarded) auto

lemma spec_finish_wf [wf_intros]:
  "a_wf a \<Longrightarrow> st \<in> set TERMINAL \<Longrightarrow> a_wf (snd (spec_finish st now j a))"
  unfolding spec_finish_def by (erule a_wf_guarded) auto

lemma spec_handler_wrote_wf [wf_intros]: "a_wf a \<Longrightarrow> a_wf (spec_handler_wrote j p a)"
  unfolding spec_handler_wrote_def by (erule a_wf_guarded) auto

lemma spec_resolve_wf [wf_intros]:
  assumes "a_wf a"
  shows "a_wf (snd (spec_resolve now j a))"
proof -
  have "a_wf (a\<lparr>a_jobs := (a_jobs a)(j \<mapsto> b\<lparr>j_payload := p, j_updated_at := now\<rparr>)\<rparr>)"
    if "a_jobs a j = Some b" for b p
    by (rule a_wf_row [OF assms that]) (use a_wf_id [OF assms that] in auto)
  with assms show ?thesis by (auto simp: spec_resolve_def Let_def split: option.splits)
qed

lemma spec_requeue_wf [wf_intros]:
  assumes "a_wf a"
  shows "a_wf (snd (spec_requeue now j a))"
proof -
  have "a_wf (a\<lparr>a_jobs := (a_jobs a)(j \<mapsto> b\<lparr>j_status := QUEUED, j_attempts := n, j_updated_at := now\<rparr>),
                a_outbox := a_rearm j (a_outbox a)\<rparr>)"
    if "a_jobs a j = Some b" "j_status b = RUNNING" for b n
    unfolding a_rearm_def
    by (rule a_wf_update [OF assms that(1)]) (use a_wf_id [OF assms that(1)] that(2) in auto)
  with assms show ?thesis by (auto simp: spec_requeue_def split: option.splits)
qed

lemma spec_mark_wf [wf_intros]:
  assumes wf: "a_wf a" and k: "a_outbox a k = Some (m, p)" and j: "om_job_id m = j"
  shows "a_wf (spec_mark now k j a)"
proof -
  from wf k j obtain b where b: "a_jobs a j = Some b" unfolding a_wf_def outbox_ok_def by blast
  have only: "k' = k" if "a_outbox a k' = Some (m', p')" "om_job_id m' = j" for k' m' p'
    using wf k j that unfolding a_wf_def covered_def by blast
  let ?b = "if j_status b = QUEUED then b\<lparr>j_status := DISPATCHED, j_updated_at := now\<rparr> else b"
  have "a_wf (a\<lparr>a_jobs := (a_jobs a)(j \<mapsto> ?b),
     a_outbox := (\<lambda>k'. map_option (\<lambda>(m, p). (m, p \<or> k' = k)) (a_outbox a k'))\<rparr>)"
  proof (rule a_wf_update [OF wf b])
    fix k' m' p'
    assume k': "a_outbox a k' = Some (m', p')"
    show "(j_status ?b = QUEUED \<longrightarrow> \<not> (p' \<or> k' = k)) \<and> (j_status ?b = DISPATCHED \<longrightarrow> p' \<or> k' = k)"
      if "om_job_id m' = j" using only [OF k' that] by simp
    show "(p' \<or> k' = k) = p'" if "om_job_id m' \<noteq> j" using that k k' j by auto
  qed (use a_wf_id [OF wf b] in \<open>auto split: if_splits\<close>)
  moreover have "(a_jobs a)(j \<mapsto> b) = a_jobs a" using b by auto
  ultimately show ?thesis using b by (cases "j_status b = QUEUED") (simp_all add: spec_mark_def a_guarded_Some)
qed

lemma with_creator_simps [simp]:
  "j_id (with_creator b) = j_id b" "j_job_type (with_creator b) = j_job_type b"
  "j_status (with_creator b) = j_status b" "j_attempts (with_creator b) = j_attempts b"
  "j_input_payload (with_creator b) = j_input_payload b" "j_payload (with_creator b) = j_payload b"
  "j_updated_at (with_creator b) = j_updated_at b" "j_created_at (with_creator b) = j_created_at b"
  "with_creator (with_creator b) = with_creator b"
  by (simp_all add: with_creator_def split: option.splits)

lemma new_job_simps [simp]:
  "j_id (new_job jid t u jt p c) = jid" "j_job_type (new_job jid t u jt p c) = jt"
  "j_status (new_job jid t u jt p c) = QUEUED" "j_attempts (new_job jid t u jt p c) = 0"
  "j_input_payload (new_job jid t u jt p c) = or_empty p"
  "j_payload (new_job jid t u jt p c) = fmempty"
  "j_created_by (new_job jid t u jt p c) = c"
  "j_created_at (new_job jid t u jt p c) = t" "j_updated_at (new_job jid t u jt p c) = u"
  by (simp_all add: new_job_def)

lemma new_message_simps [simp]:
  "om_id (new_message k jid jt) = k" "om_job_id (new_message k jid jt) = jid"
  "om_payload (new_message k jid jt) = build_envelope jid jt"
  by (simp_all add: new_message_def)

lemma spec_enqueue_wf [wf_intros]:
  assumes wf: "a_wf a" and free: "\<not> a_active a jt"
    and jid: "a_jobs a jid = None" and k: "a_outbox a k = None"
  shows "a_wf (spec_enqueue jid k t u jt p c a)" (is "a_wf ?a'")
proof -
  from wf have rows: "rows_ok a" and out: "outbox_ok a" and cov: "covered a"
    and one: "one_active a" and arm: "armed a" by (auto elim: a_wfE)
  have other: "om_job_id m \<noteq> jid" if "a_outbox a k' = Some (m, q)" for k' m q
    using out that jid unfolding outbox_ok_def by force
  have "rows_ok ?a'" using rows by (simp add: rows_ok_def spec_enqueue_def)
  moreover have "outbox_ok ?a'"
    unfolding outbox_ok_def
  proof (intro allI impI)
    fix k' m q
    assume h: "a_outbox ?a' k' = Some (m, q)"
    show "om_id m = k' \<and> (\<exists>b. a_jobs ?a' (om_job_id m) = Some b \<and>
        om_payload m = build_envelope (om_job_id m) (j_job_type b))"
    proof (cases "k' = k")
      case True
      with h show ?thesis by (auto simp: spec_enqueue_def)
    next
      case False
      with h have old: "a_outbox a k' = Some (m, q)" by (simp add: spec_enqueue_def)
      with out have "om_id m = k' \<and> (\<exists>b. a_jobs a (om_job_id m) = Some b \<and>
        om_payload m = build_envelope (om_job_id m) (j_job_type b))"
        unfolding outbox_ok_def by blast
      with other [OF old] show ?thesis by (simp add: spec_enqueue_def)
    qed
  qed
  moreover have "covered ?a'"
  proof -
    have "\<exists>k' m q. a_outbox ?a' k' = Some (m, q) \<and> om_job_id m = i" if "i \<in> dom (a_jobs ?a')" for i
    proof (cases "i = jid")
      case True
      then show ?thesis by (intro exI [of _ k]) (auto simp: spec_enqueue_def)
    next
      case False
      with that have "i \<in> dom (a_jobs a)" by (auto simp: spec_enqueue_def)
      with cov obtain k' m q where "a_outbox a k' = Some (m, q)" "om_job_id m = i"
        unfolding covered_def by blast
      then show ?thesis using k by (intro exI [of _ k']) (auto simp: spec_enqueue_def)
    qed
    moreover have "k1 = k2"
      if "a_outbox ?a' k1 = Some (m1, q1)" "a_outbox ?a' k2 = Some (m2, q2)" "om_job_id m1 = om_job_id m2"
      for k1 k2 m1 m2 q1 q2
      using that other cov unfolding covered_def spec_enqueue_def
      by (simp split: if_splits) (metis new_message_simps(2))+
    ultimately show ?thesis unfolding covered_def by blast
  qed
  moreover have "one_active ?a'"
    using one free unfolding one_active_def a_active_def by (auto simp: spec_enqueue_def split: if_splits)
  moreover have "armed ?a'"
    using arm unfolding armed_def by (auto simp: spec_enqueue_def dest: other split: if_splits)
  ultimately show ?thesis by (simp add: a_wf_def)
qed

section \<open>The churn cap is kept\<close>

lemma a_capped_row:
  assumes "a_capped a" "a_config a' = a_config a" "a_jobs a' = (a_jobs a)(j \<mapsto> b')"
    and "0 \<le> j_attempts b' \<and> j_attempts b' \<le> max 0 (max_attempts_of (a_config a) (j_job_type b'))"
  shows "a_capped a'"
  using assms by (auto simp: a_capped_def split: if_splits)

lemma a_capped_same:
  "a_capped a \<Longrightarrow> a_config a' = a_config a \<Longrightarrow> a_jobs a' = a_jobs a \<Longrightarrow> a_capped a'"
  by (simp add: a_capped_def)

lemma a_capped_guarded:
  assumes "a_capped a" and "\<And>b. P b \<Longrightarrow> j_attempts (f b) = j_attempts b \<and> j_job_type (f b) = j_job_type b"
  shows "a_capped (snd (a_guarded j P f a))"
proof (cases "a_jobs a j")
  case (Some b)
  with assms show ?thesis
    by (cases "P b") (auto simp: a_guarded_Some a_capped_def)
qed (use assms(1) in simp)

lemma a_capped_ops:
  assumes "a_capped a"
  shows "a_capped (snd (spec_claim now j a))" "a_capped (snd (spec_finish st now j a))"
    "a_capped (spec_handler_wrote j p a)" "a_capped (snd (spec_resolve now j a))"
    "a_capped (spec_enqueue jid k t u jt q c a)"
proof -
  show "a_capped (snd (spec_claim now j a))" "a_capped (snd (spec_finish st now j a))"
    "a_capped (spec_handler_wrote j p a)"
    unfolding spec_claim_def spec_finish_def spec_handler_wrote_def
    by (rule a_capped_guarded [OF assms]; simp)+
  show "a_capped (snd (spec_resolve now j a))" "a_capped (spec_enqueue jid k t u jt q c a)"
    using assms by (auto simp: spec_resolve_def spec_enqueue_def Let_def a_capped_def split: option.splits)
qed

lemma spec_mark_capped: "a_capped a \<Longrightarrow> a_capped (spec_mark now k j a)"
  by (rule a_capped_same [OF a_capped_guarded [of a "\<lambda>b. j_status b = QUEUED"
        "\<lambda>b. b\<lparr>j_status := DISPATCHED, j_updated_at := now\<rparr>" j]])
    (simp_all add: spec_mark_def)

lemma spec_requeue_capped: "a_capped a \<Longrightarrow> a_capped (snd (spec_requeue now j a))"
  by (auto simp: spec_requeue_def a_capped_def split: option.splits)

section \<open>Rows evolve along the life cycle\<close>

lemma job_evolves_refl [simp]: "job_evolves b b"
  by (simp add: job_evolves_def)

lemma job_evolves_trans: "job_evolves b b' \<Longrightarrow> job_evolves b' b'' \<Longrightarrow> job_evolves b b''"
  by (auto simp: job_evolves_def intro: rtranclp_trans)

lemma a_evolves_refl [simp]: "a_evolves a a"
  by (auto simp: a_evolves_def)

lemma a_evolves_trans [trans]: "a_evolves a a' \<Longrightarrow> a_evolves a' a'' \<Longrightarrow> a_evolves a a''"
  by (fastforce simp: a_evolves_def dest: job_evolves_trans)

lemma a_evolves_row:
  assumes "a_jobs a j = Some b" "job_evolves b b'" "a_config a' = a_config a"
    and "a_jobs a' = (a_jobs a)(j \<mapsto> b')"
  shows "a_evolves a a'"
  using assms by (auto simp: a_evolves_def)

lemma a_evolves_same:
  "a_config a' = a_config a \<Longrightarrow> a_jobs a' = a_jobs a \<Longrightarrow> a_evolves a a'"
  by (auto simp: a_evolves_def)

lemma a_evolves_guarded:
  assumes "\<And>b. P b \<Longrightarrow> job_evolves b (f b)"
  shows "a_evolves a (snd (a_guarded j P f a))"
proof (cases "a_jobs a j")
  case (Some b)
  then show ?thesis
    by (cases "P b") (auto simp: a_guarded_Some intro: a_evolves_row assms)
qed simp

lemma status_step_star [simp, intro]:
  "status_step\<^sup>*\<^sup>* QUEUED DISPATCHED" "status_step\<^sup>*\<^sup>* QUEUED RUNNING"
  "status_step\<^sup>*\<^sup>* DISPATCHED RUNNING" "status_step\<^sup>*\<^sup>* RUNNING COMPLETED"
  "status_step\<^sup>*\<^sup>* RUNNING FAILED" "status_step\<^sup>*\<^sup>* RUNNING QUEUED"
  by (auto intro: status_step.intros)

lemma spec_claim_evolves: "a_evolves a (snd (spec_claim now j a))"
  unfolding spec_claim_def by (rule a_evolves_guarded) (auto simp: job_evolves_def)

lemma spec_finish_evolves: "st \<in> set TERMINAL \<Longrightarrow> a_evolves a (snd (spec_finish st now j a))"
  unfolding spec_finish_def by (rule a_evolves_guarded) (auto simp: job_evolves_def TERMINAL_iff)

lemma spec_mark_evolves: "a_evolves a (spec_mark now k j a)"
proof -
  have "a_evolves a (snd (a_guarded j (\<lambda>b. j_status b = QUEUED)
       (\<lambda>b. b\<lparr>j_status := DISPATCHED, j_updated_at := now\<rparr>) a))"
    by (rule a_evolves_guarded) (auto simp: job_evolves_def)
  then show ?thesis by (rule a_evolves_trans) (rule a_evolves_same; simp add: spec_mark_def)
qed

lemma spec_resolve_evolves: "a_evolves a (snd (spec_resolve now j a))"
  by (auto simp: spec_resolve_def Let_def job_evolves_def a_evolves_def split: option.splits)

lemma spec_requeue_evolves: "a_evolves a (snd (spec_requeue now j a))"
  by (auto simp: spec_requeue_def job_evolves_def a_evolves_def split: option.splits)

lemma spec_enqueue_evolves: "a_jobs a jid = None \<Longrightarrow> a_evolves a (spec_enqueue jid k t u jt p c a)"
  by (auto simp: a_evolves_def spec_enqueue_def)

lemmas evolves_intros = spec_claim_evolves spec_finish_evolves spec_mark_evolves
  spec_resolve_evolves spec_requeue_evolves spec_enqueue_evolves a_evolves_refl

section \<open>The pending messages\<close>

lemma a_unpublished_mark [simp]: "a_unpublished (spec_mark now k j a) = a_unpublished a - {k}"
  by (auto simp: a_unpublished_def spec_mark_def)

lemma a_message_mark [simp]: "a_message (spec_mark now k j a) = a_message a"
  by (auto simp: a_message_def spec_mark_def map_option_case split: option.splits)

lemma a_unpublished_finite: "a_wf a \<Longrightarrow> finite (a_unpublished a)"
  by (rule finite_subset [of _ "dom (a_outbox a)"]) (auto simp: a_unpublished_def a_wf_def rows_ok_def)

lemma a_pending_outbox:
  assumes "a_wf a" "m \<in> set (a_pending a)"
  shows "a_outbox a (om_id m) = Some (m, False)"
  using assms(2) assms(1) a_unpublished_finite [OF assms(1)]
  by (auto simp: a_pending_def a_unpublished_def a_message_def a_wf_message_id)

lemma a_pending_iff:
  assumes "a_wf a"
  shows "m \<in> set (a_pending a) \<longleftrightarrow> a_outbox a (om_id m) = Some (m, False)"
proof
  assume "a_outbox a (om_id m) = Some (m, False)"
  then have "om_id m \<in> a_unpublished a" "a_message a (om_id m) = m"
    by (auto simp: a_unpublished_def a_message_def)
  with a_unpublished_finite [OF assms] show "m \<in> set (a_pending a)"
    by (force simp: a_pending_def)
qed (rule a_pending_outbox [OF assms])

lemma a_pending_envelope:
  assumes "a_wf a" "m \<in> set (a_pending a)"
  obtains b where "a_jobs a (om_job_id m) = Some b" "om_payload m = build_envelope (om_job_id m) (j_job_type b)"
  using a_wf_message_job [OF assms(1) a_pending_outbox [OF assms]] .

lemma a_pending_no_jobs: "a_wf a \<Longrightarrow> (\<And>j. a_jobs a j = None) \<Longrightarrow> a_pending a = []"
  by (metis a_pending_envelope list.set_intros(1) neq_Nil_conv option.distinct(1))

text \<open>A queued job is pending.\<close>

lemma a_wf_queued_pending:
  assumes wf: "a_wf a" and b: "a_jobs a j = Some b" "j_status b = QUEUED"
  shows "\<exists>m \<in> set (a_pending a). om_job_id m = j \<and> om_payload m = build_envelope j (j_job_type b)"
proof -
  from wf have "covered a" and arm: "armed a" and out: "outbox_ok a" by (auto elim: a_wfE)
  with b(1) obtain k m p where m: "a_outbox a k = Some (m, p)" "om_job_id m = j" unfolding covered_def by blast
  with arm b have "\<not> p" unfolding armed_def by blast
  with m a_wf_message_id [OF wf m(1)] have "m \<in> set (a_pending a)" by (simp add: a_pending_iff [OF wf])
  moreover have "om_payload m = build_envelope j (j_job_type b)"
    using out m b(1) unfolding outbox_ok_def by fastforce
  ultimately show ?thesis using m(2) by blast
qed

lemma a_pending_mark:
  assumes wf: "a_wf a" and p: "a_pending a = m # ms"
  shows "a_pending (spec_mark now (om_id m) j a) = ms"
proof -
  from p obtain k ks where ks: "sorted_list_of_set (a_unpublished a) = k # ks" "a_message a k = m"
    "map (a_message a) ks = ms" by (auto simp: a_pending_def)
  have fin: "finite (a_unpublished a)" by (rule a_unpublished_finite [OF wf])
  then have "k \<in> a_unpublished a" using ks(1) by (metis list.set_intros(1) set_sorted_list_of_set)
  then have "om_id m = k" using ks(2) wf
    by (auto simp: a_unpublished_def a_message_def a_wf_message_id)
  moreover have "sorted_list_of_set (a_unpublished a - {k}) = ks"
    using ks(1) by (simp add: sorted_list_of_set_remove [OF fin])
  ultimately show ?thesis using ks(3) by (simp add: a_pending_def)
qed

lemma a_pending_sorted: "a_wf a \<Longrightarrow> sorted_wrt (<) (map om_id (a_pending a))"
proof -
  assume wf: "a_wf a"
  have "om_id (a_message a k) = k" if "k \<in> a_unpublished a" for k
    using that wf by (auto simp: a_unpublished_def a_message_def a_wf_message_id)
  then have "map om_id (a_pending a) = sorted_list_of_set (a_unpublished a)"
    using a_unpublished_finite [OF wf] by (auto simp: a_pending_def intro: map_idI)
  then show ?thesis by (simp add: strict_sorted_list_of_set)
qed

lemma a_pending_enqueue:
  assumes wf: "a_wf a" and k: "\<And>k'. k' \<in> dom (a_outbox a) \<Longrightarrow> k' < k"
  shows "a_pending (spec_enqueue jid k t u jt p c a) = a_pending a @ [new_message k jid jt]"
proof -
  let ?a' = "spec_enqueue jid k t u jt p c a"
  have fin: "finite (a_unpublished a)" by (rule a_unpublished_finite [OF wf])
  have below: "k' < k" if "k' \<in> a_unpublished a" for k' using that by (intro k) (auto simp: a_unpublished_def)
  have fresh: "k \<notin> a_unpublished a" using below by blast
  have "a_unpublished ?a' = insert k (a_unpublished a)"
    by (auto simp: a_unpublished_def spec_enqueue_def)
  moreover have "sorted_list_of_set (insert k (a_unpublished a)) = sorted_list_of_set (a_unpublished a) @ [k]"
    using fin below fresh by (intro sorted_list_of_set_unique [THEN iffD1])
      (auto simp: sorted_wrt_append strict_sorted_list_of_set)
  moreover have "a_message ?a' k' = (if k' = k then new_message k jid jt else a_message a k')" for k'
    by (simp add: a_message_def spec_enqueue_def)
  ultimately show ?thesis using fin below by (auto simp: a_pending_def)
qed

section \<open>The contract\<close>

locale job_store =
  fixes ops :: "'s store_ops"
    and abs :: "'s \<Rightarrow> astate"
    and inv :: "'s \<Rightarrow> bool"
  assumes inv_wf: "inv s \<Longrightarrow> a_wf (abs s)"
    and enqueue_dup: "inv s \<Longrightarrow> a_active (abs s) jt \<Longrightarrow>
      \<exists>s'. op_enqueue ops t u jt p c s = (None, s') \<and> inv s' \<and> abs s' = abs s"
    and enqueue_new: "inv s \<Longrightarrow> \<not> a_active (abs s) jt \<Longrightarrow>
      \<exists>s' jid k v. op_enqueue ops t u jt p c s = (Some jid, s') \<and> inv s' \<and> v \<in> {t, u} \<and>
        a_jobs (abs s) jid = None \<and> (\<forall>k' \<in> dom (a_outbox (abs s)). k' < k) \<and>
        abs s' = spec_enqueue jid k t v jt p c (abs s)"
    and fetch: "inv s \<Longrightarrow> 0 \<le> n \<Longrightarrow> op_fetch_unpublished ops n s = Inr (take (nat n) (a_pending (abs s)))"
    and mark: "inv s \<Longrightarrow> a_outbox (abs s) k = Some (m, q) \<Longrightarrow>
      inv (op_mark_dispatched ops now k (om_job_id m) s) \<and>
      abs (op_mark_dispatched ops now k (om_job_id m) s) = spec_mark now k (om_job_id m) (abs s)"
    and claim: "inv s \<Longrightarrow> inv (snd (op_claim ops now j s)) \<and>
      apsnd abs (op_claim ops now j s) = spec_claim now j (abs s)"
    and resolve: "inv s \<Longrightarrow> a_jobs (abs s) j = Some b \<Longrightarrow>
      inv (snd (op_resolve_payload ops now j (j_job_type b) s)) \<and>
      apsnd abs (op_resolve_payload ops now j (j_job_type b) s) = spec_resolve now j (abs s)"
    and handler_wrote: "inv s \<Longrightarrow> inv (op_handler_wrote ops j w s) \<and>
      abs (op_handler_wrote ops j w s) \<in> {abs s, spec_handler_wrote j w (abs s)}"
    and complete: "inv s \<Longrightarrow> inv (snd (op_complete ops now j s)) \<and>
      apsnd abs (op_complete ops now j s) = spec_finish COMPLETED now j (abs s)"
    and fail: "inv s \<Longrightarrow> inv (snd (op_fail ops now j s)) \<and>
      apsnd abs (op_fail ops now j s) = spec_finish FAILED now j (abs s)"
    and find_stuck: "inv s \<Longrightarrow> distinct (map sj_job_id (op_find_stuck ops now s)) \<and>
      set (map sj_job_id (op_find_stuck ops now s)) = a_stuck now (abs s)"
    and requeue: "inv s \<Longrightarrow> inv (snd (op_requeue_stuck ops now j s)) \<and>
      apsnd abs (op_requeue_stuck ops now j s) = spec_requeue now j (abs s)"
    and dead_letter: "inv s \<Longrightarrow> inv (snd (op_dead_letter ops now j s)) \<and>
      apsnd abs (op_dead_letter ops now j s) = spec_finish FAILED now j (abs s)"
    and get_job: "inv s \<Longrightarrow> map_option with_creator (op_get_job ops j s) = a_jobs (abs s) j"

end
