(* ===== verification/Memory_Store.thy ===== *)
theory Memory_Store
  imports Store_Laws
begin

text \<open>
  \<open>InMemoryStore\<close> of \<open>common/store.py\<close>. The dictionaries of the object are association lists in
  insertion order, the published ids a set, and \<open>itertools.count\<close> the next value to be drawn. Every
  method is a function of the object's state; a method that mutates a \<open>Job\<close> in place rewrites the
  row of that job. The end of the theory interprets the contract \<open>job_store\<close> on these definitions.
\<close>

section \<open>State\<close>

record mem_store =
  ms_jobs :: "(int \<times> job) list"
  ms_outbox :: "(int \<times> outbox_message) list"
  ms_published :: "int set"
  ms_type_config :: "(string \<times> type_config) list"
  ms_job_ids :: int
  ms_outbox_ids :: int

definition mem_init :: mem_store where
  "mem_init = \<lparr>ms_jobs = [], ms_outbox = [], ms_published = {}, ms_type_config = [],
     ms_job_ids = 1, ms_outbox_ids = 1\<rparr>"

section \<open>Operations\<close>

definition mem_set_type_config ::
  "string \<Rightarrow> interval \<Rightarrow> int \<Rightarrow> payload option \<Rightarrow> mem_store \<Rightarrow> mem_store" where
  "mem_set_type_config jt run_timeout max_attempts p s = s\<lparr>ms_type_config :=
     AList.update jt \<lparr>tc_run_timeout = run_timeout, tc_max_attempts = max_attempts,
       tc_payload = or_empty p\<rparr> (ms_type_config s)\<rparr>"

definition mem_timeout :: "string \<Rightarrow> mem_store \<Rightarrow> interval" where
  "mem_timeout jt s = (case map_of (ms_type_config s) jt of
     Some cfg \<Rightarrow> tc_run_timeout cfg | None \<Rightarrow> DEFAULT_RUN_TIMEOUT)"

definition mem_max_attempts :: "string \<Rightarrow> mem_store \<Rightarrow> int" where
  "mem_max_attempts jt s = (case map_of (ms_type_config s) jt of
     Some cfg \<Rightarrow> tc_max_attempts cfg | None \<Rightarrow> DEFAULT_MAX_ATTEMPTS)"

definition mem_active :: "string \<Rightarrow> mem_store \<Rightarrow> bool" where
  "mem_active jt s \<longleftrightarrow>
     list_ex (\<lambda>b. j_job_type b = jt \<and> j_status b \<in> set ACTIVE) (map snd (ms_jobs s))"

definition mem_enqueue ::
  "time \<Rightarrow> time \<Rightarrow> string \<Rightarrow> payload option \<Rightarrow> creator option \<Rightarrow> mem_store \<Rightarrow> int option \<times> mem_store" where
  [ops_defs]: "mem_enqueue t u jt p c s =
     (if mem_active jt s then (None, s)
      else let job_id = ms_job_ids s; outbox_id = ms_outbox_ids s in
        (Some job_id, s\<lparr>
           ms_job_ids := job_id + 1,
           ms_jobs := AList.update job_id \<lparr>j_id = job_id, j_job_type = jt, j_status = QUEUED,
             j_input_payload = or_empty p, j_payload = fmempty, j_attempts = 0,
             j_created_at = t, j_updated_at = u, j_created_by = c\<rparr> (ms_jobs s),
           ms_outbox_ids := outbox_id + 1,
           ms_outbox := AList.update outbox_id \<lparr>om_id = outbox_id, om_job_id = job_id,
             om_payload = build_envelope job_id jt\<rparr> (ms_outbox s)\<rparr>))"

definition mem_fetch_unpublished :: "int \<Rightarrow> mem_store \<Rightarrow> exn + outbox_message list" where
  [ops_defs]: "mem_fetch_unpublished limit s =
     (let rows = map snd (filter (\<lambda>(mid, m). mid \<notin> ms_published s) (sort_key fst (ms_outbox s)))
      in Inr (slice_to limit rows))"

definition mem_mark_dispatched :: "time \<Rightarrow> int \<Rightarrow> int \<Rightarrow> mem_store \<Rightarrow> mem_store" where
  [ops_defs]: "mem_mark_dispatched now outbox_id job_id s =
     (let s1 = s\<lparr>ms_published := insert outbox_id (ms_published s)\<rparr> in
      case map_of (ms_jobs s1) job_id of
        None \<Rightarrow> s1
      | Some b \<Rightarrow>
          if j_status b = QUEUED then
            s1\<lparr>ms_jobs := AList.update job_id (b\<lparr>j_status := DISPATCHED, j_updated_at := now\<rparr>) (ms_jobs s1)\<rparr>
          else s1)"

definition mem_claim :: "time \<Rightarrow> int \<Rightarrow> mem_store \<Rightarrow> bool \<times> mem_store" where
  [ops_defs]: "mem_claim now job_id s = (case map_of (ms_jobs s) job_id of
      None \<Rightarrow> (False, s)
    | Some b \<Rightarrow>
        if j_status b \<in> {QUEUED, DISPATCHED} then
          (True, s\<lparr>ms_jobs := AList.update job_id (b\<lparr>j_status := RUNNING, j_updated_at := now\<rparr>) (ms_jobs s)\<rparr>)
        else (False, s))"

text \<open>The type passed by the caller is ignored: the configuration is that of the row's own type.\<close>

definition mem_resolve_payload :: "time \<Rightarrow> int \<Rightarrow> string \<Rightarrow> mem_store \<Rightarrow> payload option \<times> mem_store" where
  [ops_defs]: "mem_resolve_payload now job_id job_type s = (case map_of (ms_jobs s) job_id of
      None \<Rightarrow> (None, s)
    | Some b \<Rightarrow>
        if j_status b \<noteq> RUNNING then (None, s)
        else case map_of (ms_type_config s) (j_job_type b) of
            None \<Rightarrow> (None, s)
          | Some cfg \<Rightarrow>
              let p = tc_payload cfg ++\<^sub>f j_input_payload b in
              (Some p, s\<lparr>ms_jobs := AList.update job_id (b\<lparr>j_payload := p, j_updated_at := now\<rparr>) (ms_jobs s)\<rparr>))"

text \<open>
  \<open>resolve_payload\<close> returns \<open>job.payload\<close> itself, so what the handler writes into its argument is
  written into the row.
\<close>

definition mem_handler_wrote :: "int \<Rightarrow> payload \<Rightarrow> mem_store \<Rightarrow> mem_store" where
  [ops_defs]: "mem_handler_wrote job_id p s = (case map_of (ms_jobs s) job_id of
      None \<Rightarrow> s
    | Some b \<Rightarrow> s\<lparr>ms_jobs := AList.update job_id (b\<lparr>j_payload := p\<rparr>) (ms_jobs s)\<rparr>)"

definition mem_terminal :: "job_status \<Rightarrow> time \<Rightarrow> int \<Rightarrow> mem_store \<Rightarrow> bool \<times> mem_store" where
  [ops_defs]: "mem_terminal status now job_id s = (case map_of (ms_jobs s) job_id of
      None \<Rightarrow> (False, s)
    | Some b \<Rightarrow>
        if j_status b = RUNNING then
          (True, s\<lparr>ms_jobs := AList.update job_id (b\<lparr>j_status := status, j_updated_at := now\<rparr>) (ms_jobs s)\<rparr>)
        else (False, s))"

definition mem_complete :: "time \<Rightarrow> int \<Rightarrow> mem_store \<Rightarrow> bool \<times> mem_store" where
  [ops_defs]: "mem_complete now job_id s = mem_terminal COMPLETED now job_id s"

definition mem_fail :: "time \<Rightarrow> int \<Rightarrow> mem_store \<Rightarrow> bool \<times> mem_store" where
  [ops_defs]: "mem_fail now job_id s = mem_terminal FAILED now job_id s"

definition mem_find_stuck :: "time \<Rightarrow> mem_store \<Rightarrow> stuck_job list" where
  [ops_defs]: "mem_find_stuck now s =
     map (\<lambda>b. \<lparr>sj_job_id = j_id b, sj_job_type = j_job_type b, sj_attempts = j_attempts b\<rparr>)
       (filter (\<lambda>b. j_status b = RUNNING \<and> now - j_updated_at b > mem_timeout (j_job_type b) s)
         (map snd (ms_jobs s)))"

definition discard_rows :: "int \<Rightarrow> (int \<times> outbox_message) list \<Rightarrow> int set \<Rightarrow> int set" where
  "discard_rows job_id outbox published =
     foldl (\<lambda>pub (mid, msg). if om_job_id msg = job_id then pub - {mid} else pub) published outbox"

definition mem_requeue_stuck :: "time \<Rightarrow> int \<Rightarrow> mem_store \<Rightarrow> bool \<times> mem_store" where
  [ops_defs]: "mem_requeue_stuck now job_id s = (case map_of (ms_jobs s) job_id of
      None \<Rightarrow> (False, s)
    | Some b \<Rightarrow>
        if j_status b \<noteq> RUNNING then (False, s)
        else if j_attempts b \<ge> mem_max_attempts (j_job_type b) s then (False, s)
        else (True, s\<lparr>
          ms_jobs := AList.update job_id (b\<lparr>j_status := QUEUED, j_attempts := j_attempts b + 1,
            j_updated_at := now\<rparr>) (ms_jobs s),
          ms_published := discard_rows job_id (ms_outbox s) (ms_published s)\<rparr>))"

definition mem_dead_letter :: "time \<Rightarrow> int \<Rightarrow> mem_store \<Rightarrow> bool \<times> mem_store" where
  [ops_defs]: "mem_dead_letter now job_id s = (case map_of (ms_jobs s) job_id of
      None \<Rightarrow> (False, s)
    | Some b \<Rightarrow>
        if j_status b = RUNNING then
          (True, s\<lparr>ms_jobs := AList.update job_id (b\<lparr>j_status := FAILED, j_updated_at := now\<rparr>) (ms_jobs s)\<rparr>)
        else (False, s))"

definition mem_get_job :: "int \<Rightarrow> mem_store \<Rightarrow> job option" where
  [ops_defs]: "mem_get_job job_id s = map_of (ms_jobs s) job_id"

definition mem_ops :: "mem_store store_ops" where
  "mem_ops = \<lparr>op_enqueue = mem_enqueue, op_fetch_unpublished = mem_fetch_unpublished,
     op_mark_dispatched = mem_mark_dispatched, op_claim = mem_claim,
     op_resolve_payload = mem_resolve_payload, op_handler_wrote = mem_handler_wrote,
     op_complete = mem_complete, op_fail = mem_fail, op_find_stuck = mem_find_stuck,
     op_requeue_stuck = mem_requeue_stuck, op_dead_letter = mem_dead_letter,
     op_get_job = mem_get_job\<rparr>"

section \<open>Abstraction and representation invariant\<close>

definition mem_abs :: "mem_store \<Rightarrow> astate" where
  "mem_abs s = \<lparr>a_jobs = (\<lambda>j. map_option with_creator (map_of (ms_jobs s) j)),
     a_outbox = (\<lambda>k. map_option (\<lambda>m. (m, k \<in> ms_published s)) (map_of (ms_outbox s) k)),
     a_config = map_of (ms_type_config s)\<rparr>"

text \<open>Ids are handed out in increasing order, so insertion order is the order of the ids.\<close>

definition mem_rep :: "mem_store \<Rightarrow> bool" where
  "mem_rep s \<longleftrightarrow> distinct (map fst (ms_jobs s)) \<and> (\<forall>j \<in> fst ` set (ms_jobs s). j < ms_job_ids s) \<and>
     sorted_wrt (<) (map fst (ms_outbox s)) \<and> (\<forall>k \<in> fst ` set (ms_outbox s). k < ms_outbox_ids s) \<and>
     (\<forall>k \<in> ms_published s. k < ms_outbox_ids s)"

definition mem_inv :: "mem_store \<Rightarrow> bool" where
  "mem_inv s \<longleftrightarrow> mem_rep s \<and> a_wf (mem_abs s)"

section \<open>Lemmas\<close>

lemma mem_abs_simps [simp]:
  "a_jobs (mem_abs s) j = map_option with_creator (map_of (ms_jobs s) j)"
  "a_outbox (mem_abs s) k = map_option (\<lambda>m. (m, k \<in> ms_published s)) (map_of (ms_outbox s) k)"
  "a_config (mem_abs s) = map_of (ms_type_config s)"
  by (simp_all add: mem_abs_def)

lemma mem_inv_init: "mem_inv mem_init"
  by (simp add: mem_inv_def mem_rep_def mem_init_def mem_abs_def a_wf_def rows_ok_def outbox_ok_def
      covered_def one_active_def armed_def dom_def)

lemma astate_eqI:
  "(\<And>j. a_jobs a j = a_jobs a' j) \<Longrightarrow> (\<And>k. a_outbox a k = a_outbox a' k) \<Longrightarrow>
   a_config a = a_config a' \<Longrightarrow> a = (a' :: astate)"
  by (cases a; cases a') (auto simp: fun_eq_iff)

text \<open>Rewriting one existing row is the abstract update of that row.\<close>

lemma mem_abs_row:
  assumes "map_of (ms_jobs s) j = Some b"
  shows "mem_abs (s\<lparr>ms_jobs := AList.update j b' (ms_jobs s)\<rparr>) =
     (mem_abs s)\<lparr>a_jobs := (a_jobs (mem_abs s))(j \<mapsto> with_creator b')\<rparr>"
  by (rule astate_eqI) simp_all

lemma mem_rep_row:
  "mem_rep s \<Longrightarrow> map_of (ms_jobs s) j = Some b \<Longrightarrow> mem_rep (s\<lparr>ms_jobs := AList.update j b' (ms_jobs s)\<rparr>)"
  by (auto simp: mem_rep_def distinct_update update_keys dom_update map_of_keys_update
      intro: map_of_dom dest: map_of_dom)

lemma with_creator_upd [simp]:
  "with_creator (b\<lparr>j_status := st, j_updated_at := t\<rparr>) = (with_creator b)\<lparr>j_status := st, j_updated_at := t\<rparr>"
  "with_creator (b\<lparr>j_payload := p, j_updated_at := t\<rparr>) = (with_creator b)\<lparr>j_payload := p, j_updated_at := t\<rparr>"
  "with_creator (b\<lparr>j_payload := p\<rparr>) = (with_creator b)\<lparr>j_payload := p\<rparr>"
  "with_creator (b\<lparr>j_status := st, j_attempts := n, j_updated_at := t\<rparr>) =
     (with_creator b)\<lparr>j_status := st, j_attempts := n, j_updated_at := t\<rparr>"
  by (simp_all add: with_creator_def)

section \<open>Each method computes its abstract operation\<close>

lemma mem_claim_abs: "apsnd mem_abs (mem_claim now j s) = spec_claim now j (mem_abs s)"
  by (auto simp: mem_claim_def spec_claim_def a_guarded_def mem_abs_row split: option.splits)

lemma mem_terminal_abs: "apsnd mem_abs (mem_terminal st now j s) = spec_finish st now j (mem_abs s)"
  by (auto simp: mem_terminal_def spec_finish_def a_guarded_def mem_abs_row split: option.splits)

lemma mem_dead_letter_terminal: "mem_dead_letter now j s = mem_terminal FAILED now j s"
  by (simp add: mem_dead_letter_def mem_terminal_def)

lemma mem_resolve_abs: "apsnd mem_abs (mem_resolve_payload now j jt s) = spec_resolve now j (mem_abs s)"
  by (auto simp: mem_resolve_payload_def spec_resolve_def mem_abs_row Let_def split: option.splits)

lemma mem_handler_wrote_abs: "mem_abs (mem_handler_wrote j p s) = spec_handler_wrote j p (mem_abs s)"
  by (auto simp: mem_handler_wrote_def spec_handler_wrote_def a_guarded_def mem_abs_row split: option.splits)

lemma mem_rep_guarded:
  assumes "mem_rep s"
  shows "mem_rep (snd (mem_claim now j s))" "mem_rep (snd (mem_terminal st now j s))"
    "mem_rep (snd (mem_resolve_payload now j jt s))" "mem_rep (mem_handler_wrote j p s)"
proof -
  note row = mem_rep_row [OF assms, of j]
  show "mem_rep (snd (mem_claim now j s))" "mem_rep (mem_handler_wrote j p s)"
    "mem_rep (snd (mem_terminal st now j s))"
    using assms row by (cases "map_of (ms_jobs s) j"; simp add: mem_claim_def mem_handler_wrote_def mem_terminal_def)+
  show "mem_rep (snd (mem_resolve_payload now j jt s))"
    using assms row by (cases "map_of (ms_jobs s) j")
      (simp_all add: mem_resolve_payload_def Let_def split: option.split)
qed

lemma discard_rows_iff:
  "k \<in> discard_rows j ob pub \<longleftrightarrow> k \<in> pub \<and> (\<forall>m. (k, m) \<in> set ob \<longrightarrow> om_job_id m \<noteq> j)"
  unfolding discard_rows_def by (induction ob arbitrary: pub) (auto split: if_splits)

lemma mem_timeout_of [simp]: "mem_timeout jt s = timeout_of (map_of (ms_type_config s)) jt"
  by (auto simp: mem_timeout_def timeout_of_def split: option.splits)

lemma mem_max_attempts_of [simp]: "mem_max_attempts jt s = max_attempts_of (map_of (ms_type_config s)) jt"
  by (auto simp: mem_max_attempts_def max_attempts_of_def split: option.splits)

lemma mem_rep_distinct: "mem_rep s \<Longrightarrow> distinct (map fst (ms_outbox s))"
  by (auto simp: mem_rep_def strict_sorted_iff)

lemma mem_requeue_abs:
  assumes "mem_rep s"
  shows "apsnd mem_abs (mem_requeue_stuck now j s) = spec_requeue now j (mem_abs s)"
proof (cases "map_of (ms_jobs s) j")
  case None
  then show ?thesis by (simp add: mem_requeue_stuck_def spec_requeue_def)
next
  case (Some b)
  have k: "(k, m) \<in> set (ms_outbox s) \<longleftrightarrow> map_of (ms_outbox s) k = Some m" for k m
    using mem_rep_distinct [OF assms] by simp
  have out: "map_option (\<lambda>m. (m, k \<in> discard_rows j (ms_outbox s) (ms_published s))) (map_of (ms_outbox s) k) =
     a_rearm j (a_outbox (mem_abs s)) k" for k
    by (cases "map_of (ms_outbox s) k") (auto simp: a_rearm_def discard_rows_iff k)
  have "mem_abs (s\<lparr>ms_jobs := AList.update j b' (ms_jobs s),
      ms_published := discard_rows j (ms_outbox s) (ms_published s)\<rparr>) =
    (mem_abs s)\<lparr>a_jobs := (a_jobs (mem_abs s))(j \<mapsto> with_creator b'),
      a_outbox := a_rearm j (a_outbox (mem_abs s))\<rparr>" for b'
    by (rule astate_eqI) (simp_all add: out)
  with Some show ?thesis by (simp add: mem_requeue_stuck_def spec_requeue_def)
qed

lemma mem_rep_unpublish: "mem_rep s \<Longrightarrow> pub \<subseteq> ms_published s \<Longrightarrow> mem_rep (s\<lparr>ms_published := pub\<rparr>)"
  by (auto simp: mem_rep_def)

lemma mem_requeue_rep:
  assumes "mem_rep s"
  shows "mem_rep (snd (mem_requeue_stuck now j s))"
proof (cases "map_of (ms_jobs s) j")
  case (Some b)
  have "discard_rows j (ms_outbox s) (ms_published s) \<subseteq> ms_published s"
    by (auto simp: discard_rows_iff)
  with mem_rep_row [OF assms Some] have "mem_rep (s\<lparr>ms_jobs := AList.update j b' (ms_jobs s),
      ms_published := discard_rows j (ms_outbox s) (ms_published s)\<rparr>)" for b'
    by (intro mem_rep_unpublish) simp_all
  with assms Some show ?thesis by (simp add: mem_requeue_stuck_def)
qed (simp add: mem_requeue_stuck_def assms)

lemma mem_mark_abs:
  "mem_abs (mem_mark_dispatched now k j s) = spec_mark now k j (mem_abs s)"
proof (rule astate_eqI)
  fix i
  show "a_jobs (mem_abs (mem_mark_dispatched now k j s)) i = a_jobs (spec_mark now k j (mem_abs s)) i"
    by (cases "i = j") (auto simp: mem_mark_dispatched_def spec_mark_def a_guarded_at Let_def split: option.splits)
next
  fix i
  show "a_outbox (mem_abs (mem_mark_dispatched now k j s)) i = a_outbox (spec_mark now k j (mem_abs s)) i"
    by (cases "map_of (ms_outbox s) i") (auto simp: mem_mark_dispatched_def spec_mark_def Let_def split: option.splits)
qed (simp add: mem_mark_dispatched_def spec_mark_def Let_def split: option.splits)

lemma mem_mark_rep:
  assumes "mem_rep s" "map_of (ms_outbox s) k = Some m"
  shows "mem_rep (mem_mark_dispatched now k j s)"
proof -
  let ?s = "s\<lparr>ms_published := insert k (ms_published s)\<rparr>"
  from assms have rep: "mem_rep ?s" by (auto simp: mem_rep_def dest!: map_of_dom)
  show ?thesis
  proof (cases "map_of (ms_jobs s) j")
    case (Some b)
    then have "mem_rep (?s\<lparr>ms_jobs := AList.update j b' (ms_jobs ?s)\<rparr>)" for b'
      by (intro mem_rep_row [OF rep]) simp
    with rep Some show ?thesis by (simp add: mem_mark_dispatched_def Let_def)
  qed (use rep in \<open>simp add: mem_mark_dispatched_def Let_def\<close>)
qed

lemma mem_active_abs: "mem_inv s \<Longrightarrow> mem_active jt s \<longleftrightarrow> a_active (mem_abs s) jt"
proof -
  assume "mem_inv s"
  then have "(j, b) \<in> set (ms_jobs s) \<longleftrightarrow> map_of (ms_jobs s) j = Some b" for j b
    by (simp add: mem_inv_def mem_rep_def)
  then have "mem_active jt s \<longleftrightarrow> (\<exists>j b. map_of (ms_jobs s) j = Some b \<and> j_job_type b = jt \<and> active_job b)"
    unfolding mem_active_def list_ex_iff by force
  then show ?thesis by (force simp: a_active_def)
qed

lemma mem_enqueue_new_abs:
  assumes "mem_rep s" "\<not> mem_active jt s"
  shows "mem_enqueue t u jt p c s = (Some (ms_job_ids s), snd (mem_enqueue t u jt p c s))"
    and "mem_rep (snd (mem_enqueue t u jt p c s))"
    and "mem_abs (snd (mem_enqueue t u jt p c s)) =
      spec_enqueue (ms_job_ids s) (ms_outbox_ids s) t u jt p c (mem_abs s)"
    and "map_of (ms_jobs s) (ms_job_ids s) = None"
    and "\<forall>k \<in> dom (a_outbox (mem_abs s)). k < ms_outbox_ids s"
proof -
  show "mem_enqueue t u jt p c s = (Some (ms_job_ids s), snd (mem_enqueue t u jt p c s))"
    using assms(2) by (simp add: mem_enqueue_def Let_def)
  have fresh: "ms_job_ids s \<notin> fst ` set (ms_jobs s)" "ms_outbox_ids s \<notin> fst ` set (ms_outbox s)"
    "ms_outbox_ids s \<notin> ms_published s"
    using assms(1) by (auto simp: mem_rep_def)
  show "mem_rep (snd (mem_enqueue t u jt p c s))"
    using assms fresh by (auto simp: mem_enqueue_def mem_rep_def Let_def AList_update_new sorted_wrt_append)
  show "mem_abs (snd (mem_enqueue t u jt p c s)) =
      spec_enqueue (ms_job_ids s) (ms_outbox_ids s) t u jt p c (mem_abs s)"
    by (rule astate_eqI)
      (use assms(2) fresh(3) in \<open>auto simp: mem_enqueue_def spec_enqueue_def Let_def new_job_def new_message_def\<close>)
  show "map_of (ms_jobs s) (ms_job_ids s) = None" using fresh(1) by (simp add: map_of_eq_None_iff)
  show "\<forall>k \<in> dom (a_outbox (mem_abs s)). k < ms_outbox_ids s"
    using assms(1) by (auto simp: mem_rep_def dest!: map_of_dom)
qed

lemma mem_fetch_pending:
  assumes "mem_rep s"
  shows "map snd (filter (\<lambda>(mid, m). mid \<notin> ms_published s) (sort_key fst (ms_outbox s))) = a_pending (mem_abs s)"
proof -
  let ?rows = "filter (\<lambda>(mid, m). mid \<notin> ms_published s) (ms_outbox s)"
  from assms have st: "sorted_wrt (<) (map fst (ms_outbox s))" by (simp add: mem_rep_def)
  then have srt: "sort_key fst (ms_outbox s) = ms_outbox s"
    by (intro sort_key_id_if_sorted) (simp add: strict_sorted_iff)
  have lk: "map_of (ms_outbox s) k = Some m \<longleftrightarrow> (k, m) \<in> set (ms_outbox s)" for k m
    using mem_rep_distinct [OF assms] by simp
  have "sorted_wrt (<) (map fst ?rows)"
    using st by (simp add: sorted_wrt_map sorted_wrt_filter)
  moreover have "a_unpublished (mem_abs s) = set (map fst ?rows)"
    by (force simp: a_unpublished_def lk)
  ultimately have "sorted_list_of_set (a_unpublished (mem_abs s)) = map fst ?rows"
    by (metis sorted_list_of_set.idem_if_sorted_distinct strict_sorted_iff)
  moreover have "a_message (mem_abs s) (fst r) = snd r" if "r \<in> set ?rows" for r
    using that lk [of "fst r" "snd r"] by (auto simp: a_message_def)
  ultimately show ?thesis by (auto simp: a_pending_def srt)
qed

lemma mem_find_stuck_abs:
  assumes "mem_inv s"
  shows "distinct (map sj_job_id (mem_find_stuck now s)) \<and>
    set (map sj_job_id (mem_find_stuck now s)) = a_stuck now (mem_abs s)"
proof -
  let ?P = "\<lambda>b. j_status b = RUNNING \<and> now - j_updated_at b > mem_timeout (j_job_type b) s"
  have dist: "distinct (map fst (ms_jobs s))" using assms by (simp add: mem_inv_def mem_rep_def)
  have lk: "(j, b) \<in> set (ms_jobs s) \<longleftrightarrow> map_of (ms_jobs s) j = Some b" for j b
    using dist by simp
  have id: "j_id b = j" if "(j, b) \<in> set (ms_jobs s)" for j b
  proof -
    from that have "a_jobs (mem_abs s) j = Some (with_creator b)" by (simp add: lk)
    with assms show ?thesis using a_wf_id [of "mem_abs s" j "with_creator b"] by (simp add: mem_inv_def)
  qed
  have ids: "map sj_job_id (mem_find_stuck now s) = map fst (filter (\<lambda>(j, b). ?P b) (ms_jobs s))"
    using id by (auto simp: mem_find_stuck_def filter_map o_def case_prod_unfold)
  have "distinct (map fst (filter (\<lambda>(j, b). ?P b) (ms_jobs s)))"
    using dist by (rule distinct_map_filter)
  moreover have "fst ` {r \<in> set (ms_jobs s). case r of (j, b) \<Rightarrow> ?P b} = a_stuck now (mem_abs s)"
  proof (intro set_eqI iffI)
    fix j
    assume "j \<in> a_stuck now (mem_abs s)"
    then obtain b where "(j, b) \<in> set (ms_jobs s)" "?P b" by (auto simp: a_stuck_def lk)
    then show "j \<in> fst ` {r \<in> set (ms_jobs s). case r of (j, b) \<Rightarrow> ?P b}"
      by (intro image_eqI [of _ _ "(j, b)"]) simp_all
  qed (auto simp: a_stuck_def lk)
  ultimately show ?thesis by (simp add: ids)
qed

section \<open>The in-memory store meets the contract\<close>

lemma mem_step:
  "mem_rep (snd r) \<Longrightarrow> apsnd mem_abs r = sp \<Longrightarrow> a_wf (snd sp) \<Longrightarrow>
     mem_inv (snd r) \<and> apsnd mem_abs r = sp"
  by (auto simp: mem_inv_def)

lemma mem_terminal_step:
  "mem_inv s \<Longrightarrow> st \<in> set TERMINAL \<Longrightarrow> mem_inv (snd (mem_terminal st now j s)) \<and>
     apsnd mem_abs (mem_terminal st now j s) = spec_finish st now j (mem_abs s)"
  by (intro mem_step mem_rep_guarded mem_terminal_abs spec_finish_wf) (simp_all add: mem_inv_def)

interpretation mem: job_store mem_ops mem_abs mem_inv
proof (unfold_locales, goal_cases)
  case 1
  then show ?case by (simp add: mem_inv_def)
next
  case 2
  then show ?case by (simp add: mem_ops_def mem_enqueue_def mem_active_abs)
next
  case (3 s jt t u p c)
  then have rep: "mem_rep s" and free: "\<not> mem_active jt s"
    by (simp_all add: mem_inv_def mem_active_abs [OF 3(1)])
  note new = mem_enqueue_new_abs(1-3) [OF rep free, of t u p c] mem_enqueue_new_abs(4,5) [OF rep free]
  have "a_wf (spec_enqueue (ms_job_ids s) (ms_outbox_ids s) t u jt p c (mem_abs s))"
    using 3 new(4,5) by (intro spec_enqueue_wf) (auto simp: mem_inv_def dom_def)
  with new show ?case
    by (intro exI [of _ "snd (mem_enqueue t u jt p c s)"] exI [of _ "ms_job_ids s"]
        exI [of _ "ms_outbox_ids s"] exI [of _ u]) (auto simp: mem_ops_def mem_inv_def)
next
  case 4
  then show ?case by (simp add: mem_ops_def mem_fetch_unpublished_def mem_fetch_pending mem_inv_def)
next
  case (5 s k m q now)
  then have "a_wf (spec_mark now k (om_job_id m) (mem_abs s))" by (intro spec_mark_wf) (auto simp: mem_inv_def)
  with 5 show ?case by (auto simp: mem_ops_def mem_mark_abs mem_mark_rep mem_inv_def)
next
  case (6 s now j)
  then have "mem_inv (snd (mem_claim now j s)) \<and> apsnd mem_abs (mem_claim now j s) = spec_claim now j (mem_abs s)"
    by (intro mem_step mem_rep_guarded mem_claim_abs wf_intros) (simp_all add: mem_inv_def)
  then show ?case by (simp add: mem_ops_def)
next
  case (7 s j b now)
  then have "mem_inv (snd (mem_resolve_payload now j (j_job_type b) s)) \<and>
      apsnd mem_abs (mem_resolve_payload now j (j_job_type b) s) = spec_resolve now j (mem_abs s)"
    by (intro mem_step mem_rep_guarded mem_resolve_abs wf_intros) (simp_all add: mem_inv_def)
  then show ?case by (simp add: mem_ops_def)
next
  case 8
  then show ?case by (simp add: mem_ops_def mem_inv_def mem_rep_guarded mem_handler_wrote_abs wf_intros)
next
  case 9
  then show ?case by (simp add: mem_ops_def mem_complete_def mem_terminal_step)
next
  case 10
  then show ?case by (simp add: mem_ops_def mem_fail_def mem_terminal_step)
next
  case 11
  then show ?case using mem_find_stuck_abs by (simp add: mem_ops_def)
next
  case (12 s now j)
  then have "mem_inv (snd (mem_requeue_stuck now j s)) \<and>
      apsnd mem_abs (mem_requeue_stuck now j s) = spec_requeue now j (mem_abs s)"
    by (intro mem_step mem_requeue_rep mem_requeue_abs wf_intros) (simp_all add: mem_inv_def)
  then show ?case by (simp add: mem_ops_def)
next
  case 13
  then show ?case by (simp add: mem_ops_def mem_dead_letter_terminal mem_terminal_step)
next
  case 14
  then show ?case by (simp add: mem_ops_def mem_get_job_def)
qed

section \<open>Properties\<close>

lemma a_wf_config:
  assumes "a_wf a"
  shows "a_wf (a\<lparr>a_config := cfg\<rparr>)"
proof -
  have same: "a_jobs (a\<lparr>a_config := cfg\<rparr>) = a_jobs a" "a_outbox (a\<lparr>a_config := cfg\<rparr>) = a_outbox a" by simp_all
  show ?thesis using assms
    unfolding a_wf_def rows_ok_def outbox_ok_def covered_def one_active_def armed_def same .
qed

lemma mem_inv_config:
  assumes "mem_inv s"
  shows "mem_inv (mem_set_type_config jt rt ma p s)"
proof -
  have "mem_abs (mem_set_type_config jt rt ma p s) =
      (mem_abs s)\<lparr>a_config := a_config (mem_abs (mem_set_type_config jt rt ma p s))\<rparr>"
    by (rule astate_eqI) (simp_all add: mem_set_type_config_def)
  moreover have "mem_rep (mem_set_type_config jt rt ma p s)"
    using assms by (simp add: mem_inv_def mem_rep_def mem_set_type_config_def)
  ultimately show ?thesis using assms a_wf_config unfolding mem_inv_def by metis
qed

lemma mem_inv_enqueue:
  assumes "mem_inv s"
  shows "mem_inv (snd (mem_enqueue t u jt p c s))"
  using mem.enqueue_dup [OF assms, of jt t u p c] mem.enqueue_new [OF assms, of jt t u p c]
  by (cases "a_active (mem_abs s) jt") (auto simp: mem_ops_def)

lemma mem_inv_claim: "mem_inv s \<Longrightarrow> mem_inv (snd (mem_claim t j s))"
  using mem.claim [of s t j] by (simp add: mem_ops_def)

definition demo_mem :: mem_store where
  "demo_mem = snd (mem_enqueue 0 0 ''hello'' (Some (fmap_of_list [(''name'', JStr ''Bob'')])) None
     (mem_set_type_config ''hello'' (minutes 15) 3 (Some (fmap_of_list [(''name'', JStr ''Ada'')])) mem_init))"

lemma mem_inv_demo: "mem_inv demo_mem"
  unfolding demo_mem_def by (intro mem_inv_enqueue mem_inv_config mem_inv_init)

text \<open>
  C6. The in-memory store meets the same contract: the empty store satisfies the invariant, and
  every method keeps it and computes its abstract operation, with its result.
\<close>

theorem mem_store_contract: "mem_inv mem_init \<and> job_store mem_ops mem_abs mem_inv"
  using mem_inv_init mem.job_store_axioms by simp

text \<open>
  Queueing a stuck run again re-arms its message: \<open>requeue_stuck\<close> succeeds only on a running job under the cap of
  its type, counts the attempt, and afterwards the outbox hands the job's envelope out again.
\<close>

lemma mem_requeue_rearms:
  assumes "mem_inv s" "mem_requeue_stuck t j s = (True, s')"
  shows "\<exists>b. mem_get_job j s = Some b \<and> j_status b = RUNNING \<and> j_attempts b < mem_max_attempts (j_job_type b) s \<and>
    mem_get_job j s' = Some (b\<lparr>j_status := QUEUED, j_attempts := j_attempts b + 1, j_updated_at := t\<rparr>) \<and>
    (\<exists>ms. mem_fetch_unpublished (int (length (ms_outbox s'))) s' = Inr ms \<and> (\<exists>m \<in> set ms.
       om_job_id m = j \<and> om_payload m = build_envelope j (j_job_type b)))"
proof -
  obtain b where b: "mem_get_job j s = Some b" "j_status b = RUNNING" "j_attempts b < mem_max_attempts (j_job_type b) s"
    "mem_get_job j s' = Some (b\<lparr>j_status := QUEUED, j_attempts := j_attempts b + 1, j_updated_at := t\<rparr>)"
    using assms(2) by (auto simp: mem_requeue_stuck_def mem_get_job_def update_conv split: option.splits if_splits)
  have inv: "mem_inv s'" using mem.requeue [OF assms(1), of t j] assms(2) by (simp add: mem_ops_def)
  then have wf: "a_wf (mem_abs s')" by (simp add: mem_inv_def)
  have row: "a_jobs (mem_abs s') j =
      Some (with_creator (b\<lparr>j_status := QUEUED, j_attempts := j_attempts b + 1, j_updated_at := t\<rparr>))"
    using b(4) by (simp add: mem_get_job_def)
  from a_wf_queued_pending [OF wf row] obtain m where m: "m \<in> set (a_pending (mem_abs s'))" "om_job_id m = j"
    "om_payload m = build_envelope j (j_job_type b)" by auto
  have "length (a_pending (mem_abs s')) \<le> length (ms_outbox s')"
  proof -
    have "a_unpublished (mem_abs s') \<subseteq> fst ` set (ms_outbox s')"
      by (auto simp: a_unpublished_def dest: map_of_SomeD intro: rev_image_eqI)
    then have "card (a_unpublished (mem_abs s')) \<le> card (fst ` set (ms_outbox s'))" by (simp add: card_mono)
    also have "\<dots> \<le> length (ms_outbox s')" by (metis card_length length_map list.set_map)
    finally show ?thesis by (simp add: a_pending_def)
  qed
  then have "mem_fetch_unpublished (int (length (ms_outbox s'))) s' = Inr (a_pending (mem_abs s'))"
    using mem.fetch [OF inv, of "int (length (ms_outbox s'))"] by (simp add: mem_ops_def)
  with b m show ?thesis by blast
qed

end
