(* ===== verification/Postgres_Store.thy ===== *)
theory Postgres_Store
  imports Store_Laws
begin

text \<open>
  \<open>PostgresStore\<close> of \<open>common/db.py\<close> over the schema of \<open>migrations/\<close>. A table is the list of its rows,
  a statement a function on tables: \<open>UPDATE\<close> rewrites the rows that meet the condition and counts
  them, \<open>INSERT ... ON CONFLICT DO NOTHING\<close> draws the identity value first and then respects the
  partial unique index \<open>jobs_one_active_per_type\<close>. Each method runs one transaction, so it is one
  function from the database before to the database after; \<open>now()\<close> is the transaction's instant.

  The rows that \<open>FOR UPDATE SKIP LOCKED\<close> locks are unlocked again when \<open>fetch_unpublished\<close> returns,
  because its connection block ends there: the method reads the table and leaves no trace. It is the method on its own here; the rows it
  skips while another transaction holds them are in the step of the whole system.
  A \<open>SELECT\<close> without \<open>ORDER BY\<close> is read in table order; the contract only speaks of the set of rows.
\<close>

section \<open>Tables\<close>

record pg_job =
  pj_id :: int
  pj_job_type :: string
  pj_status :: job_status
  pj_input_payload :: payload
  pj_payload :: payload
  pj_attempts :: int
  pj_created_at :: time
  pj_updated_at :: time
  pj_created_by_sub :: "string option"
  pj_created_by_type :: "string option"
  pj_created_by_client :: "string option"

record pg_outbox_row =
  po_id :: int
  po_job_id :: int
  po_payload :: payload
  po_published_at :: "time option"

record pg_config_row =
  pc_job_type :: string
  pc_run_timeout :: interval
  pc_max_attempts :: int
  pc_payload :: payload

record pg_db =
  db_jobs :: "pg_job list"
  db_outbox :: "pg_outbox_row list"
  db_config :: "pg_config_row list"
  db_job_seq :: int
  db_outbox_seq :: int

section \<open>Statements\<close>

text \<open>\<open>UPDATE ... SET f WHERE cond\<close>: the row count and the new table.\<close>

definition sql_update :: "('r \<Rightarrow> bool) \<Rightarrow> ('r \<Rightarrow> 'r) \<Rightarrow> 'r list \<Rightarrow> nat \<times> 'r list" where
  "sql_update cond f rows = (length (filter cond rows), map (\<lambda>r. if cond r then f r else r) rows)"

definition config_row :: "string \<Rightarrow> pg_db \<Rightarrow> pg_config_row option" where
  "config_row jt db = find (\<lambda>c. pc_job_type c = jt) (db_config db)"

text \<open>A row of \<open>job_type_config\<close> with the defaults of its columns.\<close>

definition default_config_row :: "string \<Rightarrow> payload \<Rightarrow> pg_config_row" where
  "default_config_row jt p = \<lparr>pc_job_type = jt, pc_run_timeout = minutes 15, pc_max_attempts = 3, pc_payload = p\<rparr>"

text \<open>The schema after the migrations, with the demo rows that the second one seeds.\<close>

definition pg_migrated :: pg_db where
  "pg_migrated = \<lparr>db_jobs = [], db_outbox = [],
     db_config = [default_config_row ''hello'' (fmap_of_list [(''name'', JStr ''Ada'')]),
                  default_config_row ''boom'' fmempty],
     db_job_seq = 1, db_outbox_seq = 1\<rparr>"

section \<open>Operations\<close>

definition pg_DEFAULT_RUN_TIMEOUT :: interval where
  "pg_DEFAULT_RUN_TIMEOUT = minutes 15"

definition pg_DEFAULT_MAX_ATTEMPTS :: int where
  "pg_DEFAULT_MAX_ATTEMPTS = 3"

text \<open>
  The constructor's retry loop, from the \<open>i\<close>-th attempt on with \<open>n\<close> left: \<open>err i\<close> is the error the
  \<open>i\<close>-th attempt to open the pool raises, as text, or \<open>None\<close> when it succeeds. The result comes with the seconds
  slept, two after each failure; the error raised at the end quotes the last one (\<open>None\<close> when no attempt was made).
\<close>

fun connect_loop :: "(nat \<Rightarrow> string option) \<Rightarrow> string \<Rightarrow> nat \<Rightarrow> nat \<Rightarrow> nat \<Rightarrow> (exn + unit) \<times> nat" where
  "connect_loop err last_err slept i 0 =
     (Inl (RuntimeError (''could not connect to Postgres: '' @ last_err)), slept)"
| "connect_loop err last_err slept i (Suc n) = (case err i of
      None \<Rightarrow> (Inr (), slept)
    | Some e \<Rightarrow> connect_loop err e (slept + 2) (Suc i) n)"

definition connect_with_retry :: "(nat \<Rightarrow> string option) \<Rightarrow> nat \<Rightarrow> (exn + unit) \<times> nat" where
  "connect_with_retry err max_retries = connect_loop err ''None'' 0 0 max_retries"

text \<open>
  The connection pool that the constructor makes, closed at first, and opens: the outcome, the seconds slept and the pool.
\<close>

record pool =
  pl_url :: string
  pl_min_size :: int
  pl_max_size :: int
  pl_open :: bool

definition made_pool :: "string \<Rightarrow> bool \<Rightarrow> pool" where
  "made_pool url opened = \<lparr>pl_url = url, pl_min_size = 1, pl_max_size = 10, pl_open = opened\<rparr>"

definition pg_init :: "(nat \<Rightarrow> string option) \<Rightarrow> string \<Rightarrow> nat \<Rightarrow> (exn + unit) \<times> nat \<times> pool" where
  "pg_init err url max_retries =
     (let (r, slept) = connect_with_retry err max_retries in (r, slept, (made_pool url False)\<lparr>pl_open := \<not> isl r\<rparr>))"

definition pg_close :: "pool \<Rightarrow> pool" where
  "pg_close p = p\<lparr>pl_open := False\<rparr>"

lemma pg_init_cases:
  "fst (connect_with_retry err n) = Inl e \<Longrightarrow> \<exists>t. pg_init err url n = (Inl e, t, made_pool url False)"
  "fst (connect_with_retry err n) = Inr () \<Longrightarrow> \<exists>t. pg_init err url n = (Inr (), t, made_pool url True)"
  by (cases "connect_with_retry err n"; auto simp: pg_init_def made_pool_def)+

lemma pg_close_made [simp]: "pg_close (made_pool url b) = made_pool url False" "pl_open (made_pool url b) = b" "\<not> pl_open (pg_close p)"
  by (simp_all add: pg_close_def made_pool_def)

text \<open>A pool that a process has made and released, if it made one.\<close>

definition released :: "pool option \<Rightarrow> bool" where
  "released p \<longleftrightarrow> (\<forall>q. p = Some q \<longrightarrow> \<not> pl_open q)"

text \<open>
  The method for arguments that the database takes. A text or a \<open>jsonb\<close> value with a NUL character it does not take (\<open>pg_refuses\<close>): the
  transaction raises then and is rolled back.
\<close>

definition nul_text :: "string \<Rightarrow> bool" where
  "nul_text t \<longleftrightarrow> char_of (0 :: nat) \<in> set t"

primrec has_nul :: "json \<Rightarrow> bool" where
  "has_nul JNull = False"
| "has_nul (JBool b) = False"
| "has_nul (JInt i) = False"
| "has_nul (JFloat m e) = False"
| "has_nul (JStr t) = nul_text t"
| "has_nul (JArr vs) = list_ex id (map has_nul vs)"
| "has_nul (JObj p) = (fBex (fmdom p) nul_text \<or> fBex (fmran (fmmap has_nul p)) id)"

definition pg_refuses :: "string \<Rightarrow> payload \<Rightarrow> creator option \<Rightarrow> exn option" where
  "pg_refuses jt p c =
     (let creator_texts = (case c of None \<Rightarrow> [] | Some x \<Rightarrow> List.map_filter id [cr_sub x, cr_type x, cr_client_id x])
      in if has_nul (JObj p) \<or> list_ex nul_text (jt # creator_texts) then Some (DatabaseError ''NUL in a text'') else None)"

definition pg_enqueue ::
  "time \<Rightarrow> time \<Rightarrow> string \<Rightarrow> payload option \<Rightarrow> creator option \<Rightarrow> pg_db \<Rightarrow> int option \<times> pg_db" where
  [ops_defs]: "pg_enqueue now now' jt p c db =
     (let cr = (case c of None \<Rightarrow> no_creator | Some x \<Rightarrow> x);
          job_id = db_job_seq db;
          db1 = db\<lparr>db_job_seq := job_id + 1\<rparr> in
      if list_ex (\<lambda>r. pj_job_type r = jt \<and> pj_status r \<in> set ACTIVE) (db_jobs db1) then (None, db1)
      else
        let db2 = db1\<lparr>db_jobs := db_jobs db1 @ [\<lparr>pj_id = job_id, pj_job_type = jt, pj_status = QUEUED,
                    pj_input_payload = or_empty p, pj_payload = fmempty, pj_attempts = 0,
                    pj_created_at = now, pj_updated_at = now,
                    pj_created_by_sub = cr_sub cr, pj_created_by_type = cr_type cr,
                    pj_created_by_client = cr_client_id cr\<rparr>]\<rparr>
        in (Some job_id, db2\<lparr>
             db_outbox := db_outbox db2 @ [\<lparr>po_id = db_outbox_seq db2, po_job_id = job_id,
               po_payload = build_envelope job_id jt, po_published_at = None\<rparr>],
             db_outbox_seq := db_outbox_seq db2 + 1\<rparr>))"

definition pg_message :: "pg_outbox_row \<Rightarrow> outbox_message" where
  "pg_message r = \<lparr>om_id = po_id r, om_job_id = po_job_id r, om_payload = po_payload r\<rparr>"

definition pg_fetch_unpublished :: "int \<Rightarrow> pg_db \<Rightarrow> exn + outbox_message list" where
  [ops_defs]: "pg_fetch_unpublished limit db = (if limit < 0 then Inl (DatabaseError ''LIMIT must not be negative'')
     else Inr (map pg_message (take (nat limit)
       (sort_key po_id (filter (\<lambda>r. po_published_at r = None) (db_outbox db))))))"

definition pg_mark_dispatched :: "time \<Rightarrow> int \<Rightarrow> int \<Rightarrow> pg_db \<Rightarrow> pg_db" where
  [ops_defs]: "pg_mark_dispatched now outbox_id job_id db = db\<lparr>
     db_outbox := snd (sql_update (\<lambda>r. po_id r = outbox_id) (\<lambda>r. r\<lparr>po_published_at := Some now\<rparr>) (db_outbox db)),
     db_jobs := snd (sql_update (\<lambda>r. pj_id r = job_id \<and> pj_status r = QUEUED)
       (\<lambda>r. r\<lparr>pj_status := DISPATCHED, pj_updated_at := now\<rparr>) (db_jobs db))\<rparr>"

definition pg_guarded_update :: "(pg_job \<Rightarrow> bool) \<Rightarrow> (pg_job \<Rightarrow> pg_job) \<Rightarrow> pg_db \<Rightarrow> bool \<times> pg_db" where
  [ops_defs]: "pg_guarded_update cond f db =
     (let (rowcount, rows) = sql_update cond f (db_jobs db) in (rowcount = 1, db\<lparr>db_jobs := rows\<rparr>))"

definition pg_claim :: "time \<Rightarrow> int \<Rightarrow> pg_db \<Rightarrow> bool \<times> pg_db" where
  [ops_defs]: "pg_claim now job_id =
     pg_guarded_update (\<lambda>r. pj_id r = job_id \<and> pj_status r \<in> {QUEUED, DISPATCHED})
       (\<lambda>r. r\<lparr>pj_status := RUNNING, pj_updated_at := now\<rparr>)"

text \<open>Here the configuration is that of the type passed by the caller.\<close>

definition pg_resolve_payload :: "time \<Rightarrow> int \<Rightarrow> string \<Rightarrow> pg_db \<Rightarrow> payload option \<times> pg_db" where
  [ops_defs]: "pg_resolve_payload now job_id job_type db = (case config_row job_type db of
      None \<Rightarrow> (None, db)
    | Some c \<Rightarrow>
        let cond = (\<lambda>r. pj_id r = job_id \<and> pj_status r = RUNNING);
            upd = (\<lambda>r. r\<lparr>pj_payload := pc_payload c ++\<^sub>f pj_input_payload r, pj_updated_at := now\<rparr>);
            db' = db\<lparr>db_jobs := snd (sql_update cond upd (db_jobs db))\<rparr>
        in (map_option (\<lambda>r. pj_payload (upd r)) (find cond (db_jobs db)), db'))"

text \<open>The handler works on a dictionary decoded from the answer: its writes stay in the worker.\<close>

definition pg_handler_wrote :: "int \<Rightarrow> payload \<Rightarrow> pg_db \<Rightarrow> pg_db" where
  [ops_defs]: "pg_handler_wrote job_id p db = db"

definition pg_complete :: "time \<Rightarrow> int \<Rightarrow> pg_db \<Rightarrow> bool \<times> pg_db" where
  [ops_defs]: "pg_complete now job_id =
     pg_guarded_update (\<lambda>r. pj_id r = job_id \<and> pj_status r = RUNNING)
       (\<lambda>r. r\<lparr>pj_status := COMPLETED, pj_updated_at := now\<rparr>)"

definition pg_fail :: "time \<Rightarrow> int \<Rightarrow> pg_db \<Rightarrow> bool \<times> pg_db" where
  [ops_defs]: "pg_fail now job_id =
     pg_guarded_update (\<lambda>r. pj_id r = job_id \<and> pj_status r = RUNNING)
       (\<lambda>r. r\<lparr>pj_status := FAILED, pj_updated_at := now\<rparr>)"

definition pg_find_stuck :: "time \<Rightarrow> pg_db \<Rightarrow> stuck_job list" where
  [ops_defs]: "pg_find_stuck now db =
     map (\<lambda>r. \<lparr>sj_job_id = pj_id r, sj_job_type = pj_job_type r, sj_attempts = pj_attempts r\<rparr>)
       (filter (\<lambda>r. pj_status r = RUNNING \<and>
          pj_updated_at r < now - (case config_row (pj_job_type r) db of
             None \<Rightarrow> pg_DEFAULT_RUN_TIMEOUT | Some c \<Rightarrow> pc_run_timeout c)) (db_jobs db))"

definition pg_requeue_stuck :: "time \<Rightarrow> int \<Rightarrow> pg_db \<Rightarrow> bool \<times> pg_db" where
  [ops_defs]: "pg_requeue_stuck now job_id db =
     (let (rowcount, rows) = sql_update
        (\<lambda>r. pj_id r = job_id \<and> pj_status r = RUNNING \<and>
           pj_attempts r < (case config_row (pj_job_type r) db of
             None \<Rightarrow> pg_DEFAULT_MAX_ATTEMPTS | Some c \<Rightarrow> pc_max_attempts c))
        (\<lambda>r. r\<lparr>pj_status := QUEUED, pj_attempts := pj_attempts r + 1, pj_updated_at := now\<rparr>)
        (db_jobs db) in
      if rowcount \<noteq> 1 then (False, db\<lparr>db_jobs := rows\<rparr>)
      else (True, db\<lparr>db_jobs := rows,
        db_outbox := snd (sql_update (\<lambda>r. po_job_id r = job_id) (\<lambda>r. r\<lparr>po_published_at := None\<rparr>) (db_outbox db))\<rparr>))"

definition pg_dead_letter :: "time \<Rightarrow> int \<Rightarrow> pg_db \<Rightarrow> bool \<times> pg_db" where
  [ops_defs]: "pg_dead_letter now job_id =
     pg_guarded_update (\<lambda>r. pj_id r = job_id \<and> pj_status r = RUNNING)
       (\<lambda>r. r\<lparr>pj_status := FAILED, pj_updated_at := now\<rparr>)"

definition pg_to_job :: "pg_job \<Rightarrow> job" where
  "pg_to_job r = \<lparr>j_id = pj_id r, j_job_type = pj_job_type r, j_status = pj_status r,
     j_input_payload = pj_input_payload r, j_payload = pj_payload r, j_attempts = pj_attempts r,
     j_created_at = pj_created_at r, j_updated_at = pj_updated_at r,
     j_created_by = Some \<lparr>cr_sub = pj_created_by_sub r, cr_type = pj_created_by_type r,
       cr_client_id = pj_created_by_client r\<rparr>\<rparr>"

definition pg_get_job :: "int \<Rightarrow> pg_db \<Rightarrow> job option" where
  [ops_defs]: "pg_get_job job_id db = map_option pg_to_job (find (\<lambda>r. pj_id r = job_id) (db_jobs db))"

definition pg_ops :: "pg_db store_ops" where
  "pg_ops = \<lparr>op_enqueue = pg_enqueue, op_fetch_unpublished = pg_fetch_unpublished,
     op_mark_dispatched = pg_mark_dispatched, op_claim = pg_claim,
     op_resolve_payload = pg_resolve_payload, op_handler_wrote = pg_handler_wrote,
     op_complete = pg_complete, op_fail = pg_fail, op_find_stuck = pg_find_stuck,
     op_requeue_stuck = pg_requeue_stuck, op_dead_letter = pg_dead_letter,
     op_get_job = pg_get_job\<rparr>"

section \<open>Abstraction and constraints\<close>

definition pg_config_of :: "pg_config_row \<Rightarrow> type_config" where
  "pg_config_of c = \<lparr>tc_run_timeout = pc_run_timeout c, tc_max_attempts = pc_max_attempts c,
     tc_payload = pc_payload c\<rparr>"

definition pg_abs :: "pg_db \<Rightarrow> astate" where
  "pg_abs db = \<lparr>
     a_jobs = (\<lambda>j. map_option pg_to_job (find (\<lambda>r. pj_id r = j) (db_jobs db))),
     a_outbox = (\<lambda>k. map_option (\<lambda>r. (pg_message r, po_published_at r \<noteq> None))
                  (find (\<lambda>r. po_id r = k) (db_outbox db))),
     a_config = (\<lambda>jt. map_option pg_config_of (config_row jt db))\<rparr>"

text \<open>
  Primary keys, identity sequences, and the range of the \<open>INT\<close> columns \<open>attempts\<close> and
  \<open>max_attempts\<close>.
\<close>

definition int4 :: "int \<Rightarrow> bool" where
  "int4 x \<longleftrightarrow> - (2 ^ 31) \<le> x \<and> x < 2 ^ 31"

definition pg_rep :: "pg_db \<Rightarrow> bool" where
  "pg_rep db \<longleftrightarrow> distinct (map pj_id (db_jobs db)) \<and> (\<forall>r \<in> set (db_jobs db). pj_id r < db_job_seq db) \<and>
     distinct (map po_id (db_outbox db)) \<and> (\<forall>r \<in> set (db_outbox db). po_id r < db_outbox_seq db) \<and>
     (\<forall>r \<in> set (db_jobs db). int4 (pj_attempts r)) \<and> (\<forall>c \<in> set (db_config db). int4 (pc_max_attempts c))"

definition pg_inv :: "pg_db \<Rightarrow> bool" where
  "pg_inv db \<longleftrightarrow> pg_rep db \<and> a_wf (pg_abs db)"

section \<open>The retry loop\<close>

lemma connect_loop_ok:
  "err (i + k) = None \<Longrightarrow> (\<And>k'. k' < k \<Longrightarrow> err (i + k') \<noteq> None) \<Longrightarrow> k < n \<Longrightarrow>
   connect_loop err last_err slept i n = (Inr (), slept + 2 * k)"
proof (induction k arbitrary: i n last_err slept)
  case 0
  then show ?case by (cases n) auto
next
  case (Suc k)
  then obtain n' where n: "n = Suc n'" by (cases n) auto
  from Suc.prems(2) [of 0] obtain e where "err i = Some e" by auto
  moreover have "connect_loop err e (slept + 2) (Suc i) n' = (Inr (), slept + 2 + 2 * k)"
    by (rule Suc.IH) (use Suc.prems(1,3) Suc.prems(2) [of "Suc _"] n in auto)
  ultimately show ?case by (simp add: n)
qed

lemma connect_loop_error:
  "(\<And>k. k < n \<Longrightarrow> err (i + k) = Some (msg (i + k))) \<Longrightarrow>
   connect_loop err last_err slept i n = (Inl (RuntimeError (''could not connect to Postgres: '' @
     (if n = 0 then last_err else msg (i + n - 1)))), slept + 2 * n)"
proof (induction n arbitrary: i last_err slept)
  case (Suc n)
  from Suc.prems [of 0] have "err i = Some (msg i)" by simp
  moreover have "connect_loop err (msg i) (slept + 2) (Suc i) n =
    (Inl (RuntimeError (''could not connect to Postgres: '' @
       (if n = 0 then msg i else msg (Suc i + n - 1)))), slept + 2 + 2 * n)"
    by (rule Suc.IH) (use Suc.prems [of "Suc _"] in auto)
  ultimately show ?case by (cases n) simp_all
qed simp

section \<open>Lemmas on keyed rows\<close>

lemma find_keyed:
  assumes "distinct (map key rows)"
  shows "find (\<lambda>r. key r = k) rows = Some r \<longleftrightarrow> r \<in> set rows \<and> key r = k"
  using assms by (induction rows) auto

lemma find_update:
  assumes "\<And>r. key (f r) = key r"
  shows "find (\<lambda>r. key r = k) (snd (sql_update cond f rows)) =
     map_option (\<lambda>r. if cond r then f r else r) (find (\<lambda>r. key r = k) rows)"
  by (induction rows) (auto simp: sql_update_def assms)

lemma keys_update:
  "(\<And>r. key (f r) = key r) \<Longrightarrow> map key (snd (sql_update cond f rows)) = map key rows"
  by (simp add: sql_update_def)

lemma set_update:
  "r' \<in> set (snd (sql_update cond f rows)) \<Longrightarrow> \<exists>r \<in> set rows. r' = (if cond r then f r else r)"
  by (auto simp: sql_update_def)

text \<open>On a primary key, an update touches one row or none.\<close>

lemma rowcount_keyed:
  assumes "distinct (map key rows)"
  shows "fst (sql_update (\<lambda>r. key r = k \<and> P r) f rows) =
     (case find (\<lambda>r. key r = k) rows of None \<Rightarrow> 0 | Some r \<Rightarrow> if P r then 1 else 0)"
  using assms
proof (induction rows)
  case (Cons r rows)
  have "filter (\<lambda>r. key r = k \<and> P r) rows = []" if "key r = k"
  proof -
    from Cons.prems that have "k \<notin> key ` set rows" by auto
    then show ?thesis by (auto simp: filter_empty_conv)
  qed
  with Cons show ?case by (auto simp: sql_update_def)
qed (simp add: sql_update_def)

lemma find_snoc: "find P (xs @ [x]) = (case find P xs of None \<Rightarrow> if P x then Some x else None | Some y \<Rightarrow> Some y)"
  by (induction xs) auto

lemma find_guard:
  assumes "distinct (map key rows)"
  shows "find (\<lambda>r. key r = k \<and> P r) rows =
     (case find (\<lambda>r. key r = k) rows of None \<Rightarrow> None | Some r \<Rightarrow> if P r then Some r else None)"
  using assms
proof (induction rows)
  case (Cons r rows)
  have "find (\<lambda>r. key r = k \<and> P r) rows = None" if "key r = k"
  proof -
    from Cons.prems that have "k \<notin> key ` set rows" by auto
    then show ?thesis by (auto simp: find_None_iff)
  qed
  with Cons show ?case by auto
qed simp

lemma find_key: "find (\<lambda>r. key r = k) rows = Some r \<Longrightarrow> key r = k"
  by (auto simp: find_Some_iff)

lemma find_update_guard:
  assumes "\<And>r. key (f r) = key r"
  shows "find (\<lambda>r. key r = i) (snd (sql_update (\<lambda>r. key r = k \<and> P r) f rows)) =
     (if i = k then map_option (\<lambda>r. if P r then f r else r) (find (\<lambda>r. key r = i) rows)
      else find (\<lambda>r. key r = i) rows)"
  unfolding find_update [of key, OF assms]
  by (cases "find (\<lambda>r. key r = i) rows") (auto dest: find_key)

section \<open>The abstraction of a statement\<close>

lemma pg_abs_simps [simp]:
  "a_jobs (pg_abs db) j = map_option pg_to_job (find (\<lambda>r. pj_id r = j) (db_jobs db))"
  "a_outbox (pg_abs db) k = map_option (\<lambda>r. (pg_message r, po_published_at r \<noteq> None))
      (find (\<lambda>r. po_id r = k) (db_outbox db))"
  "a_config (pg_abs db) jt = map_option pg_config_of (config_row jt db)"
  by (simp_all add: pg_abs_def)

lemma config_row_frame [simp]:
  "config_row jt (db\<lparr>db_jobs := x\<rparr>) = config_row jt db"
  "config_row jt (db\<lparr>db_outbox := y\<rparr>) = config_row jt db"
  "config_row jt (db\<lparr>db_jobs := x, db_outbox := y\<rparr>) = config_row jt db"
  by (simp_all add: config_row_def)

lemma pg_to_job_simps [simp]:
  "j_id (pg_to_job r) = pj_id r" "j_job_type (pg_to_job r) = pj_job_type r"
  "j_status (pg_to_job r) = pj_status r" "j_attempts (pg_to_job r) = pj_attempts r"
  "j_input_payload (pg_to_job r) = pj_input_payload r" "j_payload (pg_to_job r) = pj_payload r"
  "j_updated_at (pg_to_job r) = pj_updated_at r" "j_created_at (pg_to_job r) = pj_created_at r"
  "with_creator (pg_to_job r) = pg_to_job r"
  by (simp_all add: pg_to_job_def with_creator_def)

lemma pg_to_job_upd [simp]:
  "pg_to_job (r\<lparr>pj_status := st, pj_updated_at := t\<rparr>) = (pg_to_job r)\<lparr>j_status := st, j_updated_at := t\<rparr>"
  "pg_to_job (r\<lparr>pj_payload := p, pj_updated_at := t\<rparr>) = (pg_to_job r)\<lparr>j_payload := p, j_updated_at := t\<rparr>"
  "pg_to_job (r\<lparr>pj_status := st, pj_attempts := n, pj_updated_at := t\<rparr>) =
     (pg_to_job r)\<lparr>j_status := st, j_attempts := n, j_updated_at := t\<rparr>"
  by (simp_all add: pg_to_job_def)

lemma pg_message_simps [simp]:
  "om_id (pg_message r) = po_id r" "om_job_id (pg_message r) = po_job_id r"
  "om_payload (pg_message r) = po_payload r"
  "pg_message (r\<lparr>po_published_at := t\<rparr>) = pg_message r"
  by (simp_all add: pg_message_def)

lemma astate_ext:
  "a_jobs a = a_jobs a' \<Longrightarrow> a_outbox a = a_outbox a' \<Longrightarrow> a_config a = a_config a' \<Longrightarrow> a = (a' :: astate)"
  by (cases a; cases a') simp

lemma pg_guarded_update_eq:
  "pg_guarded_update cond f db = (fst (sql_update cond f (db_jobs db)) = 1,
     db\<lparr>db_jobs := snd (sql_update cond f (db_jobs db))\<rparr>)"
  by (simp add: pg_guarded_update_def case_prod_unfold Let_def)

text \<open>A guarded update of the \<open>jobs\<close> table by primary key is the abstract compare-and-set.\<close>

lemma pg_guarded_abs:
  assumes rep: "pg_rep db" and key: "\<And>r. pj_id (f r) = pj_id r"
    and P: "\<And>r. P r = Q (pg_to_job r)" and f: "\<And>r. pg_to_job (f r) = g (pg_to_job r)"
  shows "apsnd pg_abs (pg_guarded_update (\<lambda>r. pj_id r = j \<and> P r) f db) = a_guarded j Q g (pg_abs db)"
proof -
  let ?rows = "snd (sql_update (\<lambda>r. pj_id r = j \<and> P r) f (db_jobs db))"
  have lookup: "find (\<lambda>r. pj_id r = i) ?rows = (if i = j then
      map_option (\<lambda>r. if P r then f r else r) (find (\<lambda>r. pj_id r = i) (db_jobs db))
      else find (\<lambda>r. pj_id r = i) (db_jobs db))" for i
    by (rule find_update_guard) (rule key)
  have "fst (pg_guarded_update (\<lambda>r. pj_id r = j \<and> P r) f db) = fst (a_guarded j Q g (pg_abs db))"
    using rep by (simp add: pg_guarded_update_eq rowcount_keyed [of pj_id] pg_rep_def
        a_guarded_def P [symmetric] split: option.split)
  moreover have "pg_abs (db\<lparr>db_jobs := ?rows\<rparr>) = snd (a_guarded j Q g (pg_abs db))"
  proof (rule astate_ext)
    show "a_jobs (pg_abs (db\<lparr>db_jobs := ?rows\<rparr>)) = a_jobs (snd (a_guarded j Q g (pg_abs db)))"
    proof
      fix i
      show "a_jobs (pg_abs (db\<lparr>db_jobs := ?rows\<rparr>)) i = a_jobs (snd (a_guarded j Q g (pg_abs db))) i"
        by (cases "i = j"; cases "find (\<lambda>r. pj_id r = j) (db_jobs db)")
          (simp_all add: lookup a_guarded_at f P [symmetric])
    qed
  qed (auto simp: fun_eq_iff)
  ultimately show ?thesis by (simp add: pg_guarded_update_eq prod_eq_iff)
qed

lemma pg_rep_jobs:
  assumes "pg_rep db" and "\<And>r. pj_id (f r) = pj_id r"
    and "\<And>r. r \<in> set (db_jobs db) \<Longrightarrow> cond r \<Longrightarrow> int4 (pj_attempts (f r))"
  shows "pg_rep (db\<lparr>db_jobs := snd (sql_update cond f (db_jobs db))\<rparr>)"
  using assms by (auto simp: pg_rep_def keys_update [of pj_id] dest!: set_update)

lemma pg_guarded_rep:
  assumes "pg_rep db" and "\<And>r. pj_id (f r) = pj_id r" and "\<And>r. pj_attempts (f r) = pj_attempts r"
  shows "pg_rep (snd (pg_guarded_update cond f db))"
proof -
  have "pg_rep (db\<lparr>db_jobs := snd (sql_update cond f (db_jobs db))\<rparr>)"
    by (rule pg_rep_jobs) (use assms in \<open>auto simp: pg_rep_def\<close>)
  then show ?thesis by (simp add: pg_guarded_update_eq)
qed

lemma pg_step:
  "pg_rep (snd r) \<Longrightarrow> apsnd pg_abs r = sp \<Longrightarrow> a_wf (snd sp) \<Longrightarrow>
     pg_inv (snd r) \<and> apsnd pg_abs r = sp"
  by (auto simp: pg_inv_def)

lemma pg_claim_step:
  assumes "pg_inv db"
  shows "pg_inv (snd (pg_claim now j db)) \<and> apsnd pg_abs (pg_claim now j db) = spec_claim now j (pg_abs db)"
proof (rule pg_step)
  from assms have rep: "pg_rep db" and wf: "a_wf (pg_abs db)" by (simp_all add: pg_inv_def)
  show "pg_rep (snd (pg_claim now j db))" unfolding pg_claim_def by (rule pg_guarded_rep [OF rep]) simp_all
  show "apsnd pg_abs (pg_claim now j db) = spec_claim now j (pg_abs db)"
    unfolding pg_claim_def spec_claim_def by (rule pg_guarded_abs [OF rep]) simp_all
  show "a_wf (snd (spec_claim now j (pg_abs db)))" by (rule spec_claim_wf [OF wf])
qed

lemma pg_finish_step:
  assumes "pg_inv db" "st \<in> set TERMINAL"
    and r_def: "r = pg_guarded_update (\<lambda>r. pj_id r = j \<and> pj_status r = RUNNING)
       (\<lambda>r. r\<lparr>pj_status := st, pj_updated_at := now\<rparr>) db"
  shows "pg_inv (snd r) \<and> apsnd pg_abs r = spec_finish st now j (pg_abs db)"
proof (rule pg_step)
  from assms have rep: "pg_rep db" and wf: "a_wf (pg_abs db)" by (simp_all add: pg_inv_def)
  show "pg_rep (snd r)" unfolding r_def by (rule pg_guarded_rep [OF rep]) simp_all
  show "apsnd pg_abs r = spec_finish st now j (pg_abs db)"
    unfolding r_def spec_finish_def by (rule pg_guarded_abs [OF rep]) simp_all
  show "a_wf (snd (spec_finish st now j (pg_abs db)))" by (rule spec_finish_wf [OF wf assms(2)])
qed

lemma pg_resolve_step:
  assumes inv: "pg_inv db" and b: "a_jobs (pg_abs db) j = Some b"
  shows "pg_inv (snd (pg_resolve_payload now j (j_job_type b) db)) \<and>
    apsnd pg_abs (pg_resolve_payload now j (j_job_type b) db) = spec_resolve now j (pg_abs db)"
proof (rule pg_step)
  from inv have rep: "pg_rep db" and wf: "a_wf (pg_abs db)" by (simp_all add: pg_inv_def)
  then have dist: "distinct (map pj_id (db_jobs db))" by (simp add: pg_rep_def)
  from b obtain r where r: "find (\<lambda>r. pj_id r = j) (db_jobs db) = Some r" "b = pg_to_job r" by auto
  show "a_wf (snd (spec_resolve now j (pg_abs db)))" by (rule spec_resolve_wf [OF wf])
  show "pg_rep (snd (pg_resolve_payload now j (j_job_type b) db))"
  proof (cases "config_row (j_job_type b) db")
    case (Some c)
    have "pg_rep (db\<lparr>db_jobs := snd (sql_update (\<lambda>r. pj_id r = j \<and> pj_status r = RUNNING)
        (\<lambda>r. r\<lparr>pj_payload := pc_payload c ++\<^sub>f pj_input_payload r, pj_updated_at := now\<rparr>) (db_jobs db))\<rparr>)"
      by (rule pg_rep_jobs [OF rep]) (use rep in \<open>simp_all add: pg_rep_def\<close>)
    with Some show ?thesis by (simp add: pg_resolve_payload_def Let_def)
  qed (simp add: pg_resolve_payload_def rep)
  show "apsnd pg_abs (pg_resolve_payload now j (j_job_type b) db) = spec_resolve now j (pg_abs db)"
  proof (cases "config_row (j_job_type b) db")
    case None
    with r show ?thesis by (simp add: pg_resolve_payload_def spec_resolve_def)
  next
    case (Some c)
    let ?f = "\<lambda>r. r\<lparr>pj_payload := pc_payload c ++\<^sub>f pj_input_payload r, pj_updated_at := now\<rparr>"
    let ?g = "\<lambda>b. b\<lparr>j_payload := pc_payload c ++\<^sub>f j_input_payload b, j_updated_at := now\<rparr>"
    have "apsnd pg_abs (pg_guarded_update (\<lambda>r. pj_id r = j \<and> pj_status r = RUNNING) ?f db) =
        a_guarded j (\<lambda>b. j_status b = RUNNING) ?g (pg_abs db)"
      by (rule pg_guarded_abs [OF rep]) simp_all
    then have "pg_abs (db\<lparr>db_jobs := snd (sql_update (\<lambda>r. pj_id r = j \<and> pj_status r = RUNNING) ?f (db_jobs db))\<rparr>) =
        snd (a_guarded j (\<lambda>b. j_status b = RUNNING) ?g (pg_abs db))"
      by (simp add: pg_guarded_update_eq prod_eq_iff)
    with r Some show ?thesis
      by (simp add: pg_resolve_payload_def spec_resolve_def find_guard [OF dist] Let_def
          a_guarded_Some [of _ _ "pg_to_job r"] pg_config_of_def)
  qed
qed

lemma pg_cap_of:
  "(case config_row jt db of None \<Rightarrow> pg_DEFAULT_MAX_ATTEMPTS | Some c \<Rightarrow> pc_max_attempts c) =
     max_attempts_of (a_config (pg_abs db)) jt"
  by (simp add: max_attempts_of_def pg_config_of_def pg_DEFAULT_MAX_ATTEMPTS_def DEFAULT_MAX_ATTEMPTS_def
      split: option.split)

lemma pg_timeout_of:
  "(case config_row jt db of None \<Rightarrow> pg_DEFAULT_RUN_TIMEOUT | Some c \<Rightarrow> pc_run_timeout c) =
     timeout_of (a_config (pg_abs db)) jt"
  by (simp add: timeout_of_def pg_config_of_def pg_DEFAULT_RUN_TIMEOUT_def DEFAULT_RUN_TIMEOUT_def
      split: option.split)

lemma pg_cap_int4: "pg_rep db \<Longrightarrow> int4 (max_attempts_of (a_config (pg_abs db)) jt)"
  by (auto simp: pg_rep_def max_attempts_of_def DEFAULT_MAX_ATTEMPTS_def pg_config_of_def int4_def
      config_row_def find_Some_iff split: option.splits)

lemma pg_rep_outbox:
  assumes "pg_rep db" and "\<And>r. po_id (f r) = po_id r"
  shows "pg_rep (db\<lparr>db_outbox := snd (sql_update cond f (db_outbox db))\<rparr>)"
  using assms by (auto simp: pg_rep_def keys_update [of po_id] dest!: set_update)

lemma pg_requeue_step:
  assumes inv: "pg_inv db"
  shows "pg_inv (snd (pg_requeue_stuck now j db)) \<and>
    apsnd pg_abs (pg_requeue_stuck now j db) = spec_requeue now j (pg_abs db)"
proof (rule pg_step)
  let ?cap = "\<lambda>r. max_attempts_of (a_config (pg_abs db)) (pj_job_type r)"
  let ?P = "\<lambda>r. pj_status r = RUNNING \<and> pj_attempts r < ?cap r"
  let ?f = "\<lambda>r. r\<lparr>pj_status := QUEUED, pj_attempts := pj_attempts r + 1, pj_updated_at := now\<rparr>"
  let ?jobs = "snd (sql_update (\<lambda>r. pj_id r = j \<and> ?P r) ?f (db_jobs db))"
  let ?out = "snd (sql_update (\<lambda>r. po_job_id r = j) (\<lambda>r. r\<lparr>po_published_at := None\<rparr>) (db_outbox db))"
  from inv have rep: "pg_rep db" and wf: "a_wf (pg_abs db)" by (simp_all add: pg_inv_def)
  have eq: "pg_requeue_stuck now j db =
      (if fst (sql_update (\<lambda>r. pj_id r = j \<and> ?P r) ?f (db_jobs db)) \<noteq> 1 then (False, db\<lparr>db_jobs := ?jobs\<rparr>)
       else (True, db\<lparr>db_jobs := ?jobs, db_outbox := ?out\<rparr>))"
    unfolding pg_requeue_stuck_def pg_cap_of by (simp add: case_prod_unfold Let_def)
  have count: "fst (sql_update (\<lambda>r. pj_id r = j \<and> ?P r) ?f (db_jobs db)) = 1 \<longleftrightarrow>
      (\<exists>r. find (\<lambda>r. pj_id r = j) (db_jobs db) = Some r \<and> ?P r)"
    using rep rowcount_keyed [of pj_id "db_jobs db" j ?P ?f] by (simp add: pg_rep_def split: option.split)
  have jobs: "find (\<lambda>r. pj_id r = i) ?jobs = (if i = j then
      map_option (\<lambda>r. if ?P r then ?f r else r) (find (\<lambda>r. pj_id r = i) (db_jobs db))
      else find (\<lambda>r. pj_id r = i) (db_jobs db))" for i
    by (rule find_update_guard) simp
  have out: "find (\<lambda>r. po_id r = k) ?out =
      map_option (\<lambda>r. if po_job_id r = j then r\<lparr>po_published_at := None\<rparr> else r)
        (find (\<lambda>r. po_id r = k) (db_outbox db))" for k
    by (rule find_update) simp
  have bump: "int4 (pj_attempts r + 1)" if "r \<in> set (db_jobs db)" "?P r" for r
    using that rep pg_cap_int4 [OF rep, of "pj_job_type r"] by (auto simp: pg_rep_def int4_def)
  have rep1: "pg_rep (db\<lparr>db_jobs := ?jobs\<rparr>)" by (rule pg_rep_jobs [OF rep]) (use bump in auto)
  have "pg_rep (db\<lparr>db_jobs := ?jobs, db_outbox := ?out\<rparr>)"
    using pg_rep_outbox [OF rep1, of "\<lambda>r. r\<lparr>po_published_at := None\<rparr>"] by simp
  with rep1 show "pg_rep (snd (pg_requeue_stuck now j db))" by (simp add: eq)
  show "a_wf (snd (spec_requeue now j (pg_abs db)))" by (rule spec_requeue_wf [OF wf])
  show "apsnd pg_abs (pg_requeue_stuck now j db) = spec_requeue now j (pg_abs db)"
  proof (cases "\<exists>r. find (\<lambda>r. pj_id r = j) (db_jobs db) = Some r \<and> ?P r")
    case True
    then obtain r where r: "find (\<lambda>r. pj_id r = j) (db_jobs db) = Some r" "?P r" by blast
    have "pg_abs (db\<lparr>db_jobs := ?jobs, db_outbox := ?out\<rparr>) = (pg_abs db)\<lparr>
        a_jobs := (a_jobs (pg_abs db))(j \<mapsto> pg_to_job (?f r)), a_outbox := a_rearm j (a_outbox (pg_abs db))\<rparr>"
      by (rule astate_ext) (use r in \<open>auto simp: fun_eq_iff jobs out a_rearm_def map_option_case split: option.split\<close>)
    with r True count show ?thesis by (simp add: eq spec_requeue_def)
  next
    case False
    have "pg_abs (db\<lparr>db_jobs := ?jobs\<rparr>) = pg_abs db"
      by (rule astate_ext) (use False in \<open>auto simp: fun_eq_iff jobs map_option_case split: option.split\<close>)
    with False count show ?thesis by (auto simp: eq spec_requeue_def split: option.split)
  qed
qed

lemma pg_mark_step:
  assumes inv: "pg_inv db" and k: "a_outbox (pg_abs db) k = Some (m, q)"
  shows "pg_inv (pg_mark_dispatched now k (om_job_id m) db) \<and>
    pg_abs (pg_mark_dispatched now k (om_job_id m) db) = spec_mark now k (om_job_id m) (pg_abs db)"
proof -
  let ?j = "om_job_id m"
  let ?f = "\<lambda>r. r\<lparr>pj_status := DISPATCHED, pj_updated_at := now\<rparr>"
  let ?jobs = "snd (sql_update (\<lambda>r. pj_id r = ?j \<and> pj_status r = QUEUED) ?f (db_jobs db))"
  let ?out = "snd (sql_update (\<lambda>r. po_id r = k) (\<lambda>r. r\<lparr>po_published_at := Some now\<rparr>) (db_outbox db))"
  from inv have rep: "pg_rep db" and wf: "a_wf (pg_abs db)" by (simp_all add: pg_inv_def)
  have jobs: "find (\<lambda>r. pj_id r = i) ?jobs = (if i = ?j then
      map_option (\<lambda>r. if pj_status r = QUEUED then ?f r else r) (find (\<lambda>r. pj_id r = i) (db_jobs db))
      else find (\<lambda>r. pj_id r = i) (db_jobs db))" for i
    by (rule find_update_guard) simp
  have out: "find (\<lambda>r. po_id r = i) ?out =
      map_option (\<lambda>r. if po_id r = k then r\<lparr>po_published_at := Some now\<rparr> else r)
        (find (\<lambda>r. po_id r = i) (db_outbox db))" for i
    by (rule find_update) simp
  have rep1: "pg_rep (db\<lparr>db_jobs := ?jobs\<rparr>)" by (rule pg_rep_jobs [OF rep]) (use rep in \<open>auto simp: pg_rep_def\<close>)
  have "pg_rep (db\<lparr>db_jobs := ?jobs, db_outbox := ?out\<rparr>)"
    using pg_rep_outbox [OF rep1, of "\<lambda>r. r\<lparr>po_published_at := Some now\<rparr>"] by simp
  moreover have abs: "pg_abs (db\<lparr>db_jobs := ?jobs, db_outbox := ?out\<rparr>) = spec_mark now k ?j (pg_abs db)"
  proof (rule astate_ext)
    show "a_jobs (pg_abs (db\<lparr>db_jobs := ?jobs, db_outbox := ?out\<rparr>)) = a_jobs (spec_mark now k ?j (pg_abs db))"
    proof
      fix i
      show "a_jobs (pg_abs (db\<lparr>db_jobs := ?jobs, db_outbox := ?out\<rparr>)) i = a_jobs (spec_mark now k ?j (pg_abs db)) i"
        by (cases "i = ?j"; cases "find (\<lambda>r. pj_id r = i) (db_jobs db)")
          (simp_all add: spec_mark_def jobs a_guarded_at)
    qed
    show "a_outbox (pg_abs (db\<lparr>db_jobs := ?jobs, db_outbox := ?out\<rparr>)) = a_outbox (spec_mark now k ?j (pg_abs db))"
    proof
      fix i
      show "a_outbox (pg_abs (db\<lparr>db_jobs := ?jobs, db_outbox := ?out\<rparr>)) i = a_outbox (spec_mark now k ?j (pg_abs db)) i"
        using find_key [of po_id i "db_outbox db"]
        by (cases "find (\<lambda>r. po_id r = i) (db_outbox db)") (auto simp: spec_mark_def out)
    qed
  qed (auto simp: spec_mark_def fun_eq_iff)
  moreover have "a_wf (spec_mark now k ?j (pg_abs db))" by (rule spec_mark_wf [OF wf k refl])
  moreover have "pg_mark_dispatched now k ?j db = db\<lparr>db_jobs := ?jobs, db_outbox := ?out\<rparr>"
    by (simp add: pg_mark_dispatched_def)
  ultimately show ?thesis by (simp add: pg_inv_def)
qed

lemma pg_active_abs:
  assumes "pg_rep db"
  shows "list_ex (\<lambda>r. pj_job_type r = jt \<and> pj_status r \<in> set ACTIVE) (db_jobs db) \<longleftrightarrow> a_active (pg_abs db) jt"
proof -
  have "r \<in> set (db_jobs db) \<longleftrightarrow> find (\<lambda>x. pj_id x = pj_id r) (db_jobs db) = Some r" for r
    using assms by (auto simp: pg_rep_def find_keyed [of pj_id])
  then have "list_ex (\<lambda>r. pj_job_type r = jt \<and> pj_status r \<in> set ACTIVE) (db_jobs db) \<longleftrightarrow>
     (\<exists>j r. find (\<lambda>x. pj_id x = j) (db_jobs db) = Some r \<and> pj_job_type r = jt \<and> pj_status r \<in> set ACTIVE)"
    unfolding list_ex_iff by (metis find_key)
  then show ?thesis by (force simp: a_active_def)
qed

lemma pg_enqueue_dup_step:
  assumes "pg_inv db" "a_active (pg_abs db) jt"
  shows "\<exists>db'. pg_enqueue t u jt p c db = (None, db') \<and> pg_inv db' \<and> pg_abs db' = pg_abs db"
proof -
  let ?db = "db\<lparr>db_job_seq := db_job_seq db + 1\<rparr>"
  have abs: "pg_abs ?db = pg_abs db" by (simp add: pg_abs_def config_row_def)
  have "pg_inv ?db" using assms(1) abs by (auto simp: pg_inv_def pg_rep_def)
  with assms abs show ?thesis by (auto simp: pg_enqueue_def Let_def pg_active_abs pg_inv_def)
qed

lemma pg_enqueue_new_step:
  assumes inv: "pg_inv db" and free: "\<not> a_active (pg_abs db) jt"
  shows "\<exists>db'. pg_enqueue t u jt p c db = (Some (db_job_seq db), db') \<and> pg_inv db' \<and>
    a_jobs (pg_abs db) (db_job_seq db) = None \<and> (\<forall>k \<in> dom (a_outbox (pg_abs db)). k < db_outbox_seq db) \<and>
    pg_abs db' = spec_enqueue (db_job_seq db) (db_outbox_seq db) t t jt p c (pg_abs db)"
proof -
  from inv have rep: "pg_rep db" and wf: "a_wf (pg_abs db)" by (simp_all add: pg_inv_def)
  let ?db = "snd (pg_enqueue t u jt p c db)"
  have res: "pg_enqueue t u jt p c db = (Some (db_job_seq db), ?db)"
    using free pg_active_abs [OF rep, of jt] by (simp add: pg_enqueue_def Let_def)
  have new: "find (\<lambda>r. pj_id r = db_job_seq db) (db_jobs db) = None"
    "find (\<lambda>r. po_id r = db_outbox_seq db) (db_outbox db) = None"
    using rep by (auto simp: find_None_iff pg_rep_def)
  have abs: "pg_abs ?db = spec_enqueue (db_job_seq db) (db_outbox_seq db) t t jt p c (pg_abs db)"
  proof (rule astate_ext)
    show "a_jobs (pg_abs ?db) = a_jobs (spec_enqueue (db_job_seq db) (db_outbox_seq db) t t jt p c (pg_abs db))"
      using free pg_active_abs [OF rep, of jt] new(1)
      by (auto simp: fun_eq_iff pg_enqueue_def spec_enqueue_def Let_def find_snoc pg_to_job_def
          with_creator_def new_job_def split: option.split)
    show "a_outbox (pg_abs ?db) = a_outbox (spec_enqueue (db_job_seq db) (db_outbox_seq db) t t jt p c (pg_abs db))"
      using free pg_active_abs [OF rep, of jt] new(2)
      by (auto simp: fun_eq_iff pg_enqueue_def spec_enqueue_def Let_def find_snoc pg_message_def
          new_message_def split: option.split)
  qed (auto simp: fun_eq_iff pg_enqueue_def spec_enqueue_def Let_def config_row_def)
  have "pg_rep ?db"
    using rep free pg_active_abs [OF rep, of jt] by (auto simp: pg_enqueue_def Let_def pg_rep_def int4_def)
  moreover have "a_wf (pg_abs ?db)"
    unfolding abs by (rule spec_enqueue_wf [OF wf free]) (use new in simp_all)
  moreover have "\<forall>k \<in> dom (a_outbox (pg_abs db)). k < db_outbox_seq db"
    using rep by (auto simp: pg_rep_def find_Some_iff)
  ultimately show ?thesis using res abs new(1) by (auto simp: pg_inv_def)
qed

lemma pg_fetch_pending:
  assumes "pg_rep db"
  shows "map pg_message (sort_key po_id (filter (\<lambda>r. po_published_at r = None) (db_outbox db))) =
    a_pending (pg_abs db)"
proof -
  let ?rows = "sort_key po_id (filter (\<lambda>r. po_published_at r = None) (db_outbox db))"
  have dist: "distinct (map po_id (db_outbox db))" using assms by (simp add: pg_rep_def)
  note lk = find_keyed [OF dist]
  have "distinct (map po_id (filter (\<lambda>r. po_published_at r = None) (db_outbox db)))"
    using dist by (rule distinct_map_filter)
  then have "distinct (map po_id ?rows)" by (simp add: distinct_map inj_on_def)
  moreover have "sorted (map po_id ?rows)" by simp
  moreover have "a_unpublished (pg_abs db) = set (map po_id ?rows)"
    by (auto simp: a_unpublished_def lk)
  ultimately have "sorted_list_of_set (a_unpublished (pg_abs db)) = map po_id ?rows"
    by (metis sorted_list_of_set.idem_if_sorted_distinct)
  moreover have "a_message (pg_abs db) (po_id r) = pg_message r" if "r \<in> set ?rows" for r
  proof -
    from that have "find (\<lambda>x. po_id x = po_id r) (db_outbox db) = Some r" by (simp add: lk)
    then show ?thesis by (simp add: a_message_def)
  qed
  ultimately show ?thesis by (auto simp: a_pending_def)
qed

lemma pg_find_stuck_abs:
  assumes "pg_rep db"
  shows "distinct (map sj_job_id (pg_find_stuck now db)) \<and>
    set (map sj_job_id (pg_find_stuck now db)) = a_stuck now (pg_abs db)"
proof -
  let ?P = "\<lambda>r. pj_status r = RUNNING \<and> pj_updated_at r < now - timeout_of (a_config (pg_abs db)) (pj_job_type r)"
  have dist: "distinct (map pj_id (db_jobs db))" using assms by (simp add: pg_rep_def)
  have ids: "map sj_job_id (pg_find_stuck now db) = map pj_id (filter ?P (db_jobs db))"
    unfolding pg_find_stuck_def pg_timeout_of by simp
  have "distinct (map pj_id (filter ?P (db_jobs db)))" using dist by (rule distinct_map_filter)
  moreover have "pj_id ` {r \<in> set (db_jobs db). ?P r} = a_stuck now (pg_abs db)"
  proof (intro set_eqI iffI)
    fix j
    assume "j \<in> pj_id ` {r \<in> set (db_jobs db). ?P r}"
    then obtain r where "find (\<lambda>x. pj_id x = j) (db_jobs db) = Some r" "?P r"
      using find_keyed [OF dist] by auto
    then show "j \<in> a_stuck now (pg_abs db)" by (auto simp: a_stuck_def)
  next
    fix j
    assume "j \<in> a_stuck now (pg_abs db)"
    then obtain r where "find (\<lambda>x. pj_id x = j) (db_jobs db) = Some r" "?P r" by (auto simp: a_stuck_def)
    then show "j \<in> pj_id ` {r \<in> set (db_jobs db). ?P r}" using find_keyed [OF dist] by auto
  qed
  ultimately show ?thesis by (simp add: ids)
qed

lemma pg_inv_migrated: "pg_inv pg_migrated"
  by (simp add: pg_inv_def pg_rep_def pg_migrated_def pg_abs_def a_wf_def rows_ok_def outbox_ok_def
      covered_def one_active_def armed_def dom_def default_config_row_def int4_def)

section \<open>The Postgres store meets the contract\<close>

interpretation pg: job_store pg_ops pg_abs pg_inv
proof (unfold_locales, goal_cases)
  case 1
  then show ?case by (simp add: pg_inv_def)
next
  case 2
  then show ?case using pg_enqueue_dup_step by (simp add: pg_ops_def)
next
  case (3 s jt t u p c)
  then show ?case using pg_enqueue_new_step [of s jt t u p c] by (auto simp: pg_ops_def)
next
  case 4
  then show ?case
    by (simp add: pg_ops_def pg_fetch_unpublished_def pg_inv_def take_map flip: pg_fetch_pending)
next
  case 5
  then show ?case using pg_mark_step by (simp add: pg_ops_def)
next
  case 6
  then show ?case using pg_claim_step by (simp add: pg_ops_def)
next
  case 7
  then show ?case using pg_resolve_step by (simp add: pg_ops_def)
next
  case 8
  then show ?case by (simp add: pg_ops_def pg_handler_wrote_def)
next
  case (9 s now j)
  then show ?case using pg_finish_step [of s COMPLETED] by (simp add: pg_ops_def pg_complete_def)
next
  case (10 s now j)
  then show ?case using pg_finish_step [of s FAILED] by (simp add: pg_ops_def pg_fail_def)
next
  case 11
  then show ?case using pg_find_stuck_abs by (simp add: pg_ops_def pg_inv_def)
next
  case 12
  then show ?case using pg_requeue_step by (simp add: pg_ops_def)
next
  case (13 s now j)
  then show ?case using pg_finish_step [of s FAILED] by (simp add: pg_ops_def pg_dead_letter_def)
next
  case 14
  then show ?case by (simp add: pg_ops_def pg_get_job_def option.map_comp o_def)
qed

section \<open>Properties\<close>

lemma pg_get_job_abs: "pg_get_job j db = a_jobs (pg_abs db) j"
  by (simp add: pg_get_job_def)

lemma pg_inv_enqueue:
  assumes "pg_inv db"
  shows "pg_inv (snd (pg_enqueue t u jt p c db))"
  using pg.enqueue_dup [OF assms, of jt t u p c] pg.enqueue_new [OF assms, of jt t u p c]
  by (cases "a_active (pg_abs db) jt") (auto simp: pg_ops_def)

definition demo_db :: pg_db where
  "demo_db = snd (pg_enqueue 0 0 ''hello'' (Some (fmap_of_list [(''name'', JStr ''Bob'')])) None pg_migrated)"

lemma pg_inv_demo: "pg_inv demo_db"
  unfolding demo_db_def by (rule pg_inv_enqueue [OF pg_inv_migrated])

text \<open>
  C7. The Postgres store meets the contract: the schema as the migrations leave it satisfies the
  invariant (primary keys, at most one active job per type, exactly one outbox row per job, an
  unpublished one for every queued job), and every method keeps the invariant and computes its
  abstract operation, with its result, on the tables.
\<close>

theorem pg_store_contract: "pg_inv pg_migrated \<and> job_store pg_ops pg_abs pg_inv"
  using pg_inv_migrated pg.job_store_axioms by simp

text \<open>
  C12. A claim is exclusive: when it succeeds, the row was queued or dispatched and is now running, every other row
  is as it was, and any further claim of the job fails.
\<close>

theorem pg_claim_exclusive:
  assumes "pg_inv db" "pg_claim t j db = (True, db1)"
  shows "\<exists>b. pg_get_job j db = Some b \<and> j_status b \<in> {QUEUED, DISPATCHED} \<and>
    pg_get_job j db1 = Some (b\<lparr>j_status := RUNNING, j_updated_at := t\<rparr>) \<and>
    (\<forall>i. i \<noteq> j \<longrightarrow> pg_get_job i db1 = pg_get_job i db) \<and> \<not> fst (pg_claim t' j db1)"
proof -
  from pg.claim [OF assms(1), of t j] assms(2) have inv: "pg_inv db1"
    and law: "(True, pg_abs db1) = spec_claim t j (pg_abs db)" by (simp_all add: pg_ops_def)
  from law obtain b where b: "a_jobs (pg_abs db) j = Some b" "j_status b \<in> {QUEUED, DISPATCHED}"
    by (metis a_guarded_fst fst_conv spec_claim_def)
  with law have db1: "pg_abs db1 =
      (pg_abs db)\<lparr>a_jobs := (a_jobs (pg_abs db))(j \<mapsto> b\<lparr>j_status := RUNNING, j_updated_at := t\<rparr>)\<rparr>"
    by (simp add: spec_claim_def a_guarded_Some)
  have "fst (pg_claim t' j db1) = fst (spec_claim t' j (pg_abs db1))"
    using pg.claim [OF inv, of t' j] by (simp add: pg_ops_def prod_eq_iff)
  also have "\<not> \<dots>" by (simp add: db1 spec_claim_def a_guarded_def)
  finally show ?thesis using b unfolding pg_get_job_abs db1 by (intro exI [of _ b]) simp
qed

theorem pg_claim_exclusive_witness:
  "fst (pg_claim 5 1 demo_db) \<and> \<not> fst (pg_claim 6 1 (snd (pg_claim 5 1 demo_db)))"
proof -
  have won: "fst (pg_claim 5 1 demo_db)" by code_simp
  then have "pg_claim 5 1 demo_db = (True, snd (pg_claim 5 1 demo_db))" by (simp add: prod_eq_iff)
  from pg_claim_exclusive [OF pg_inv_demo this, of 6] won show ?thesis by blast
qed

text \<open>
  C19. The 32-bit columns never overflow: whatever the row and the configured cap, the attempts
  that \<open>requeue_stuck\<close> writes stay within an \<open>INT\<close> column.
\<close>

theorem pg_attempts_in_range:
  assumes "pg_inv db" "r \<in> set (db_jobs (snd (pg_requeue_stuck t j db)))"
  shows "- (2 ^ 31) \<le> pj_attempts r \<and> pj_attempts r < 2 ^ 31"
  using pg.requeue [OF assms(1), of t j] assms(2) by (simp add: pg_ops_def pg_inv_def pg_rep_def int4_def)

theorem pg_attempts_in_range_witness:
  "\<exists>r \<in> set (db_jobs (snd (pg_requeue_stuck 9 1 (snd (pg_claim 5 1 demo_db))))).
     pj_attempts r = 1 \<and> pj_attempts r < 2 ^ 31"
proof -
  have inv: "pg_inv (snd (pg_claim 5 1 demo_db))" using pg.claim [OF pg_inv_demo, of 5 1] by (simp add: pg_ops_def)
  have "\<exists>r \<in> set (db_jobs (snd (pg_requeue_stuck 9 1 (snd (pg_claim 5 1 demo_db))))). pj_attempts r = 1"
    by code_simp
  with pg_attempts_in_range [OF inv, of _ 9 1] show ?thesis by blast
qed

text \<open>
  C20. The constructor's retry loop: it returns at the first attempt that succeeds, after sleeping two seconds for each
  failure before it; when all attempts fail it raises, quoting the last error. The outcomes of the attempts are arbitrary: whether a pool can
  still be opened after a failed attempt is the library's affair.
\<close>

theorem connect_with_retry_outcome:
  "(k < n \<and> err k = None \<and> (\<forall>i < k. err i \<noteq> None) \<longrightarrow> connect_with_retry err n = (Inr (), 2 * k)) \<and>
   ((\<forall>i < n. err i = Some (msg i)) \<longrightarrow> connect_with_retry err n =
      (Inl (RuntimeError (''could not connect to Postgres: '' @ (if n = 0 then ''None'' else msg (n - 1)))), 2 * n))"
  using connect_loop_ok [of err 0 k n "''None''" 0] connect_loop_error [of n err 0 msg "''None''" 0]
  by (auto simp: connect_with_retry_def)

theorem connect_with_retry_outcome_witness:
  "connect_with_retry (\<lambda>i. if i < 2 then Some ''refused'' else None) 30 = (Inr (), 4)"
  using connect_with_retry_outcome [of 2 30 "\<lambda>i. if i < 2 then Some ''refused'' else None"] by simp

text \<open>
  What is enqueued is what is read back: the fresh job's row has exactly the given type, overrides and
  creator, is queued with no attempts and an empty payload, and every other row is as it was.
\<close>

lemma pg_enqueue_get_job:
  assumes "pg_inv db" "pg_enqueue t u jt p c db = (Some jid, db')"
  shows "pg_get_job jid db = None \<and> pg_get_job jid db' = Some \<lparr>j_id = jid, j_job_type = jt, j_status = QUEUED,
      j_input_payload = or_empty p, j_payload = fmempty, j_attempts = 0, j_created_at = t, j_updated_at = t,
      j_created_by = Some (case c of None \<Rightarrow> no_creator | Some cr \<Rightarrow> cr)\<rparr> \<and>
    (\<forall>i. i \<noteq> jid \<longrightarrow> pg_get_job i db' = pg_get_job i db)"
proof -
  have "\<not> a_active (pg_abs db) jt"
    using pg.enqueue_dup [OF assms(1), of jt t u p c] assms(2) by (auto simp: pg_ops_def)
  from pg.enqueue_new [OF assms(1) this, of t u p c] assms(2) have "pg_get_job jid db = None"
    by (auto simp: pg_ops_def pg_get_job_def)
  moreover from this assms(2) have "pg_get_job i db' = (if i = jid then Some \<lparr>j_id = jid, j_job_type = jt,
      j_status = QUEUED, j_input_payload = or_empty p, j_payload = fmempty, j_attempts = 0, j_created_at = t,
      j_updated_at = t, j_created_by = Some (case c of None \<Rightarrow> no_creator | Some cr \<Rightarrow> cr)\<rparr>
      else pg_get_job i db)" for i
    by (auto simp: pg_enqueue_def pg_get_job_def Let_def find_snoc pg_to_job_def split: if_splits option.split)
  ultimately show ?thesis by simp
qed

end
