(* ===== verification/Py_Strings.thy ===== *)
theory Py_Strings
  imports Prelude
begin

text \<open>
  The string methods of Python that the HTTP services and the configuration call: \<open>strip\<close>, \<open>rstrip\<close>,
  \<open>lower\<close>, \<open>partition\<close>, the two forms of \<open>split\<close>, and the reading of an integer. Strings are sequences of 8-bit
  characters, as header values are (Latin-1).
\<close>

section \<open>Definitions\<close>

text \<open>The characters below 256 for which \<open>str.isspace\<close> holds.\<close>

definition py_space :: "char \<Rightarrow> bool" where
  "py_space c = (let n = of_char c :: nat in 9 \<le> n \<and> n \<le> 13 \<or> 28 \<le> n \<and> n \<le> 32 \<or> n = 133 \<or> n = 160)"

definition py_strip :: "string \<Rightarrow> string" where
  "py_strip s = rev (dropWhile py_space (rev (dropWhile py_space s)))"

definition py_rstrip :: "char \<Rightarrow> string \<Rightarrow> string" where
  "py_rstrip c s = rev (dropWhile (\<lambda>x. x = c) (rev s))"

definition lower_char :: "char \<Rightarrow> char" where
  "lower_char c = (let n = of_char c :: nat in
     if 65 \<le> n \<and> n \<le> 90 \<or> 192 \<le> n \<and> n \<le> 222 \<and> n \<noteq> 215 then char_of (n + 32) else c)"

definition py_lower :: "string \<Rightarrow> string" where
  "py_lower = map lower_char"

text \<open>\<open>s.partition(c)\<close> without the separator itself.\<close>

definition py_partition :: "char \<Rightarrow> string \<Rightarrow> string \<times> string" where
  "py_partition c s = (takeWhile (\<lambda>x. x \<noteq> c) s, drop 1 (dropWhile (\<lambda>x. x \<noteq> c) s))"

text \<open>\<open>s.split()\<close>: the maximal runs of characters that are no white space; the first argument is the run read so far.\<close>

fun words_from :: "string \<Rightarrow> string \<Rightarrow> string list" where
  "words_from w [] = (if w = [] then [] else [w])"
| "words_from w (c # cs) = (if py_space c then (if w = [] then [] else [w]) @ words_from [] cs
     else words_from (w @ [c]) cs)"

definition py_split :: "string \<Rightarrow> string list" where
  "py_split = words_from []"

text \<open>\<open>s.split(c)\<close>: always at least one piece.\<close>

fun pieces_from :: "char \<Rightarrow> string \<Rightarrow> string \<Rightarrow> string list" where
  "pieces_from sep w [] = [w]"
| "pieces_from sep w (c # cs) = (if c = sep then w # pieces_from sep [] cs else pieces_from sep (w @ [c]) cs)"

definition py_split_on :: "char \<Rightarrow> string \<Rightarrow> string list" where
  "py_split_on sep = pieces_from sep []"

text \<open>\<open>int(s)\<close> in base ten: white space around, a sign, digits with single underscores between them.\<close>

definition is_digit :: "char \<Rightarrow> bool" where
  "is_digit c = (let n = of_char c :: nat in 48 \<le> n \<and> n \<le> 57)"

fun digits_ok :: "bool \<Rightarrow> string \<Rightarrow> bool" where
  "digits_ok after_digit [] = after_digit"
| "digits_ok after_digit (c # cs) =
     (if is_digit c then digits_ok True cs else after_digit \<and> c = CHR ''_'' \<and> digits_ok False cs)"

definition read_digits :: "string \<Rightarrow> exn + nat" where
  "read_digits ds = (if digits_ok False ds then Inr (read_nat (filter is_digit ds)) else Inl ValueError)"

definition py_int :: "string \<Rightarrow> exn + int" where
  "py_int s = (let t = py_strip s in
     if take 1 t = ''-'' then map_sum id (\<lambda>n. - int n) (read_digits (drop 1 t))
     else if take 1 t = ''+'' then map_sum id int (read_digits (drop 1 t))
     else map_sum id int (read_digits t))"

section \<open>Laws\<close>

lemma py_strip_ends:
  "py_strip s \<noteq> [] \<Longrightarrow> \<not> py_space (hd (py_strip s)) \<and> \<not> py_space (last (py_strip s))"
proof -
  assume ne: "py_strip s \<noteq> []"
  let ?t = "rev (dropWhile py_space s)"
  have last: "\<not> py_space (last (py_strip s))"
    using ne hd_dropWhile [of py_space ?t] by (simp add: py_strip_def last_rev)
  have "?t = takeWhile py_space ?t @ dropWhile py_space ?t" by simp
  then have "dropWhile py_space s = py_strip s @ rev (takeWhile py_space ?t)"
    unfolding py_strip_def by (metis rev_append rev_rev_ident)
  then have "hd (dropWhile py_space s) = hd (py_strip s)" "dropWhile py_space s \<noteq> []"
    using ne by (metis hd_append2, metis Nil_is_append_conv)
  then have "\<not> py_space (hd (py_strip s))" by (metis hd_dropWhile)
  with last show ?thesis by simp
qed

lemma dropWhile_none: "\<forall>x \<in> set xs. \<not> P x \<Longrightarrow> dropWhile P xs = xs"
  by (cases xs) auto

lemma py_strip_id: "\<forall>c \<in> set s. \<not> py_space c \<Longrightarrow> py_strip s = s"
  by (simp add: py_strip_def dropWhile_none)

lemma py_strip_set: "set (py_strip s) \<subseteq> set s"
  unfolding py_strip_def by (metis set_dropWhileD set_rev subsetI)

lemma words_from_words:
  "\<forall>c \<in> set w. \<not> py_space c \<Longrightarrow> w' \<in> set (words_from w s) \<Longrightarrow> w' \<noteq> [] \<and> (\<forall>c \<in> set w'. \<not> py_space c)"
proof (induction s arbitrary: w)
  case (Cons c cs)
  then consider "py_space c" "w' = w" "w \<noteq> []" | "w' \<in> set (words_from [] cs)" | "\<not> py_space c" "w' \<in> set (words_from (w @ [c]) cs)"
    by (auto split: if_splits)
  then show ?case
  proof cases
    case 1
    with Cons.prems(1) show ?thesis by simp
  next
    case 2
    then show ?thesis by (intro Cons.IH [of "[]"]) simp_all
  next
    case 3
    with Cons.prems(1) show ?thesis by (intro Cons.IH [of "w @ [c]"]) auto
  qed
qed (auto split: if_splits)

lemma py_split_words: "w \<in> set (py_split s) \<Longrightarrow> w \<noteq> [] \<and> (\<forall>c \<in> set w. \<not> py_space c)"
  unfolding py_split_def by (rule words_from_words [of "[]"]) simp_all

lemma words_from_word:
  "\<forall>c \<in> set w. \<not> py_space c \<Longrightarrow> words_from v w = (if v @ w = [] then [] else [v @ w])"
  by (induction w arbitrary: v) auto

text \<open>What is joined by spaces is split again.\<close>

lemma words_from_append_space:
  "\<forall>c \<in> set w. \<not> py_space c \<Longrightarrow>
   words_from v (w @ CHR '' '' # s) = (if v @ w = [] then [] else [v @ w]) @ words_from [] s"
  by (induction w arbitrary: v) (auto simp: py_space_def)

lemma is_digit_digit [simp]: "is_digit (digit n)"
proof -
  have "n mod 10 < 10" by simp
  then have "(48 + n mod 10) mod 256 = 48 + n mod 10" by simp
  then show ?thesis using \<open>n mod 10 < 10\<close> by (simp add: is_digit_def digit_def Let_def)
qed

lemma nat_str_digits: "list_all is_digit (nat_str n) \<and> nat_str n \<noteq> []"
proof (induction n rule: nat_str.induct)
  case (1 n)
  then show ?case by (subst (1 2) nat_str.simps) auto
qed

lemma digits_ok_all: "list_all is_digit ds \<Longrightarrow> digits_ok b ds \<longleftrightarrow> b \<or> ds \<noteq> []"
  by (induction ds arbitrary: b) auto

lemma read_digits_nat_str [simp]: "read_digits (nat_str n) = Inr n"
proof -
  have "filter is_digit (nat_str n) = nat_str n" using nat_str_digits [of n] by (simp add: list_all_iff)
  then show ?thesis using nat_str_digits [of n] by (simp add: read_digits_def digits_ok_all)
qed

lemma digit_no_space: "is_digit c \<Longrightarrow> \<not> py_space c"
  by (auto simp: is_digit_def py_space_def Let_def)

lemma digit_no_sign: "is_digit c \<Longrightarrow> c \<noteq> CHR ''-'' \<and> c \<noteq> CHR ''+''"
  by (auto simp: is_digit_def)

text \<open>Reading what is printed.\<close>

lemma py_int_int_str: "py_int (int_str i) = Inr i"
proof -
  have sp: "\<not> py_space c" if "c \<in> set (nat_str n)" for c n
    using nat_str_digits [of n] that by (auto simp: list_all_iff digit_no_space)
  have minus: "\<not> py_space CHR ''-''" by (simp add: py_space_def)
  obtain c cs where ds: "nat_str (nat i) = c # cs" "is_digit c"
    using nat_str_digits [of "nat i"] by (cases "nat_str (nat i)") auto
  have strip: "py_strip (int_str i) = int_str i"
    by (rule py_strip_id) (auto simp: int_str_def sp minus split: if_splits)
  show ?thesis
  proof (cases "i < 0")
    case True
    then show ?thesis by (simp add: py_int_def strip Let_def) (simp add: int_str_def)
  next
    case False
    then have "int_str i = c # cs" using ds(1) by (simp add: int_str_def)
    then show ?thesis using strip False digit_no_sign [OF ds(2)] read_digits_nat_str [of "nat i"] ds(1)
      by (simp add: py_int_def Let_def)
  qed
qed

end
