(* ===== verification/Json_Codec.thy ===== *)
theory Json_Codec
  imports Py_Strings "HOL-Library.Word"
begin

unbundle bit_operations_syntax

text \<open>
  The part of Python's \<open>json\<close> module and of the UTF-8 codec that carries a message through Kafka and reads the command
  line: \<open>json.dumps\<close> with its defaults, \<open>json.loads\<close>, \<open>str.encode("utf-8")\<close> and \<open>bytes.decode("utf-8")\<close>.

  What is printed is a tree whose objects keep their order and their duplicates (\<open>jtree\<close>); what is read is a value of type
  \<open>json\<close>, where the last of equal keys wins. Strings have 8-bit characters, so a text that denotes a character
  above 255 has no value here: the result \<open>Outside\<close> makes no statement. The printing and the rounding of floats are
  parameters (\<open>float_str\<close>, \<open>flt\<close>). The limit of the interpreter on the digits of an integer is modelled; its limit on the
  nesting of calls is not.
\<close>

section \<open>Results of decoding\<close>

datatype 'a decoded = Decoded 'a | Invalid | Outside | Starved

primrec and_read :: "'a decoded \<Rightarrow> ('a \<Rightarrow> 'b decoded) \<Rightarrow> 'b decoded" where
  "and_read (Decoded x) f = f x"
| "and_read Invalid f = Invalid"
| "and_read Outside f = Outside"
| "and_read Starved f = Starved"

lemma and_read_Starved: "and_read m f = Starved \<longleftrightarrow> m = Starved \<or> (\<exists>x. m = Decoded x \<and> f x = Starved)"
  by (cases m) simp_all

lemma and_read_Decoded: "and_read m f = Decoded y \<longleftrightarrow> (\<exists>x. m = Decoded x \<and> f x = Decoded y)"
  by (cases m) simp_all

lemma and_read_cong [fundef_cong]:
  "m = m' \<Longrightarrow> (\<And>x. m' = Decoded x \<Longrightarrow> f x = g x) \<Longrightarrow> and_read m f = and_read m' g"
  by (cases m') simp_all

section \<open>Printing\<close>

datatype jtree =
    TNull
  | TBool bool
  | TInt int
  | TFloat int int
  | TStr string
  | TArr "jtree list"
  | TObj "(string \<times> jtree) list"

text \<open>The value of a tree.\<close>

fun to_json :: "jtree \<Rightarrow> json" where
  "to_json TNull = JNull"
| "to_json (TBool b) = JBool b"
| "to_json (TInt i) = JInt i"
| "to_json (TFloat m e) = JFloat m e"
| "to_json (TStr s) = JStr s"
| "to_json (TArr ts) = JArr (map to_json ts)"
| "to_json (TObj kvs) = JObj (fmap_of_list (rev (map (\<lambda>(k, t). (k, to_json t)) kvs)))"

abbreviation dquote :: char where "dquote \<equiv> CHR 0x22"
abbreviation backslash :: char where "backslash \<equiv> CHR 0x5C"

definition hex_digit :: "nat \<Rightarrow> char" where
  "hex_digit n = char_of (if n < 10 then 48 + n else 87 + n)"

text \<open>\<open>py_encode_basestring_ascii\<close>: the two-character escapes, and \<open>\u00xx\<close> for what is not printable ASCII.\<close>

definition escape_char :: "char \<Rightarrow> string" where
  "escape_char c = (let n = of_char c :: nat in
     if c = backslash then [backslash, backslash]
     else if c = dquote then [backslash, dquote]
     else if n = 10 then [backslash, CHR ''n'']
     else if n = 13 then [backslash, CHR ''r'']
     else if n = 9 then [backslash, CHR ''t'']
     else if n = 12 then [backslash, CHR ''f'']
     else if n = 8 then [backslash, CHR ''b'']
     else if 32 \<le> n \<and> n \<le> 126 then [c]
     else [backslash, CHR ''u'', CHR ''0'', CHR ''0'', hex_digit (n div 16), hex_digit (n mod 16)])"

definition quoted :: "string \<Rightarrow> string" where
  "quoted s = dquote # concat (map escape_char s) @ [dquote]"

fun sep_by :: "string \<Rightarrow> string list \<Rightarrow> string" where
  "sep_by sep [] = []"
| "sep_by sep [x] = x"
| "sep_by sep (x # y # ys) = x @ sep @ sep_by sep (y # ys)"

fun dumps_str :: "(int \<Rightarrow> int \<Rightarrow> string) \<Rightarrow> jtree \<Rightarrow> string" where
  "dumps_str float_str TNull = ''null''"
| "dumps_str float_str (TBool b) = (if b then ''true'' else ''false'')"
| "dumps_str float_str (TInt i) = int_str i"
| "dumps_str float_str (TFloat m e) = float_str m e"
| "dumps_str float_str (TStr s) = quoted s"
| "dumps_str float_str (TArr ts) = ''['' @ sep_by '', '' (map (dumps_str float_str) ts) @ '']''"
| "dumps_str float_str (TObj kvs) =
     ''{'' @ sep_by '', '' (map (\<lambda>(k, t). quoted k @ '': '' @ dumps_str float_str t) kvs) @ ''}''"

text \<open>An integer with more digits than \<open>sys.get_int_max_str_digits()\<close> can neither be printed nor be read.\<close>

definition int_max_str_digits :: int where
  "int_max_str_digits = 4300"

definition int_prints :: "int \<Rightarrow> bool" where
  "int_prints i \<longleftrightarrow> int (length (nat_str (nat \<bar>i\<bar>))) \<le> int_max_str_digits"

fun ints_print :: "jtree \<Rightarrow> bool" where
  "ints_print (TInt i) = int_prints i"
| "ints_print (TArr ts) = list_all ints_print ts"
| "ints_print (TObj kvs) = list_all (\<lambda>(k, t). ints_print t) kvs"
| "ints_print t = True"

definition json_dumps :: "(int \<Rightarrow> int \<Rightarrow> string) \<Rightarrow> jtree \<Rightarrow> exn + string" where
  "json_dumps float_str t = (if ints_print t then Inr (dumps_str float_str t) else Inl ValueError)"

section \<open>Reading\<close>

definition skip_ws :: "string \<Rightarrow> string" where
  "skip_ws = dropWhile (\<lambda>c. (of_char c :: nat) \<in> {32, 9, 10, 13})"

definition hex_val :: "char \<Rightarrow> nat option" where
  "hex_val c = (let n = of_char c :: nat in
     if 48 \<le> n \<and> n \<le> 57 then Some (n - 48)
     else if 97 \<le> n \<and> n \<le> 102 then Some (n - 87)
     else if 65 \<le> n \<and> n \<le> 70 then Some (n - 55) else None)"

definition hex4 :: "char \<Rightarrow> char \<Rightarrow> char \<Rightarrow> char \<Rightarrow> nat option" where
  "hex4 a b c d = (case (hex_val a, hex_val b, hex_val c, hex_val d) of
      (Some i, Some j, Some k, Some l) \<Rightarrow> Some (((i * 16 + j) * 16 + k) * 16 + l)
    | _ \<Rightarrow> None)"

definition unescape :: "char \<Rightarrow> char option" where
  "unescape c = map_of [(dquote, dquote), (backslash, backslash), (CHR ''/'', CHR ''/''), (CHR ''b'', CHR 8),
     (CHR ''f'', CHR 12), (CHR ''n'', CHR 10), (CHR ''r'', CHR 13), (CHR ''t'', CHR 9)] c"

text \<open>One character of a string, written as itself or as an escape; strict mode refuses control characters.\<close>

definition scan_char :: "string \<Rightarrow> (char \<times> string) decoded" where
  "scan_char s = (case s of
      [] \<Rightarrow> Invalid
    | c # cs \<Rightarrow>
        (if c = backslash then
           (case cs of
              [] \<Rightarrow> Invalid
            | e # es \<Rightarrow>
                (if e = CHR ''u'' then
                   (case es of
                      h1 # h2 # h3 # h4 # r \<Rightarrow>
                        (case hex4 h1 h2 h3 h4 of
                           None \<Rightarrow> Invalid
                         | Some n \<Rightarrow> if 255 < n then Outside else Decoded (char_of n, r))
                    | _ \<Rightarrow> Invalid)
                 else (case unescape e of None \<Rightarrow> Invalid | Some d \<Rightarrow> Decoded (d, es))))
         else if (of_char c :: nat) < 32 then Invalid else Decoded (c, cs)))"

lemma scan_char_shorter: "scan_char s = Decoded (c, r) \<Longrightarrow> length r < length s"
  by (auto simp: scan_char_def split: list.splits option.splits if_splits)

text \<open>\<open>scanstring\<close> after the opening quote.\<close>

function scan_chars :: "string \<Rightarrow> (string \<times> string) decoded" where
  "scan_chars s =
     (if take 1 s = [dquote] then Decoded ([], drop 1 s)
      else and_read (scan_char s) (\<lambda>(c, r). and_read (scan_chars r) (\<lambda>(cs, r'). Decoded (c # cs, r'))))"
  by pat_completeness auto
termination by (relation "measure length") (auto dest: scan_char_shorter)

declare scan_chars.simps [simp del]

text \<open>\<open>NUMBER_RE\<close>: a sign, an integer part without leading zeros, a fraction and an exponent.\<close>

definition scan_fraction :: "string \<Rightarrow> string \<times> string" where
  "scan_fraction s = (if take 1 s = ''.'' \<and> takeWhile is_digit (drop 1 s) \<noteq> []
     then (CHR ''.'' # takeWhile is_digit (drop 1 s), dropWhile is_digit (drop 1 s)) else ([], s))"

definition scan_exponent :: "string \<Rightarrow> string \<times> string" where
  "scan_exponent s =
     (let sign = (if take 1 (drop 1 s) \<in> {''+'', ''-''} then take 1 (drop 1 s) else []);
          ds = drop (1 + length sign) s
      in if take 1 s \<in> {''e'', ''E''} \<and> takeWhile is_digit ds \<noteq> []
         then (take 1 s @ sign @ takeWhile is_digit ds, dropWhile is_digit ds) else ([], s))"

definition scan_digits :: "string \<Rightarrow> (string \<times> string) option" where
  "scan_digits s = (if take 1 s = ''0'' then Some (''0'', drop 1 s)
     else if takeWhile is_digit s = [] then None
     else Some (takeWhile is_digit s, dropWhile is_digit s))"

definition scan_number :: "(string \<Rightarrow> json) \<Rightarrow> string \<Rightarrow> (json \<times> string) decoded option" where
  "scan_number flt s =
     (let sign = (if take 1 s = ''-'' then ''-'' else [])
      in case scan_digits (drop (length sign) s) of
           None \<Rightarrow> None
         | Some (ds, s1) \<Rightarrow>
             (let (frac, s2) = scan_fraction s1; (ex, s3) = scan_exponent s2
              in Some (if frac \<noteq> [] \<or> ex \<noteq> [] then Decoded (flt (sign @ ds @ frac @ ex), s3)
                 else if int_max_str_digits < int (length ds) then Invalid
                 else Decoded (JInt (if sign = [] then int (read_nat ds) else - int (read_nat ds)), s1))))"

text \<open>The names that \<open>scan_once\<close> knows; the last three are floats.\<close>

definition scan_literal :: "(string \<Rightarrow> json) \<Rightarrow> string \<Rightarrow> (json \<times> string) decoded" where
  "scan_literal flt s =
     (if take 4 s = ''null'' then Decoded (JNull, drop 4 s)
      else if take 4 s = ''true'' then Decoded (JBool True, drop 4 s)
      else if take 5 s = ''false'' then Decoded (JBool False, drop 5 s)
      else case scan_number flt s of
        Some r \<Rightarrow> r
      | None \<Rightarrow>
          (if take 3 s = ''NaN'' then Decoded (flt ''NaN'', drop 3 s)
           else if take 8 s = ''Infinity'' then Decoded (flt ''Infinity'', drop 8 s)
           else if take 9 s = ''-Infinity'' then Decoded (flt ''-Infinity'', drop 9 s)
           else Invalid))"

text \<open>
  \<open>scan_once\<close>, \<open>JSONArray\<close> after the opening bracket and its white space, \<open>JSONObject\<close> likewise. The fuel bounds the calls; twice
  the length of the text and one is always enough (\<open>scan_fuel\<close> below).
\<close>

fun scan_value :: "(string \<Rightarrow> json) \<Rightarrow> nat \<Rightarrow> string \<Rightarrow> (json \<times> string) decoded"
  and scan_items :: "(string \<Rightarrow> json) \<Rightarrow> nat \<Rightarrow> string \<Rightarrow> (json list \<times> string) decoded"
  and scan_pairs :: "(string \<Rightarrow> json) \<Rightarrow> nat \<Rightarrow> string \<Rightarrow> ((string \<times> json) list \<times> string) decoded" where
  "scan_value flt 0 s = Starved"
| "scan_value flt (Suc n) s =
     (if take 1 s = [dquote] then and_read (scan_chars (drop 1 s)) (\<lambda>(v, r). Decoded (JStr v, r))
      else if take 1 s = ''['' then
        (let s' = skip_ws (drop 1 s)
         in if take 1 s' = '']'' then Decoded (JArr [], drop 1 s')
            else and_read (scan_items flt n s') (\<lambda>(vs, r). Decoded (JArr vs, r)))
      else if take 1 s = ''{'' then
        (let s' = skip_ws (drop 1 s)
         in if take 1 s' = ''}'' then Decoded (JObj fmempty, drop 1 s')
            else and_read (scan_pairs flt n s') (\<lambda>(kvs, r). Decoded (JObj (fmap_of_list (rev kvs)), r)))
      else scan_literal flt s)"
| "scan_items flt 0 s = Starved"
| "scan_items flt (Suc n) s = and_read (scan_value flt n s) (\<lambda>(v, r).
     let r' = skip_ws r
     in if take 1 r' = '']'' then Decoded ([v], drop 1 r')
        else if take 1 r' = '','' then
          and_read (scan_items flt n (skip_ws (drop 1 r'))) (\<lambda>(vs, r''). Decoded (v # vs, r''))
        else Invalid)"
| "scan_pairs flt 0 s = Starved"
| "scan_pairs flt (Suc n) s =
     (if take 1 s \<noteq> [dquote] then Invalid
      else and_read (scan_chars (drop 1 s)) (\<lambda>(k, r).
        if take 1 (skip_ws r) \<noteq> '':'' then Invalid
        else and_read (scan_value flt n (skip_ws (drop 1 (skip_ws r)))) (\<lambda>(v, r').
          if take 1 (skip_ws r') = ''}'' then Decoded ([(k, v)], drop 1 (skip_ws r'))
          else if take 1 (skip_ws r') = '','' then
            and_read (scan_pairs flt n (skip_ws (drop 1 (skip_ws r')))) (\<lambda>(kvs, r''). Decoded ((k, v) # kvs, r''))
          else Invalid)))"

definition json_loads :: "(string \<Rightarrow> json) \<Rightarrow> string \<Rightarrow> json decoded" where
  "json_loads flt s = and_read (scan_value flt (2 * length s + 1) (skip_ws s))
     (\<lambda>(v, r). if skip_ws r = [] then Decoded v else Invalid)"

section \<open>UTF-8\<close>

type_synonym bytes = "8 word list"

definition utf8_char :: "char \<Rightarrow> bytes" where
  "utf8_char c = (let w = of_char c :: 8 word in
     if w < 0x80 then [w] else [0xC0 OR drop_bit 6 w, 0x80 OR (w AND 0x3F)])"

definition utf8_encode :: "string \<Rightarrow> bytes" where
  "utf8_encode s = concat (map utf8_char s)"

text \<open>
  The lead bytes \<open>C2\<close> and \<open>C3\<close> start the characters from 128 to 255; a sequence with a greater lead byte is a character
  above 255 or ill-formed.
\<close>

fun utf8_decode :: "bytes \<Rightarrow> string decoded" where
  "utf8_decode [] = Decoded []"
| "utf8_decode (b # bs) =
     (if b < 0x80 then and_read (utf8_decode bs) (\<lambda>s. Decoded (char_of (unat b) # s))
      else if b = 0xC2 \<or> b = 0xC3 then
        (case bs of
           [] \<Rightarrow> Invalid
         | d # ds \<Rightarrow> if d AND 0xC0 = 0x80
             then and_read (utf8_decode ds) (\<lambda>s. Decoded (char_of (unat (push_bit 6 b OR (d AND 0x3F))) # s))
             else Invalid)
      else if 0xC4 \<le> b \<and> b \<le> 0xF4 then Outside
      else Invalid)"

section \<open>UTF-8 is read back\<close>

lemma utf8_decode_char:
  "utf8_decode (utf8_char c @ bs) = and_read (utf8_decode bs) (\<lambda>s. Decoded (c # s))"
proof (cases c)
  case (Char b0 b1 b2 b3 b4 b5 b6 b7)
  show ?thesis unfolding Char
    by (cases b0; cases b1; cases b2; cases b3; cases b4; cases b5; cases b6; cases b7;
        simp add: utf8_char_def char_of_def bit_0)
qed

lemma utf8_decode_encode [simp]: "utf8_decode (utf8_encode s) = Decoded s"
  by (induction s) (simp_all add: utf8_encode_def utf8_decode_char)

section \<open>Reading always ends\<close>

text \<open>What is left over is shorter than what was read, so the fuel of \<^const>\<open>json_loads\<close> is never used up.\<close>

lemma skip_ws_length: "length (skip_ws s) \<le> length s"
  by (simp add: skip_ws_def length_dropWhile_le)

lemma scan_char_total: "scan_char s \<noteq> Starved"
  by (auto simp: scan_char_def split: list.split option.split)

lemma scan_chars_shorter: "scan_chars s = Decoded (v, r) \<Longrightarrow> length r < length s"
proof (induction s arbitrary: v rule: scan_chars.induct)
  case (1 s)
  consider "take 1 s = [dquote]" "r = drop 1 s"
    | c b cs where "take 1 s \<noteq> [dquote]" "scan_char s = Decoded (c, b)" "scan_chars b = Decoded (cs, r)"
    using "1.prems" by (subst (asm) scan_chars.simps) (auto simp: and_read_Decoded split: if_splits)
  then show ?case
  proof cases
    case 1
    then show ?thesis by (cases s) auto
  next
    case 2
    with "1.IH" [OF 2(1,2) refl 2(3)] scan_char_shorter show ?thesis by fastforce
  qed
qed

lemma scan_chars_total: "scan_chars s \<noteq> Starved"
  by (induction s rule: scan_chars.induct) (subst scan_chars.simps, auto simp: and_read_Starved scan_char_total)

lemma scan_number_shorter: "scan_number flt s = Some (Decoded (v, r)) \<Longrightarrow> length r < length s"
proof -
  have d: "scan_digits s = Some (ds, s1) \<Longrightarrow> length s1 < length s" for s ds s1
    using length_dropWhile_le [of is_digit "drop 1 s"]
    by (cases s) (auto simp: scan_digits_def split: if_splits)
  have f: "scan_fraction s = (fr, s1) \<Longrightarrow> length s1 \<le> length s" for s fr s1
    using length_dropWhile_le [of is_digit "drop 1 s"] by (auto simp: scan_fraction_def split: if_splits)
  have e: "scan_exponent s = (ex, s1) \<Longrightarrow> length s1 \<le> length s" for s ex s1
    by (auto simp: scan_exponent_def Let_def split: if_splits intro!: order_trans [OF length_dropWhile_le])
  assume "scan_number flt s = Some (Decoded (v, r))"
  then show ?thesis
    by (fastforce simp: scan_number_def Let_def split: option.splits prod.splits if_splits dest: d f e)
qed

lemma scan_number_total: "scan_number flt s \<noteq> Some Starved"
  by (auto simp: scan_number_def Let_def split: option.splits prod.splits if_splits)

lemma scan_literal_shorter: "scan_literal flt s = Decoded (v, r) \<Longrightarrow> length r < length s"
  by (cases s) (auto simp: scan_literal_def split: if_splits option.splits dest: scan_number_shorter)

lemma scan_literal_total: "scan_literal flt s \<noteq> Starved"
  using scan_number_total [of flt s] by (auto simp: scan_literal_def split: option.split)

lemma skip_ws_next: "length (skip_ws (drop 1 (skip_ws s))) \<le> length s - 1"
  using skip_ws_length [of s] skip_ws_length [of "drop 1 (skip_ws s)"] by simp

lemma scan_pairs_Decoded:
  assumes "scan_pairs flt (Suc n) s = Decoded (kvs, r)"
  obtains k a w b where "take 1 s = [dquote]" "scan_chars (drop 1 s) = Decoded (k, a)" "take 1 (skip_ws a) = '':''"
    "scan_value flt n (skip_ws (drop 1 (skip_ws a))) = Decoded (w, b)"
    "take 1 (skip_ws b) = ''}'' \<and> r = drop 1 (skip_ws b) \<or>
     take 1 (skip_ws b) = '','' \<and> (\<exists>kvs'. scan_pairs flt n (skip_ws (drop 1 (skip_ws b))) = Decoded (kvs', r))"
  using assms by (auto simp: and_read_Decoded split: if_splits)

lemma scan_shorter:
  "scan_value flt n s = Decoded (v, r) \<Longrightarrow> length r < length s"
  "scan_items flt n s = Decoded (vs, r) \<Longrightarrow> length r < length s"
  "scan_pairs flt n s = Decoded (kvs, r) \<Longrightarrow> length r < length s"
proof (induction flt n s and flt n s and flt n s arbitrary: v r and vs r and kvs r
    rule: scan_value_scan_items_scan_pairs.induct)
  case (2 flt n s)
  note less = skip_ws_length [of "drop 1 s"] "2.IH" scan_chars_shorter [of "drop 1 s"] scan_literal_shorter
  show ?case using "2.prems" less
    by (cases s) (fastforce simp: and_read_Decoded Let_def split: if_splits)+
next
  case (4 flt n s)
  then obtain w a where w: "scan_value flt n s = Decoded (w, a)" "length a < length s"
    by (auto simp: and_read_Decoded)
  have "length r < length a"
    using "4.prems" w(1) "4.IH"(2) [OF w(1) refl refl] skip_ws_length [of a] skip_ws_length [of "drop 1 (skip_ws a)"]
    by (cases "skip_ws a") (fastforce simp: and_read_Decoded Let_def split: if_splits)+
  with w(2) show ?case by simp
next
  case (6 flt n s)
  from "6.prems" show ?case
  proof (rule scan_pairs_Decoded)
    fix k a w b
    assume s: "take 1 s = [dquote]" "scan_chars (drop 1 s) = Decoded (k, a)" "take 1 (skip_ws a) = '':''"
      and w: "scan_value flt n (skip_ws (drop 1 (skip_ws a))) = Decoded (w, b)"
      and r: "take 1 (skip_ws b) = ''}'' \<and> r = drop 1 (skip_ws b) \<or>
        take 1 (skip_ws b) = '','' \<and> (\<exists>kvs'. scan_pairs flt n (skip_ws (drop 1 (skip_ws b))) = Decoded (kvs', r))"
    have "length a < length s" using scan_chars_shorter [OF s(2)] by simp
    moreover have "length b < length a" using "6.IH"(1) [OF _ s(2) refl _ w] s(1,3) skip_ws_next [of a] by simp
    moreover have "length r \<le> length b"
      using r "6.IH"(2) [OF _ s(2) refl _ w refl] s(1,3) skip_ws_next [of b] skip_ws_length [of b] by fastforce
    ultimately show ?thesis by simp
  qed
qed simp_all

lemma scan_fuel:
  "2 * length s < n \<Longrightarrow> scan_value flt n s \<noteq> Starved"
  "2 * length s + 1 < n \<Longrightarrow> scan_items flt n s \<noteq> Starved"
  "2 * length s + 1 < n \<Longrightarrow> scan_pairs flt n s \<noteq> Starved"
proof (induction flt n s and flt n s and flt n s rule: scan_value_scan_items_scan_pairs.induct)
  case (2 flt n s)
  have "2 * length (skip_ws (drop 1 s)) + 1 < n" if "s \<noteq> []"
    using "2.prems" that skip_ws_length [of "drop 1 s"] by (cases s) auto
  with "2.IH" show ?case
    by (cases "s = []") (auto simp: and_read_Starved Let_def scan_chars_total scan_literal_total split: prod.split)
next
  case (4 flt n s)
  have "scan_items flt n (skip_ws (drop 1 (skip_ws r))) \<noteq> Starved"
    if "scan_value flt n s = Decoded (v, r)" "take 1 (skip_ws r) = '',''" for v r
    using "4.IH"(2) [OF that(1) refl refl] that(2) "4.prems" scan_shorter(1) [OF that(1)] skip_ws_next [of r] by simp
  then show ?case using "4.IH"(1) "4.prems" by (auto simp: and_read_Starved Let_def)
next
  case (6 flt n s)
  have val: "scan_value flt n (skip_ws (drop 1 (skip_ws a))) \<noteq> Starved" "length a < length s"
    if "take 1 s = [dquote]" "scan_chars (drop 1 s) = Decoded (k, a)" "take 1 (skip_ws a) = '':''" for k a
    using "6.IH"(1) [OF _ that(2) refl] that(1,3) "6.prems" scan_chars_shorter [OF that(2)] skip_ws_next [of a] by simp_all
  have "scan_pairs flt n (skip_ws (drop 1 (skip_ws b))) \<noteq> Starved"
    if "take 1 s = [dquote]" "scan_chars (drop 1 s) = Decoded (k, a)" "take 1 (skip_ws a) = '':''"
      "scan_value flt n (skip_ws (drop 1 (skip_ws a))) = Decoded (v, b)" "take 1 (skip_ws b) = '',''" for k a v b
    using "6.IH"(2) [OF _ that(2) refl _ that(4) refl] that(1,3,5) "6.prems" val(2) [OF that(1,2,3)]
      scan_shorter(1) [OF that(4)] skip_ws_next [of a] skip_ws_next [of b] by simp
  with val show ?case by (auto simp: and_read_Starved scan_chars_total)
qed simp_all

lemma json_loads_total: "json_loads flt s \<noteq> Starved"
  using scan_fuel(1) [of "skip_ws s" "2 * length s + 1" flt] skip_ws_length [of s]
  by (auto simp: json_loads_def and_read_Starved)

end
