(* ===== verification/Json_Laws.thy ===== *)
theory Json_Laws
  imports Json_Codec
begin

text \<open>
  What \<open>json.dumps\<close> prints, \<open>json.loads\<close> reads back: for every tree without floats whose integers can be printed, and
  also through the UTF-8 encoding.
\<close>

section \<open>Strings and numbers\<close>

lemma hex_val_digit [simp]: "k < 16 \<Longrightarrow> hex_val (hex_digit k) = Some k"
  by (auto simp: hex_val_def hex_digit_def Let_def)

lemma scan_escaped:
  "scan_char (escape_char c @ r) = Decoded (c, r)" "take 1 (escape_char c @ r) \<noteq> [dquote]"
proof -
  show "take 1 (escape_char c @ r) \<noteq> [dquote]" by (simp add: escape_char_def Let_def)
  let ?n = "of_char c :: nat"
  have n: "?n < 256" and c: "char_of ?n = c" by simp_all
  have q: "((0 * 16 + 0) * 16 + ?n div 16) * 16 + ?n mod 16 = ?n" by simp
  have h: "?n div 16 < 16" "?n mod 16 < 16" "hex_val CHR ''0'' = Some 0" using n less_mult_imp_div_less [of ?n 16 16] by (auto simp: hex_val_def)
  consider "?n \<in> {10, 13, 9, 12, 8}" | "c = backslash \<or> c = dquote" | "32 \<le> ?n" "?n \<le> 126" "c \<noteq> backslash" "c \<noteq> dquote"
    | "?n \<notin> {10, 13, 9, 12, 8}" "\<not> (32 \<le> ?n \<and> ?n \<le> 126)" "c \<noteq> backslash" "c \<noteq> dquote"
    by blast
  then show "scan_char (escape_char c @ r) = Decoded (c, r)"
  proof cases
    case 1
    then have "c \<in> char_of ` {10, 13, 9, 12, 8 :: nat}" using c by (metis imageI)
    then have "c \<in> {CHR 10, CHR 13, CHR 9, CHR 12, CHR 8}" by (simp add: char_of_def bit_0)
    then show ?thesis by (auto simp: scan_char_def escape_char_def unescape_def)
  next
    case 2
    then show ?thesis by (auto simp: scan_char_def escape_char_def unescape_def)
  next
    case 3
    then show ?thesis by (simp add: scan_char_def escape_char_def Let_def)
  next
    case 4
    moreover have "\<not> 255 < ?n" using n by linarith
    ultimately show ?thesis using h q c by (simp add: scan_char_def escape_char_def Let_def hex4_def)
  qed
qed

lemma scan_quoted: "scan_chars (concat (map escape_char s) @ dquote # r) = Decoded (s, r)"
proof (induction s)
  case (Cons c s)
  then show ?case using scan_escaped [of c] by (subst scan_chars.simps) (simp del: take_append)
qed (simp add: scan_chars.simps)

lemma scan_key [simp]:
  "take (Suc 0) (quoted k @ s) = [dquote]" "scan_chars (drop (Suc 0) (quoted k @ s)) = Decoded (k, s)"
  by (simp_all add: quoted_def scan_quoted)

definition ends_number :: "string \<Rightarrow> bool" where
  "ends_number r \<longleftrightarrow> takeWhile is_digit r = [] \<and> take 1 r \<notin> {''.'', ''e'', ''E''}"

lemma scan_tail: "ends_number r \<Longrightarrow> scan_fraction r = ([], r) \<and> scan_exponent r = ([], r)"
  by (auto simp: ends_number_def scan_fraction_def scan_exponent_def Let_def)

lemma nat_str_hd: "nat_str n = c # cs \<Longrightarrow> c = CHR ''0'' \<Longrightarrow> n = 0"
proof (induction n arbitrary: cs rule: nat_str.induct)
  case (1 n)
  show ?case
  proof (cases "n < 10")
    case True
    with "1.prems" have "digit_val (digit n) = 0" by (simp add: nat_str.simps [of n] digit_val_def)
    with True show ?thesis by simp
  next
    case False
    obtain ds where ds: "nat_str (n div 10) = c # ds"
      using "1.prems"(1) False nat_str_digits [of "n div 10"]
      by (cases "nat_str (n div 10)") (auto simp: nat_str.simps [of n])
    from "1.IH" [OF False this "1.prems"(2)] False show ?thesis by simp
  qed
qed

lemma takeWhile_digits:
  assumes "takeWhile is_digit r = []" "list_all is_digit ds"
  shows "takeWhile is_digit (ds @ r) = ds" "dropWhile is_digit (ds @ r) = r"
  using assms by (induction ds) (auto simp: takeWhile_eq_Nil_iff dropWhile_eq_self_iff)

lemma scan_digits_nat_str:
  assumes "takeWhile is_digit r = []"
  shows "scan_digits (nat_str n @ r) = Some (nat_str n, r)"
proof -
  obtain c cs where ds: "nat_str n = c # cs" "list_all is_digit (c # cs)"
    using nat_str_digits [of n] by (cases "nat_str n") auto
  show ?thesis
  proof (cases "c = CHR ''0''")
    case True
    with ds(1) have "n = 0" by (rule nat_str_hd)
    then have "nat_str n = ''0''" by (simp add: nat_str.simps [of 0] digit_def char_of_def bit_0)
    then show ?thesis by (simp add: scan_digits_def)
  next
    case False
    then show ?thesis using takeWhile_digits [OF assms ds(2)] ds by (auto simp: scan_digits_def)
  qed
qed

lemma scan_number_int:
  assumes "ends_number r" "int_prints i"
  shows "scan_number flt (int_str i @ r) = Some (Decoded (JInt i, r))"
proof -
  have r: "takeWhile is_digit r = []" using assms(1) by (simp add: ends_number_def)
  have hd: "take 1 (nat_str n @ r) \<noteq> ''-''" for n
    using hd_nat_str [of n] nat_str_digits [of n] by (cases "nat_str n") auto
  note facts = scan_tail [OF assms(1)] scan_digits_nat_str [OF r]
  show ?thesis
  proof (cases "i < 0")
    case True
    with assms(2) show ?thesis by (simp add: facts scan_number_def int_str_def Let_def int_prints_def)
  next
    case False
    with assms(2) hd [of "nat i"] show ?thesis by (simp add: facts scan_number_def int_str_def Let_def int_prints_def)
  qed
qed


lemma skip_ws_simps [simp]:
  "skip_ws [] = []"
  "skip_ws (c # cs) = (if (of_char c :: nat) \<in> {32, 9, 10, 13} then skip_ws cs else c # cs)"
  by (simp_all add: skip_ws_def)

fun float_free :: "jtree \<Rightarrow> bool" where
  "float_free (TFloat m e) = False"
| "float_free (TArr ts) = list_all float_free ts"
| "float_free (TObj kvs) = list_all (\<lambda>(k, t). float_free t) kvs"
| "float_free t = True"

definition plain :: "jtree \<Rightarrow> bool" where
  "plain t \<longleftrightarrow> float_free t \<and> ints_print t"

lemma plain_TArr [simp]: "plain (TArr ts) \<longleftrightarrow> (\<forall>t \<in> set ts. plain t)"
  and plain_TObj [simp]: "plain (TObj kvs) \<longleftrightarrow> (\<forall>(k, t) \<in> set kvs. plain t)"
  and plain_TFloat [simp]: "\<not> plain (TFloat m e)"
  and plain_TInt [simp]: "plain (TInt i) \<longleftrightarrow> int_prints i"
  by (auto simp: plain_def list_all_iff)

text \<open>No printed value starts with white space or a closing bracket.\<close>

definition opens_value :: "string \<Rightarrow> bool" where
  "opens_value s \<longleftrightarrow> s \<noteq> [] \<and> (of_char (hd s) :: nat) \<notin> {32, 9, 10, 13, 93, 125}"

lemma opens_value_append [simp]: "opens_value s \<Longrightarrow> opens_value (s @ r)"
  by (auto simp: opens_value_def)

lemma opens_valueD:
  assumes "opens_value s"
  shows "skip_ws s = s" "take 1 s \<noteq> '']''" "take 1 s \<noteq> ''}''"
  using assms by (cases s; auto simp: opens_value_def)+

lemma int_str_cases:
  obtains c cs where "int_str i = c # cs" "c = CHR ''-'' \<or> is_digit c"
proof (cases "i < 0")
  case True
  then show thesis by (intro that [of "CHR ''-''"]) (auto simp: int_str_def)
next
  case False
  then show thesis using that nat_str_digits [of "nat i"] by (cases "nat_str (nat i)") (simp_all add: int_str_def)
qed

lemma scan_literal_number:
  "c = CHR ''-'' \<or> is_digit c \<Longrightarrow> scan_number flt (c # cs) = Some x \<Longrightarrow> scan_literal flt (c # cs) = x"
  by (auto simp: scan_literal_def is_digit_def)

lemma int_str_opens: "opens_value (int_str i)"
  by (rule int_str_cases [of i]) (auto simp: opens_value_def is_digit_def Let_def)

lemma dumps_opens: "plain t \<Longrightarrow> opens_value (dumps_str float_str t)"
  by (cases t) (auto simp: quoted_def int_str_opens, auto simp: opens_value_def)

lemma sep_by_opens: "xs \<noteq> [] \<Longrightarrow> opens_value (hd xs) \<Longrightarrow> opens_value (sep_by sep xs)"
  by (cases "(sep, xs)" rule: sep_by.cases) auto

text \<open>What the printed text of a tree is read as, whatever follows it.\<close>

definition reads_back :: "(int \<Rightarrow> int \<Rightarrow> string) \<Rightarrow> (string \<Rightarrow> json) \<Rightarrow> jtree \<Rightarrow> bool" where
  "reads_back float_str flt t \<longleftrightarrow> (\<forall>n r. ends_number r \<longrightarrow> 2 * length (dumps_str float_str t) < n \<longrightarrow>
     scan_value flt n (dumps_str float_str t @ r) = Decoded (to_json t, r))"

lemma ends_number_simps [simp]:
  "ends_number []" "ends_number (CHR '','' # r)" "ends_number (CHR '']'' # r)" "ends_number (CHR ''}'' # r)"
  by (simp_all add: ends_number_def is_digit_def)

lemma scan_items_dumps:
  assumes "ts \<noteq> []" "\<forall>t \<in> set ts. plain t \<and> reads_back float_str flt t"
    and "2 * length (sep_by '', '' (map (dumps_str float_str) ts)) + 2 < n"
  shows "scan_items flt n (sep_by '', '' (map (dumps_str float_str) ts) @ CHR '']'' # r) = Decoded (map to_json ts, r)"
  using assms
proof (induction ts arbitrary: n rule: list_nonempty_induct)
  case (single t)
  then obtain m where n: "n = Suc m" by (cases n) simp_all
  have "2 * length (dumps_str float_str t) < m" using single n by simp
  with single have "scan_value flt m (dumps_str float_str t @ CHR '']'' # r) = Decoded (to_json t, CHR '']'' # r)"
    by (simp add: reads_back_def)
  then show ?case by (simp add: n Let_def)
next
  case (cons t ts)
  then obtain m where n: "n = Suc m" by (cases n) simp_all
  let ?s = "sep_by '', '' (map (dumps_str float_str) ts)"
  have s: "sep_by '', '' (dumps_str float_str t # map (dumps_str float_str) ts) = dumps_str float_str t @ '', '' @ ?s"
    using cons.hyps by (cases ts) simp_all
  have fuel: "2 * length (dumps_str float_str t) < m" "2 * length ?s + 2 < m" using cons.prems(2) n s by auto
  have one: "scan_value flt m (dumps_str float_str t @ CHR '','' # r') = Decoded (to_json t, CHR '','' # r')" for r'
    using cons.prems(1) fuel(1) by (simp add: reads_back_def)
  have "opens_value ?s" using cons by (intro sep_by_opens) (auto simp: hd_map dumps_opens)
  then have ws: "skip_ws (?s @ CHR '']'' # r) = ?s @ CHR '']'' # r" by (intro opens_valueD) simp
  show ?case using one cons.IH [OF _ fuel(2)] cons.prems(1) by (simp add: n s ws Let_def)
qed


lemma scan_pairs_dumps:
  assumes "kvs \<noteq> []" "\<forall>(k, t) \<in> set kvs. plain t \<and> reads_back float_str flt t"
    and "2 * length (sep_by '', '' (map (\<lambda>(k, t). quoted k @ '': '' @ dumps_str float_str t) kvs)) + 2 < n"
  shows "scan_pairs flt n (sep_by '', '' (map (\<lambda>(k, t). quoted k @ '': '' @ dumps_str float_str t) kvs) @ CHR ''}'' # r) =
    Decoded (map (\<lambda>(k, t). (k, to_json t)) kvs, r)"
  using assms
proof (induction kvs arbitrary: n rule: list_nonempty_induct)
  case (single kv)
  then obtain m where n: "n = Suc m" by (cases n) simp_all
  obtain k t where kv: "kv = (k, t)" by fastforce
  have "2 * length (dumps_str float_str t) < m" using single n kv by simp
  with single kv have "scan_value flt m (dumps_str float_str t @ CHR ''}'' # r) = Decoded (to_json t, CHR ''}'' # r)"
    by (simp add: reads_back_def)
  moreover have "skip_ws (dumps_str float_str t @ CHR ''}'' # r) = dumps_str float_str t @ CHR ''}'' # r"
    using single kv by (intro opens_valueD) (simp add: dumps_opens)
  ultimately show ?case by (simp add: n kv del: take_append drop_append)
next
  case (cons kv kvs)
  then obtain m where n: "n = Suc m" by (cases n) simp_all
  obtain k t where kv: "kv = (k, t)" by fastforce
  let ?p = "\<lambda>(k, t). quoted k @ '': '' @ dumps_str float_str t"
  let ?s = "sep_by '', '' (map ?p kvs)"
  have s: "sep_by '', '' (?p (k, t) # map ?p kvs) = ?p (k, t) @ '', '' @ ?s"
    using cons.hyps by (cases kvs) simp_all
  have fuel: "2 * length (dumps_str float_str t) < m" "2 * length ?s + 2 < m" using cons.prems(2) n s kv by auto
  have one: "scan_value flt m (dumps_str float_str t @ CHR '','' # r') = Decoded (to_json t, CHR '','' # r')" for r'
    using cons.prems(1) kv fuel(1) by (simp add: reads_back_def)
  have ws: "skip_ws (dumps_str float_str t @ CHR '','' # r') = dumps_str float_str t @ CHR '','' # r'" for r'
    using cons.prems(1) kv by (intro opens_valueD) (simp add: dumps_opens)
  have "opens_value ?s" using cons.hyps
    by (intro sep_by_opens) (auto simp: hd_map quoted_def opens_value_def split: prod.split)
  then have ws': "skip_ws (?s @ CHR ''}'' # r) = ?s @ CHR ''}'' # r" by (intro opens_valueD) simp
  show ?case using one cons.IH [OF _ fuel(2)] cons.prems(1) s ws ws'
    by (simp add: n kv del: take_append drop_append)
qed

lemma dumps_reads_back: "plain t \<Longrightarrow> reads_back float_str flt t"
proof (induction t)
  case (TArr ts)
  then have ts: "\<forall>t \<in> set ts. plain t \<and> reads_back float_str flt t" by simp
  show ?case unfolding reads_back_def
  proof (intro allI impI)
    fix n r
    assume "2 * length (dumps_str float_str (TArr ts)) < n"
    then obtain m where n: "n = Suc m" and m: "2 * length (sep_by '', '' (map (dumps_str float_str) ts)) + 2 < m" by (cases n) simp_all
    have ws: "ts \<noteq> [] \<Longrightarrow> opens_value (sep_by '', '' (map (dumps_str float_str) ts))"
      using ts by (intro sep_by_opens) (simp_all add: hd_map dumps_opens)
    show "scan_value flt n (dumps_str float_str (TArr ts) @ r) = Decoded (to_json (TArr ts), r)"
      using scan_items_dumps [OF _ ts m, of r] opens_valueD [OF opens_value_append [OF ws], of "CHR '']'' # r"]
      by (cases "ts = []") (simp_all add: n Let_def)
  qed
next
  case (TObj kvs)
  then have kvs: "\<forall>(k, t) \<in> set kvs. plain t \<and> reads_back float_str flt t" by fastforce
  let ?p = "\<lambda>(k, t). quoted k @ '': '' @ dumps_str float_str t"
  show ?case unfolding reads_back_def
  proof (intro allI impI)
    fix n r
    assume "2 * length (dumps_str float_str (TObj kvs)) < n"
    then obtain m where n: "n = Suc m" and m: "2 * length (sep_by '', '' (map ?p kvs)) + 2 < m" by (cases n) simp_all
    have ws: "kvs \<noteq> [] \<Longrightarrow> opens_value (sep_by '', '' (map ?p kvs))"
      by (intro sep_by_opens) (auto simp: hd_map quoted_def opens_value_def split: prod.split)
    show "scan_value flt n (dumps_str float_str (TObj kvs) @ r) = Decoded (to_json (TObj kvs), r)"
      using scan_pairs_dumps [OF _ kvs m, of r] opens_valueD [OF opens_value_append [OF ws], of "CHR ''}'' # r"]
      by (cases "kvs = []") (simp_all add: n Let_def)
  qed
next
  case (TInt i)
  obtain c cs where c: "int_str i = c # cs" "c = CHR ''-'' \<or> is_digit c" by (rule int_str_cases)
  have "scan_value flt n (int_str i @ r) = Decoded (JInt i, r)"
    if "ends_number r" "2 * length (int_str i) < n" for n r
  proof -
    have "scan_value flt n (int_str i @ r) = scan_literal flt (int_str i @ r)"
      using that(2) c by (cases n) (auto simp: is_digit_def)
    with scan_literal_number [OF c(2), of flt "cs @ r"] scan_number_int [OF that(1), of i flt] TInt c(1) show ?thesis by simp
  qed
  then show ?case by (simp add: reads_back_def)
qed (auto simp: reads_back_def gr0_conv_Suc quoted_def scan_quoted scan_literal_def numeral_eq_Suc dest!: less_imp_Suc_add)

lemma json_loads_dumps: "plain t \<Longrightarrow> json_loads flt (dumps_str float_str t) = Decoded (to_json t)"
proof -
  assume t: "plain t"
  have "scan_value flt (2 * length (dumps_str float_str t) + 1) (dumps_str float_str t @ []) = Decoded (to_json t, [])"
    using dumps_reads_back [OF t, of float_str flt] unfolding reads_back_def by (blast intro: ends_number_simps(1) less_add_one)
  then show ?thesis using opens_valueD(1) [OF dumps_opens [OF t, of float_str]]
    by (simp add: json_loads_def del: scan_value.simps)
qed

text \<open>The codec of the messages: printed and encoded, then decoded and read.\<close>

lemma json_wire:
  assumes "float_free t" "json_dumps float_str t = Inr s"
  shows "and_read (utf8_decode (utf8_encode s)) (json_loads flt) = Decoded (to_json t)"
  using assms json_loads_dumps [of t flt float_str] by (auto simp: json_dumps_def plain_def split: if_splits)

end
