(* ===== verification/Messaging.thy ===== *)
theory Messaging
  imports Models Json_Laws
begin

text \<open>
  Producers and consumers (\<open>common/messaging.py\<close>). A producer publishes a message on a topic under a key and may raise.
  \<open>InMemoryProducer\<close> keeps what was published in a list. \<open>KafkaProducer\<close> and \<open>KafkaConsumer\<close> encode messages as JSON in UTF-8 and pass
  them to the client library, whose operations are parameters (\<open>confluent_producer\<close>, \<open>confluent_consumer\<close>): what it does with
  a record, when it delivers it and what it hands out is outside the repository. The order in which a dictionary is
  printed, which the maps of this model leave open, is the parameter \<open>layout\<close>.

  The locale \<open>producer\<close> is what the dispatcher relies on of a producer that does not fail.
\<close>

section \<open>Definitions\<close>

type_synonym record_sent = "string \<times> string \<times> payload"

text \<open>The exception of a call, if any, and the state it leaves.\<close>

type_synonym 'p publisher = "string \<Rightarrow> string \<Rightarrow> payload \<Rightarrow> 'p \<Rightarrow> exn option \<times> 'p"

definition mem_producer_init :: "record_sent list" where
  "mem_producer_init = []"

definition mem_publish :: "record_sent list publisher" where
  "mem_publish topic key message published = (None, published @ [(topic, key, message)])"

text \<open>The classes \<open>Producer\<close> and \<open>Consumer\<close> of confluent-kafka, as far as they are called.\<close>

type_synonym kafka_record = "string \<times> bytes \<times> bytes"

record 'k confluent_producer =
  cp_new :: "(string \<times> json) list \<Rightarrow> 'k"
  cp_produce :: "string \<Rightarrow> bytes \<Rightarrow> bytes \<Rightarrow> 'k \<Rightarrow> exn option \<times> 'k"
  cp_flush :: "'k \<Rightarrow> 'k"

datatype kafka_event = NoMessage | MessageError | Message "bytes option"

record 'k confluent_consumer =
  cc_new :: "(string \<times> json) list \<Rightarrow> 'k"
  cc_subscribe :: "string list \<Rightarrow> 'k \<Rightarrow> 'k"
  cc_poll :: "'k \<Rightarrow> kafka_event \<times> 'k"
  cc_commit :: "'k \<Rightarrow> exn option \<times> 'k"
  cc_close :: "'k \<Rightarrow> 'k"

definition kafka_producer_init :: "'k confluent_producer \<Rightarrow> string \<Rightarrow> 'k" where
  "kafka_producer_init lib bootstrap_servers = cp_new lib [(''bootstrap.servers'', JStr bootstrap_servers)]"

definition kafka_publish ::
  "'k confluent_producer \<Rightarrow> (int \<Rightarrow> int \<Rightarrow> string) \<Rightarrow> (payload \<Rightarrow> jtree) \<Rightarrow> 'k publisher" where
  "kafka_publish lib float_str layout topic key message k =
     (case json_dumps float_str (layout message) of
        Inl e \<Rightarrow> (Some e, k)
      | Inr val \<Rightarrow>
          (case cp_produce lib topic (utf8_encode key) (utf8_encode val) k of
             (Some e, k') \<Rightarrow> (Some e, k')
           | (None, k') \<Rightarrow> (None, cp_flush lib k')))"

definition kafka_producer_close :: "'k confluent_producer \<Rightarrow> 'k \<Rightarrow> 'k" where
  "kafka_producer_close lib k = cp_flush lib k"

definition kafka_consumer_init :: "'k confluent_consumer \<Rightarrow> string \<Rightarrow> string \<Rightarrow> string \<Rightarrow> 'k" where
  "kafka_consumer_init lib bootstrap_servers group_id topic = cc_subscribe lib [topic]
     (cc_new lib [(''bootstrap.servers'', JStr bootstrap_servers), (''group.id'', JStr group_id),
        (''enable.auto.commit'', JBool False), (''auto.offset.reset'', JStr ''earliest'')])"

text \<open>
  \<open>json.loads(value.decode("utf-8"))\<close>: both raise a \<open>ValueError\<close> on bad input; \<open>None\<close> stands for a value with characters that
  this model does not have. A record without a value has none to decode.
\<close>

definition decode_value :: "(string \<Rightarrow> json) \<Rightarrow> bytes \<Rightarrow> (exn + json) option" where
  "decode_value flt bs = (case and_read (utf8_decode bs) (json_loads flt) of
      Decoded v \<Rightarrow> Some (Inr v)
    | Invalid \<Rightarrow> Some (Inl ValueError)
    | _ \<Rightarrow> None)"

text \<open>\<open>None\<close> of Python and the decoded \<open>null\<close> are the same value.\<close>

definition read_event :: "(string \<Rightarrow> json) \<Rightarrow> kafka_event \<Rightarrow> (exn + json) option" where
  "read_event flt msg = (case msg of
      NoMessage \<Rightarrow> Some (Inr JNull)
    | MessageError \<Rightarrow> Some (Inr JNull)
    | Message None \<Rightarrow> Some (Inl AttributeError)
    | Message (Some bs) \<Rightarrow> decode_value flt bs)"

definition kafka_poll ::
  "'k confluent_consumer \<Rightarrow> (string \<Rightarrow> json) \<Rightarrow> 'k \<Rightarrow> (exn + json) option \<times> 'k" where
  "kafka_poll lib flt k = (let (msg, k') = cc_poll lib k in (read_event flt msg, k'))"

definition kafka_commit :: "'k confluent_consumer \<Rightarrow> 'k \<Rightarrow> exn option \<times> 'k" where
  "kafka_commit lib k = cc_commit lib k"

definition kafka_consumer_close :: "'k confluent_consumer \<Rightarrow> 'k \<Rightarrow> 'k" where
  "kafka_consumer_close lib k = cc_close lib k"

section \<open>Producers that do not fail\<close>

locale producer =
  fixes publish :: "'p publisher"
    and sent :: "'p \<Rightarrow> record_sent list"
  assumes publish_sends: "fst (publish topic key message p) = None"
    and publish_appends: "sent (snd (publish topic key message p)) = sent p @ [(topic, key, message)]"

interpretation mem_producer: producer mem_publish "\<lambda>p. p"
  by unfold_locales (simp_all add: mem_publish_def)

section \<open>Messages through Kafka\<close>

text \<open>
  A client library that delivers: a produced record is at the end of the topic once the queue is flushed. And one that
  loses every record: the broker never acknowledges it, which \<open>produce\<close> and \<open>flush\<close> do not raise (failed deliveries are
  reported to a callback, and \<open>flush\<close> returns the number of records that are left).
\<close>

definition delivers :: "'k confluent_producer \<Rightarrow> ('k \<Rightarrow> kafka_record list) \<Rightarrow> bool" where
  "delivers lib topics \<longleftrightarrow> (\<forall>topic key val k. \<exists>k'. cp_produce lib topic key val k = (None, k') \<and>
     topics (cp_flush lib k') = topics k @ [(topic, key, val)])"

definition loses :: "'k confluent_producer \<Rightarrow> ('k \<Rightarrow> kafka_record list) \<Rightarrow> bool" where
  "loses lib topics \<longleftrightarrow> (\<forall>topic key val k. \<exists>k'. cp_produce lib topic key val k = (None, k') \<and>
     topics (cp_flush lib k') = topics k)"

text \<open>The tree of a dictionary that can be printed and read back.\<close>

definition lays_out :: "(payload \<Rightarrow> jtree) \<Rightarrow> payload \<Rightarrow> bool" where
  "lays_out layout m \<longleftrightarrow> to_json (layout m) = JObj m \<and> float_free (layout m)"

lemma kafka_publish_cases:
  assumes "delivers lib topics" "lays_out layout m"
  obtains "kafka_publish lib float_str layout topic key m k = (Some ValueError, k)" "\<not> ints_print (layout m)"
    | k' val where "kafka_publish lib float_str layout topic key m k = (None, k')" "ints_print (layout m)"
      "topics k' = topics k @ [(topic, utf8_encode key, val)]" "decode_value flt val = Some (Inr (JObj m))"
proof (cases "ints_print (layout m)")
  case False
  then show ?thesis using that(1) by (simp add: kafka_publish_def json_dumps_def)
next
  case True
  let ?val = "utf8_encode (dumps_str float_str (layout m))"
  obtain k' where k': "cp_produce lib topic (utf8_encode key) ?val k = (None, k')"
    "topics (cp_flush lib k') = topics k @ [(topic, utf8_encode key, ?val)]"
    using assms(1) unfolding delivers_def by blast
  have "decode_value flt ?val = Some (Inr (JObj m))"
    using json_loads_dumps [of "layout m" flt float_str] assms(2) True
    by (simp add: decode_value_def plain_def lays_out_def)
  with that(2) k' True show ?thesis by (simp add: kafka_publish_def json_dumps_def)
qed

text \<open>The envelope in the order in which \<open>build_envelope\<close> writes it, and in which \<open>jsonb\<close> keeps it.\<close>

definition envelope_tree :: "int \<Rightarrow> string \<Rightarrow> jtree" where
  "envelope_tree job_id job_type = TObj [(''job_id'', TInt job_id), (''job_type'', TStr job_type)]"

lemma envelope_tree_json: "to_json (envelope_tree i t) = JObj (build_envelope i t)"
  by (auto simp: envelope_tree_def build_envelope_def fmap_of_list.rep_eq intro!: fmap_ext)

text \<open>A layout that does so.\<close>

definition envelope_layout :: "payload \<Rightarrow> jtree" where
  "envelope_layout m = (case (fmlookup m ''job_id'', fmlookup m ''job_type'') of
      (Some (JInt i), Some (JStr jt)) \<Rightarrow> envelope_tree i jt
    | _ \<Rightarrow> TObj [])"

lemma envelope_layout_envelope: "envelope_layout (build_envelope i jt) = envelope_tree i jt"
  by (simp add: envelope_layout_def)

lemma envelope_layout_ok: "\<forall>i jt. lays_out envelope_layout (build_envelope i jt)"
  by (simp add: lays_out_def envelope_layout_envelope envelope_tree_json) (simp add: envelope_tree_def)

section \<open>Properties\<close>

text \<open>Clients for examples: one appends every record to its topic at once, one drops every record.\<close>

definition direct_client :: "kafka_record list confluent_producer" where
  "direct_client = \<lparr>cp_new = (\<lambda>_. []), cp_produce = (\<lambda>topic key val log. (None, log @ [(topic, key, val)])),
     cp_flush = (\<lambda>log. log)\<rparr>"

definition lossy_client :: "kafka_record list confluent_producer" where
  "lossy_client = \<lparr>cp_new = (\<lambda>_. []), cp_produce = (\<lambda>topic key val log. (None, log)), cp_flush = (\<lambda>log. log)\<rparr>"

definition reading_client :: "kafka_record list confluent_consumer" where
  "reading_client = \<lparr>cc_new = (\<lambda>_. []), cc_subscribe = (\<lambda>_ log. log),
     cc_poll = (\<lambda>log. case log of [] \<Rightarrow> (NoMessage, []) | (topic, key, val) # log' \<Rightarrow> (Message (Some val), log')),
     cc_commit = (\<lambda>log. (None, log)), cc_close = (\<lambda>log. log)\<rparr>"

lemma example_clients [simp]: "delivers direct_client (\<lambda>log. log)" "loses lossy_client (\<lambda>log. log)"
  by (simp_all add: delivers_def loses_def direct_client_def lossy_client_def)

text \<open>
  C18. A message survives Kafka: with a client library that delivers, \<open>KafkaProducer.publish\<close> of a dictionary without floats appends one
  record under its key to the topic, and \<open>KafkaConsumer.poll\<close> of a consumer that is handed this record returns an equal
  dictionary. Only an integer too long to be printed makes \<open>publish\<close> raise, and then nothing is sent.
\<close>

theorem kafka_round_trip:
  assumes "delivers lib topics" "lays_out layout m"
  shows "case kafka_publish lib float_str layout topic key m k of
      (None, k') \<Rightarrow> ints_print (layout m) \<and>
        (\<exists>val. topics k' = topics k @ [(topic, utf8_encode key, val)] \<and>
          (\<forall>c c'. cc_poll reader c = (Message (Some val), c') \<longrightarrow>
             kafka_poll reader flt c = (Some (Inr (JObj m)), c')))
    | (Some e, k') \<Rightarrow> e = ValueError \<and> k' = k \<and> \<not> ints_print (layout m)"
  using assms
proof (cases rule: kafka_publish_cases [where flt = flt and float_str = float_str and topic = topic and key = key and k = k])
  case 1
  then show ?thesis by simp
next
  case (2 k' val)
  then show ?thesis by (auto simp: kafka_poll_def read_event_def)
qed

theorem kafka_round_trip_witness:
  "let log = snd (kafka_publish direct_client (\<lambda>_ _. []) (\<lambda>_. envelope_tree 7 ''hello'') ''jobs'' ''7''
         (build_envelope 7 ''hello'') [])
   in length log = 1 \<and> fst (kafka_poll reading_client (\<lambda>_. JNull) log) = Some (Inr (JObj (build_envelope 7 ''hello'')))"
proof -
  let ?pub = "kafka_publish direct_client (\<lambda>_ _. []) (\<lambda>_. envelope_tree 7 ''hello'') ''jobs'' ''7'' (build_envelope 7 ''hello'') []"
  have ok: "int_prints 7" by code_simp
  have lay: "lays_out (\<lambda>_. envelope_tree 7 ''hello'') (build_envelope 7 ''hello'')"
    unfolding lays_out_def by (simp add: envelope_tree_json) (simp add: envelope_tree_def)
  have poll: "cc_poll reading_client [(''jobs'', utf8_encode ''7'', val)] = (Message (Some val), [])" for val
    by (simp add: reading_client_def)
  have "ints_print (envelope_tree 7 ''hello'')" using ok by (simp add: envelope_tree_def)
  with kafka_round_trip [OF example_clients(1) lay, where float_str = "\<lambda>_ _. []" and topic = "''jobs''" and key = "''7''"
      and k = "[]" and reader = reading_client and flt = "\<lambda>_. JNull"]
  obtain val where "snd ?pub = [(''jobs'', utf8_encode ''7'', val)]"
    "kafka_poll reading_client (\<lambda>_. JNull) [(''jobs'', utf8_encode ''7'', val)] = (Some (Inr (JObj (build_envelope 7 ''hello''))), [])"
    using poll by (auto split: prod.splits option.splits)
  then show ?thesis by (simp add: Let_def)
qed

end
