(* ===== verification/Dispatcher.thy ===== *)
theory Dispatcher
  imports Memory_Store Postgres_Store Messaging
begin

text \<open>
  \<open>dispatcher/service.py\<close> and the loop of \<open>dispatcher/__main__.py\<close>: drain the outbox to Kafka. The
  functions take the store's operations and the producer's \<open>publish\<close>, as the source takes any
  \<open>Store\<close> and any \<open>Producer\<close>.
\<close>

section \<open>Definitions\<close>

text \<open>
  The \<open>for\<close> loop of \<open>dispatch_once\<close>: publish first, then mark. An exception of the producer leaves the loop at once, with
  what was done before it.
\<close>

fun dispatch_messages ::
  "'s store_ops \<Rightarrow> 'p publisher \<Rightarrow> string \<Rightarrow> clock \<Rightarrow> outbox_message list \<Rightarrow> 's \<Rightarrow> 'p \<Rightarrow> exn option \<times> 's \<times> 'p" where
  "dispatch_messages ops publish topic clk [] s p = (None, s, p)"
| "dispatch_messages ops publish topic clk (msg # msgs) s p =
     (case publish topic (int_str (om_job_id msg)) (om_payload msg) p of
        (Some e, p') \<Rightarrow> (Some e, s, p')
      | (None, p') \<Rightarrow>
          let s' = op_mark_dispatched ops (clk 0) (om_id msg) (om_job_id msg) s
          in dispatch_messages ops publish topic (clk \<circ> Suc) msgs s' p')"

definition dispatch_once ::
  "'s store_ops \<Rightarrow> 'p publisher \<Rightarrow> string \<Rightarrow> int \<Rightarrow> clock \<Rightarrow> 's \<Rightarrow> 'p \<Rightarrow> (exn + nat) \<times> 's \<times> 'p" where
  "dispatch_once ops publish topic batch_size clk s p =
     (case op_fetch_unpublished ops batch_size s of
        Inl e \<Rightarrow> (Inl e, s, p)
      | Inr messages \<Rightarrow>
          let (e, s', p') = dispatch_messages ops publish topic clk messages s p
          in (case e of None \<Rightarrow> Inr (length messages) | Some e \<Rightarrow> Inl e, s', p'))"

text \<open>
  The service loop, for a given number of rounds: after an empty round it sleeps for the poll
  interval. An exception ends the loop. The result also gives the number of sleeps.
\<close>

fun dispatcher_loop ::
  "'s store_ops \<Rightarrow> 'p publisher \<Rightarrow> string \<Rightarrow> int \<Rightarrow> (nat \<Rightarrow> clock) \<Rightarrow> nat \<Rightarrow> 's \<Rightarrow> 'p \<Rightarrow> exn option \<times> nat \<times> 's \<times> 'p" where
  "dispatcher_loop ops publish topic batch_size clks 0 s p = (None, 0, s, p)"
| "dispatcher_loop ops publish topic batch_size clks (Suc n) s p =
     (case dispatch_once ops publish topic batch_size (clks 0) s p of
        (Inl e, s', p') \<Rightarrow> (Some e, 0, s', p')
      | (Inr sent, s', p') \<Rightarrow>
          let (e, sleeps, s'', p'') = dispatcher_loop ops publish topic batch_size (clks \<circ> Suc) n s' p'
          in (e, (if sent = 0 then 1 else 0) + sleeps, s'', p''))"

text \<open>What a published message looks like: topic, key and value.\<close>

definition wire :: "string \<Rightarrow> outbox_message \<Rightarrow> record_sent" where
  "wire topic m = (topic, int_str (om_job_id m), om_payload m)"

text \<open>The row of a job after its message has been marked.\<close>

definition dispatched_as :: "job \<Rightarrow> job \<Rightarrow> bool" where
  "dispatched_as b b' \<longleftrightarrow> (\<exists>t. b' = (if j_status b = QUEUED
     then b\<lparr>j_status := DISPATCHED, j_updated_at := t\<rparr> else b))"

text \<open>
  What a round does to the producer alone: it publishes the messages in their order up to the first exception; the number
  counts the messages that went through.
\<close>

fun publish_all ::
  "'p publisher \<Rightarrow> string \<Rightarrow> outbox_message list \<Rightarrow> 'p \<Rightarrow> exn option \<times> nat \<times> 'p" where
  "publish_all publish topic [] p = (None, 0, p)"
| "publish_all publish topic (m # ms) p =
     (case publish topic (int_str (om_job_id m)) (om_payload m) p of
        (Some e, p') \<Rightarrow> (Some e, 0, p')
      | (None, p') \<Rightarrow> (let (e, k, p'') = publish_all publish topic ms p' in (e, Suc k, p'')))"

lemma publish_all_count:
  "publish_all publish topic ms p = (e, k, p') \<Longrightarrow> k \<le> length ms \<and> (e = None \<longleftrightarrow> k = length ms)"
  by (induction ms arbitrary: p k) (auto split: prod.splits option.splits)

lemma publish_all_append:
  "publish_all publish topic ms p = (None, k, p') \<Longrightarrow>
   publish_all publish topic (ms @ ms') p = (case publish_all publish topic ms' p' of (e, l, p'') \<Rightarrow> (e, k + l, p''))"
  by (induction ms arbitrary: p k) (auto split: prod.splits option.splits)

context producer
begin

lemma publish_all_sends:
  "\<exists>p'. publish_all publish topic ms p = (None, length ms, p') \<and> sent p' = sent p @ map (wire topic) ms"
proof (induction ms arbitrary: p)
  case (Cons m ms)
  obtain q where q: "publish topic (int_str (om_job_id m)) (om_payload m) p = (None, q)"
    "sent q = sent p @ [wire topic m]"
    using publish_sends publish_appends unfolding wire_def by (metis prod.collapse)
  with Cons.IH [of q] show ?case by auto
qed simp

end

text \<open>A record that carries a message: its topic, its key, and a value that is read as the message.\<close>

definition carries :: "(string \<Rightarrow> json) \<Rightarrow> string \<Rightarrow> outbox_message \<Rightarrow> kafka_record \<Rightarrow> bool" where
  "carries flt topic m rec \<longleftrightarrow> (\<exists>val. rec = (topic, utf8_encode (int_str (om_job_id m)), val) \<and>
     decode_value flt val = Some (Inr (JObj (om_payload m))))"

lemma kafka_publish_all:
  assumes "delivers lib topics" "\<forall>m \<in> set ms. lays_out layout (om_payload m)"
    and "publish_all (kafka_publish lib float_str layout) topic ms k = (e, n, k')"
  shows "\<exists>recs. topics k' = topics k @ recs \<and> list_all2 (carries flt topic) (take n ms) recs"
  using assms(2,3)
proof (induction ms arbitrary: k n)
  case (Cons m ms)
  from Cons.prems(1) have lay: "lays_out layout (om_payload m)" by simp
  show ?case
  proof (cases rule: kafka_publish_cases [OF assms(1) lay, where flt = flt and float_str = float_str and topic = topic
        and key = "int_str (om_job_id m)" and k = k])
    case 1
    with Cons.prems(2) show ?thesis by simp
  next
    case (2 q val)
    then obtain l where l: "publish_all (kafka_publish lib float_str layout) topic ms q = (e, l, k')" "n = Suc l"
      using Cons.prems(2) by (auto split: prod.splits)
    from Cons.IH [OF _ l(1)] Cons.prems(1) obtain recs where "topics k' = topics q @ recs"
      "list_all2 (carries flt topic) (take l ms) recs" by auto
    with 2 l(2) show ?thesis
      by (intro exI [of _ "(topic, utf8_encode (int_str (om_job_id m)), val) # recs"]) (auto simp: carries_def [of _ _ m])
  qed
qed simp

lemma lost_publish_all:
  assumes "loses lib topics" "publish_all (kafka_publish lib float_str layout) topic ms k = (e, n, k')"
  shows "topics k' = topics k"
proof -
  have one: "topics (snd (kafka_publish lib float_str layout topic key m k)) = topics k" for key m k
    using assms(1) [unfolded loses_def, rule_format, of topic "utf8_encode key" "utf8_encode (dumps_str float_str (layout m))" k]
    by (auto simp: kafka_publish_def json_dumps_def)
  from assms(2) show ?thesis
  proof (induction ms arbitrary: k n)
    case (Cons m ms)
    with one [of "int_str (om_job_id m)" "om_payload m" k] show ?case
      by (auto split: prod.splits option.splits)
  qed simp
qed

section \<open>Marking a batch\<close>

lemma spec_mark_jobs:
  "a_jobs (spec_mark now k j a) i = (if i = j then map_option (\<lambda>b. if j_status b = QUEUED
      then b\<lparr>j_status := DISPATCHED, j_updated_at := now\<rparr> else b) (a_jobs a i) else a_jobs a i)"
  by (simp add: spec_mark_def a_guarded_at)

lemma spec_mark_config [simp]: "a_config (spec_mark now k j a) = a_config a"
  by (simp add: spec_mark_def)

lemma dispatched_as_refl: "j_status b \<noteq> QUEUED \<Longrightarrow> dispatched_as b b"
  by (simp add: dispatched_as_def)

lemma pending_job_unique:
  assumes "a_wf a" "m \<in> set (a_pending a)" "m' \<in> set (a_pending a)" "om_job_id m = om_job_id m'"
  shows "m = m'"
proof -
  note m = a_pending_outbox [OF assms(1,2)] and m' = a_pending_outbox [OF assms(1,3)]
  have "om_id m = om_id m'" by (rule a_wf_message_unique [OF assms(1) m m' assms(4)])
  with m m' show ?thesis by (metis option.inject prod.inject)
qed

lemma pending_job_distinct:
  assumes "a_wf a" "a_pending a = (m # ms) @ rest"
  shows "om_job_id m \<notin> om_job_id ` set ms"
proof
  assume "om_job_id m \<in> om_job_id ` set ms"
  then obtain m' where m': "m' \<in> set ms" "om_job_id m' = om_job_id m" by auto
  then have "m = m'" by (intro pending_job_unique [OF assms(1)]) (simp_all add: assms(2))
  moreover have "sorted_wrt (<) (map om_id (m # ms))"
    using a_pending_sorted [OF assms(1)] by (simp add: assms(2) sorted_wrt_append)
  ultimately show False using m'(1) by auto
qed

text \<open>Marking a row and then others, each once, marks them all.\<close>

lemma mark_then_rows:
  assumes "a_jobs a (om_job_id m) = Some b" "om_job_id m \<notin> om_job_id ` set ms"
    and frame: "\<forall>i. i \<notin> om_job_id ` set ms \<longrightarrow> a_jobs a' i = a_jobs (spec_mark t k (om_job_id m) a) i"
    and rows: "\<forall>x \<in> set ms. \<exists>c c'. a_jobs (spec_mark t k (om_job_id m) a) (om_job_id x) = Some c \<and>
      a_jobs a' (om_job_id x) = Some c' \<and> dispatched_as c c'"
  shows "\<forall>x \<in> set (m # ms). \<exists>c c'. a_jobs a (om_job_id x) = Some c \<and> a_jobs a' (om_job_id x) = Some c' \<and> dispatched_as c c'"
proof
  fix x
  assume x: "x \<in> set (m # ms)"
  show "\<exists>c c'. a_jobs a (om_job_id x) = Some c \<and> a_jobs a' (om_job_id x) = Some c' \<and> dispatched_as c c'"
  proof (cases "x = m")
    case True
    with frame assms(1,2) show ?thesis by (auto simp: spec_mark_jobs dispatched_as_def)
  next
    case False
    with x have x: "x \<in> set ms" by simp
    then have "om_job_id x \<noteq> om_job_id m" using assms(2) by (metis imageI)
    with rows x show ?thesis by (auto simp: spec_mark_jobs)
  qed
qed

context job_store
begin

lemma dispatch_messages_spec:
  assumes "inv s" "a_pending (abs s) = ms @ rest"
    and "dispatch_messages ops publish topic clk ms s p = (e, s', p')"
    and "publish_all publish topic ms p = (e', k, p'')"
  shows "e = e' \<and> p' = p'' \<and> inv s' \<and> a_pending (abs s') = drop k ms @ rest \<and> a_config (abs s') = a_config (abs s) \<and>
    a_evolves (abs s) (abs s') \<and> (a_capped (abs s) \<longrightarrow> a_capped (abs s')) \<and>
    (\<forall>j. j \<notin> om_job_id ` set (take k ms) \<longrightarrow> a_jobs (abs s') j = a_jobs (abs s) j) \<and>
    (\<forall>m \<in> set (take k ms). \<exists>b b'. a_jobs (abs s) (om_job_id m) = Some b \<and>
       a_jobs (abs s') (om_job_id m) = Some b' \<and> dispatched_as b b')"
  using assms
proof (induction ms arbitrary: clk s p k)
  case Nil
  then show ?case by auto
next
  case (Cons m ms)
  let ?j = "om_job_id m"
  let ?s = "op_mark_dispatched ops (clk 0) (om_id m) ?j s"
  obtain raised q where pub: "publish topic (int_str ?j) (om_payload m) p = (raised, q)" by fastforce
  show ?case
  proof (cases raised)
    case (Some x)
    with Cons.prems pub show ?thesis by auto
  next
    case None
    obtain l where l: "publish_all publish topic ms q = (e', l, p'')" "k = Suc l"
      using Cons.prems(4) pub None by (auto split: prod.splits)
    have wf: "a_wf (abs s)" using Cons.prems(1) by (rule inv_wf)
    have out: "a_outbox (abs s) (om_id m) = Some (m, False)"
      by (rule a_pending_outbox [OF wf]) (simp add: Cons.prems(2))
    obtain b where b: "a_jobs (abs s) ?j = Some b" using wf out by (rule a_wf_message_job)
    from mark [OF Cons.prems(1) out, of "clk 0"]
    have inv': "inv ?s" and abs': "abs ?s = spec_mark (clk 0) (om_id m) ?j (abs s)" by auto
    have pend: "a_pending (abs ?s) = ms @ rest"
      unfolding abs' by (rule a_pending_mark [OF wf]) (simp add: Cons.prems(2))
    from Cons.prems(3) pub None have run: "dispatch_messages ops publish topic (clk \<circ> Suc) ms ?s q = (e, s', p')"
      by (simp add: Let_def)
    note IH = Cons.IH [OF inv' pend run l(1)]
    have other: "?j \<notin> om_job_id ` set (take l ms)"
      using pending_job_distinct [OF wf Cons.prems(2)] by (auto dest: in_set_takeD)
    have rows: "\<forall>x \<in> set (m # take l ms). \<exists>b b'. a_jobs (abs s) (om_job_id x) = Some b \<and>
        a_jobs (abs s') (om_job_id x) = Some b' \<and> dispatched_as b b'"
      by (rule mark_then_rows [OF b other, where t = "clk 0" and k = "om_id m"]) (use IH in \<open>simp_all add: abs'\<close>)
    have "a_evolves (abs s) (abs s')" using IH spec_mark_evolves a_evolves_trans unfolding abs' by blast
    moreover have "a_capped (abs s) \<longrightarrow> a_capped (abs s')" using IH spec_mark_capped unfolding abs' by blast
    moreover have "\<forall>j. j \<notin> om_job_id ` set (take k (m # ms)) \<longrightarrow> a_jobs (abs s') j = a_jobs (abs s) j"
      using IH by (simp add: abs' spec_mark_jobs l(2))
    ultimately show ?thesis using IH rows by (simp add: abs' l(2))
  qed
qed

lemma dispatch_once_spec:
  assumes "inv s" "0 \<le> n" "dispatch_once ops publish topic n clk s p = (r, s', p')"
    and "publish_all publish topic (take (nat n) (a_pending (abs s))) p = (e, k, p'')"
  shows "r = (case e of None \<Rightarrow> Inr (min (nat n) (length (a_pending (abs s)))) | Some e \<Rightarrow> Inl e)"
    and "inv s'" and "a_pending (abs s') = drop k (a_pending (abs s))"
    and "p' = p''"
    and "a_evolves (abs s) (abs s')" and "a_capped (abs s) \<Longrightarrow> a_capped (abs s')"
    and "\<And>j. j \<notin> om_job_id ` set (take k (a_pending (abs s))) \<Longrightarrow> a_jobs (abs s') j = a_jobs (abs s) j"
    and "\<And>m. m \<in> set (take k (a_pending (abs s))) \<Longrightarrow>
       \<exists>b b'. a_jobs (abs s) (om_job_id m) = Some b \<and> a_jobs (abs s') (om_job_id m) = Some b' \<and>
         dispatched_as b b'"
proof -
  let ?ms = "take (nat n) (a_pending (abs s))"
  have f: "op_fetch_unpublished ops n s = Inr ?ms" by (rule fetch [OF assms(1,2)])
  obtain e' where run: "dispatch_messages ops publish topic clk ?ms s p = (e', s', p')"
    and r: "r = (case e' of None \<Rightarrow> Inr (length ?ms) | Some e \<Rightarrow> Inl e)"
    using assms(3) by (auto simp: dispatch_once_def f Let_def split: prod.splits)
  have split: "a_pending (abs s) = ?ms @ drop (nat n) (a_pending (abs s))" by simp
  note spec = dispatch_messages_spec [OF assms(1) split run assms(4)]
  have k: "k \<le> nat n" "k \<le> length (a_pending (abs s))" using publish_all_count [OF assms(4)] by auto
  then have take: "take k ?ms = take k (a_pending (abs s))" by (simp add: min_def)
  have drop: "drop k ?ms @ drop (nat n) (a_pending (abs s)) = drop k (a_pending (abs s))"
    using k(1) by (rule drop_take_drop)
  show "r = (case e of None \<Rightarrow> Inr (min (nat n) (length (a_pending (abs s)))) | Some e \<Rightarrow> Inl e)"
    using r spec by (cases e) (simp_all add: min.commute)
  show "inv s'" "p' = p''" "a_evolves (abs s) (abs s')" using spec by auto
  show "a_pending (abs s') = drop k (a_pending (abs s))" using spec drop by simp
  show "a_capped (abs s) \<Longrightarrow> a_capped (abs s')" using spec by auto
  show "\<And>j. j \<notin> om_job_id ` set (take k (a_pending (abs s))) \<Longrightarrow> a_jobs (abs s') j = a_jobs (abs s) j"
    using spec unfolding take by blast
  show "\<And>m. m \<in> set (take k (a_pending (abs s))) \<Longrightarrow> \<exists>b b'. a_jobs (abs s) (om_job_id m) = Some b \<and>
      a_jobs (abs s') (om_job_id m) = Some b' \<and> dispatched_as b b'" using spec unfolding take by blast
qed

lemma dispatch_once_success:
  assumes "inv s" "0 \<le> n" "dispatch_once ops publish topic n clk s p = (Inr sent, s', p')"
  shows "publish_all publish topic (take (nat n) (a_pending (abs s))) p =
    (None, min (nat n) (length (a_pending (abs s))), p')"
proof -
  obtain e k q where all: "publish_all publish topic (take (nat n) (a_pending (abs s))) p = (e, k, q)" by (metis prod_cases3)
  from dispatch_once_spec(1,4) [OF assms all] have "e = None" "p' = q" by (auto split: option.splits)
  with all publish_all_count [OF all] show ?thesis by (simp add: min.commute)
qed

lemma dispatcher_loop_spec:
  assumes "inv s" "0 < n"
    and "\<And>ms p. set ms \<subseteq> set (a_pending (abs s)) \<Longrightarrow> fst (publish_all publish topic ms p) = None"
    and "dispatcher_loop ops publish topic n clks r s p = (e, sleeps, s', p')"
  shows "e = None \<and> inv s' \<and> a_pending (abs s') = drop (r * nat n) (a_pending (abs s)) \<and>
    snd (snd (publish_all publish topic (take (r * nat n) (a_pending (abs s))) p)) = p'"
  using assms(1,3,4)
proof (induction r arbitrary: clks s p sleeps)
  case (Suc r)
  let ?pend = "a_pending (abs s)"
  obtain res s1 p1 where one: "dispatch_once ops publish topic n (clks 0) s p = (res, s1, p1)" by (metis prod_cases3)
  obtain k q where all: "publish_all publish topic (take (nat n) ?pend) p = (None, k, q)"
    using Suc.prems(2) [of "take (nat n) ?pend" p] by (metis prod.collapse set_take_subset)
  have k: "k = length (take (nat n) ?pend)" using publish_all_count [OF all] by simp
  note step = dispatch_once_spec [OF Suc.prems(1) less_imp_le [OF assms(2)] one all]
  obtain sl where rest: "dispatcher_loop ops publish topic n (clks \<circ> Suc) r s1 p1 = (e, sl, s', p')"
    using Suc.prems(3) one step(1) by (auto simp: Let_def split: prod.splits)
  have left: "a_pending (abs s1) = drop (nat n) ?pend" by (simp add: step(3) k min_def)
  have "fst (publish_all publish topic ms p) = None" if "set ms \<subseteq> set (a_pending (abs s1))" for ms p
    using that set_drop_subset [of "nat n" ?pend] by (intro Suc.prems(2)) (auto simp: left)
  from Suc.IH [OF step(2) this rest] publish_all_append [OF all] step(4) left show ?case
    by (auto simp: take_add add.commute split: prod.splits)
qed simp

end

section \<open>Properties\<close>

lemma mem_publish_all:
  "publish_all mem_publish topic ms log = (None, length ms, log @ map (wire topic) ms)"
  using mem_producer.publish_all_sends [of topic ms log] by auto

text \<open>
  C8. One dispatch round on the Postgres store, with any producer. The first \<open>batch_size\<close> unpublished messages are published
  in the order of their ids, up to the first one that the producer refuses. Exactly the messages that went through leave the
  outbox, and each of their jobs turns from queued to dispatched (a job a worker claimed early keeps its status); no
  other job changes. The round returns the size of the batch, or raises what the producer raised.
\<close>

theorem pg_dispatch_once_correct:
  assumes "pg_inv db" "0 \<le> n" "dispatch_once pg_ops publish topic n clk db p = (r, db', p')"
    and "publish_all publish topic (take (nat n) (a_pending (pg_abs db))) p = (e, k, p'')"
  shows "r = (case e of None \<Rightarrow> Inr (min (nat n) (length (a_pending (pg_abs db)))) | Some e \<Rightarrow> Inl e) \<and>
    pg_inv db' \<and> p' = p'' \<and> a_pending (pg_abs db') = drop k (a_pending (pg_abs db)) \<and>
    (\<forall>j. j \<notin> om_job_id ` set (take k (a_pending (pg_abs db))) \<longrightarrow> pg_get_job j db' = pg_get_job j db) \<and>
    (\<forall>m \<in> set (take k (a_pending (pg_abs db))). \<exists>b b'. pg_get_job (om_job_id m) db = Some b \<and>
       pg_get_job (om_job_id m) db' = Some b' \<and> dispatched_as b b')"
  unfolding pg_get_job_abs
  by (intro conjI allI ballI impI; (rule pg.dispatch_once_spec [OF assms]; assumption?))

text \<open>A producer that refuses every message, and the round it stops.\<close>

definition refuse :: "nat publisher" where
  "refuse topic key message n = (Some (RuntimeError ''queue full''), Suc n)"

theorem pg_dispatch_once_witness:
  "fst (dispatch_once pg_ops mem_publish ''jobs'' 10 (\<lambda>_. 5) demo_db []) = Inr 1 \<and>
   a_pending (pg_abs (fst (snd (dispatch_once pg_ops mem_publish ''jobs'' 10 (\<lambda>_. 5) demo_db [])))) = [] \<and>
   a_pending (pg_abs (fst (snd (dispatch_once pg_ops refuse ''jobs'' 10 (\<lambda>_. 5) demo_db 0)))) = a_pending (pg_abs demo_db)"
proof -
  let ?r = "dispatch_once pg_ops mem_publish ''jobs'' 10 (\<lambda>_. 5) demo_db []"
  let ?f = "dispatch_once pg_ops refuse ''jobs'' 10 (\<lambda>_. 5) demo_db (0 :: nat)"
  have one: "fst ?r = Inr 1" by code_simp
  have eqs: "?r = (fst ?r, fst (snd ?r), snd (snd ?r))" "?f = (fst ?f, fst (snd ?f), snd (snd ?f))" by simp_all
  from pg_dispatch_once_correct [OF pg_inv_demo _ eqs(1) mem_publish_all] one
  have len: "length (a_pending (pg_abs demo_db)) = 1"
    "a_pending (pg_abs (fst (snd ?r))) = drop 1 (a_pending (pg_abs demo_db))" by (auto simp: min_def split: if_splits)
  then obtain m where m: "a_pending (pg_abs demo_db) = [m]" by (auto simp: length_Suc_conv)
  have "publish_all refuse ''jobs'' (take (nat 10) (a_pending (pg_abs demo_db))) 0 = (Some (RuntimeError ''queue full''), 0, 1)"
    by (simp add: m refuse_def)
  from pg_dispatch_once_correct [OF pg_inv_demo _ eqs(2) this]
  have "a_pending (pg_abs (fst (snd ?f))) = a_pending (pg_abs demo_db)" by simp
  with one len m show ?thesis by simp
qed

text \<open>
  With a producer that does not fail, enough rounds for the batch size publish every pending message of the in-memory store, in order and
  exactly once, and leave none.
\<close>

lemma mem_dispatcher_drains:
  assumes "mem_inv s" "0 < n" "length (a_pending (mem_abs s)) \<le> r * nat n"
    and "dispatcher_loop mem_ops mem_publish topic n clks r s log = (e, sleeps, s', log')"
  shows "e = None \<and> a_pending (mem_abs s') = [] \<and> log' = log @ map (wire topic) (a_pending (mem_abs s))"
  using mem.dispatcher_loop_spec [OF assms(1,2) _ assms(4)] assms(3) by (simp add: mem_publish_all)

end
