(* ===== verification/Worker.thy ===== *)
theory Worker
  imports Memory_Store Postgres_Store "HOL-Library.List_Lexorder" "HOL-Library.Char_ord"
begin

text \<open>
  The worker: the registry of job handlers (\<open>worker/registry.py\<close>), the demo handlers
  (\<open>worker/handlers/demo.py\<close>), the processing of one message (\<open>worker/service.py\<close>) and the
  service loop (\<open>worker/__main__.py\<close>).

  A job handler is a Python function of the payload dictionary. Its model returns the dictionary
  as the call leaves it (a handler may write to its argument), what it printed, and the exception
  it raised, if any. Handlers that never return are a worker that stops, in the theory of the whole system.

  The loop's theorem compares it with its rounds stated as an inductive relation (\<open>worked\<close>, \<open>round_raises\<close>). The locales \<open>shared_store\<close> and
  \<open>aliased_store\<close> are the two ways in which a store hands out a payload; each store is one of them.
\<close>

section \<open>Handlers and registry\<close>

record handler_result =
  hr_payload :: payload
  hr_output :: string
  hr_raised :: "exn option"

type_synonym handler = "payload \<Rightarrow> handler_result"
type_synonym registry = "(string \<times> handler) list"
type_synonym lookup = "string \<Rightarrow> handler option"

definition register :: "string \<Rightarrow> handler \<Rightarrow> registry \<Rightarrow> exn + registry" where
  "register job_type fn reg =
     (if job_type \<in> fst ` set reg then Inl ValueError else Inr (AList.update job_type fn reg))"

definition get_handler :: "registry \<Rightarrow> lookup" where
  "get_handler reg job_type = map_of reg job_type"

definition registered_types :: "registry \<Rightarrow> string list" where
  "registered_types reg = sort (map fst reg)"

text \<open>\<open>str(value)\<close> as the f-string of \<open>hello\<close> calls it; \<open>show\<close> prints floats and containers.\<close>

definition value_str :: "(json \<Rightarrow> string) \<Rightarrow> json \<Rightarrow> string" where
  "value_str show v = (case v of
      JStr s \<Rightarrow> s
    | JInt i \<Rightarrow> int_str i
    | JBool b \<Rightarrow> (if b then ''True'' else ''False'')
    | JNull \<Rightarrow> ''None''
    | _ \<Rightarrow> show v)"

definition hello :: "(json \<Rightarrow> string) \<Rightarrow> handler" where
  "hello show p =
     (let name = (case fmlookup p ''name'' of None \<Rightarrow> JStr ''world'' | Some v \<Rightarrow> v)
      in \<lparr>hr_payload = p, hr_output = ''[hello] hello, '' @ value_str show name @ ''!'' @ newline,
          hr_raised = None\<rparr>)"

definition boom :: handler where
  "boom p = \<lparr>hr_payload = p, hr_output = [],
     hr_raised = Some (RuntimeError ''boom: simulated business failure'')\<rparr>"

text \<open>Importing \<open>worker.handlers\<close> registers the demo handlers in the order of the module.\<close>

definition demo_registry :: "(json \<Rightarrow> string) \<Rightarrow> exn + registry" where
  "demo_registry show = (case register ''hello'' (hello show) [] of
      Inl e \<Rightarrow> Inl e
    | Inr reg \<Rightarrow> register ''boom'' boom reg)"

section \<open>Processing one message\<close>

text \<open>The two subscripts of the envelope: \<open>KeyError\<close> on a missing key, and otherwise whatever values are there.\<close>

definition open_envelope :: "payload \<Rightarrow> exn + json \<times> json" where
  "open_envelope envelope = (case fmlookup envelope ''job_id'' of
      None \<Rightarrow> Inl (KeyError ''job_id'')
    | Some job_id \<Rightarrow> (case fmlookup envelope ''job_type'' of
        None \<Rightarrow> Inl (KeyError ''job_type'')
      | Some job_type \<Rightarrow> Inr (job_id, job_type)))"

text \<open>
  The store's methods as the worker calls them, with the values of the envelope as they are; each may raise. The last writes are
  \<open>complete\<close> and \<open>fail\<close>; \<open>jc_handler_wrote\<close> is what a handler's writes to its argument do to the store.
\<close>

record 's job_calls =
  jc_claim :: "time \<Rightarrow> json \<Rightarrow> 's \<Rightarrow> (exn + bool) \<times> 's"
  jc_resolve_payload :: "time \<Rightarrow> json \<Rightarrow> json \<Rightarrow> 's \<Rightarrow> (exn + payload option) \<times> 's"
  jc_handler_wrote :: "json \<Rightarrow> payload \<Rightarrow> 's \<Rightarrow> 's"
  jc_complete :: "time \<Rightarrow> json \<Rightarrow> 's \<Rightarrow> (exn + bool) \<times> 's"
  jc_fail :: "time \<Rightarrow> json \<Rightarrow> 's \<Rightarrow> (exn + bool) \<times> 's"

text \<open>
  \<open>lookup(job_type)\<close> on the registry, a dictionary whose keys are strings: another scalar is not found, and a list or a dictionary cannot be
  hashed.
\<close>

definition find_handler :: "lookup \<Rightarrow> json \<Rightarrow> exn + handler option" where
  "find_handler lookup v = (case v of
      JStr job_type \<Rightarrow> Inr (lookup job_type)
    | JArr _ \<Rightarrow> Inl TypeError
    | JObj _ \<Rightarrow> Inl TypeError
    | _ \<Rightarrow> Inr None)"

definition recorded :: "string \<Rightarrow> (exn + bool) \<times> 's \<Rightarrow> (exn + string) \<times> 's" where
  "recorded outcome = apfst (map_sum id (\<lambda>_. outcome))"

definition process ::
  "'s job_calls \<Rightarrow> lookup \<Rightarrow> clock \<Rightarrow> payload \<Rightarrow> 's \<Rightarrow> (exn + string) \<times> 's" where
  "process C lookup clk envelope s = (case open_envelope envelope of
      Inl e \<Rightarrow> (Inl e, s)
    | Inr (job_id, job_type) \<Rightarrow> (case jc_claim C (clk 0) job_id s of
          (Inl e, s1) \<Rightarrow> (Inl e, s1)
        | (Inr won, s1) \<Rightarrow>
            if \<not> won then (Inr ''skipped'', s1)
            else (case jc_resolve_payload C (clk 1) job_id job_type s1 of
                (Inl e, s2) \<Rightarrow> (Inl e, s2)
              | (Inr None, s2) \<Rightarrow> recorded ''no_config'' (jc_fail C (clk 2) job_id s2)
              | (Inr (Some p), s2) \<Rightarrow> (case find_handler lookup job_type of
                    Inl e \<Rightarrow> (Inl e, s2)
                  | Inr None \<Rightarrow> recorded ''failed'' (jc_fail C (clk 2) job_id s2)
                  | Inr (Some handler) \<Rightarrow>
                      let r = handler p; s3 = jc_handler_wrote C job_id (hr_payload r) s2
                      in (case hr_raised r of
                          Some e \<Rightarrow> recorded ''failed'' (jc_fail C (clk 2) job_id s3)
                        | None \<Rightarrow> recorded ''completed'' (jc_complete C (clk 2) job_id s3))))))"

text \<open>
  A store whose own work never fails, called with values of any type. An integer is an id and a string a type; \<open>null\<close> is
  the id of no row (of no key, in memory). What else a driver or a dictionary makes of other values is the parameter \<open>cv\<close>: the
  id or the type they are taken for, none, or an exception, in which case nothing was done. (In memory any type serves: the
  row's own is used.)
\<close>

record conversion =
  cv_job_id :: "json \<Rightarrow> exn + int option"
  cv_job_type :: "json \<Rightarrow> exn + string option"

definition job_id_arg :: "conversion \<Rightarrow> json \<Rightarrow> exn + int option" where
  "job_id_arg cv v = (case v of JInt i \<Rightarrow> Inr (Some i) | JNull \<Rightarrow> Inr None | _ \<Rightarrow> cv_job_id cv v)"

definition job_type_arg :: "conversion \<Rightarrow> json \<Rightarrow> exn + string option" where
  "job_type_arg cv v = (case v of JStr t \<Rightarrow> Inr (Some t) | _ \<Rightarrow> cv_job_type cv v)"

definition on_arg :: "exn + 'x option \<Rightarrow> 'a \<Rightarrow> ('x \<Rightarrow> 's \<Rightarrow> (exn + 'a) \<times> 's) \<Rightarrow> 's \<Rightarrow> (exn + 'a) \<times> 's" where
  "on_arg arg none call s = (case arg of Inl e \<Rightarrow> (Inl e, s) | Inr None \<Rightarrow> (Inr none, s) | Inr (Some x) \<Rightarrow> call x s)"

definition store_calls :: "conversion \<Rightarrow> 's store_ops \<Rightarrow> 's job_calls" where
  "store_calls cv ops = \<lparr>
     jc_claim = (\<lambda>t i. on_arg (job_id_arg cv i) False (\<lambda>j s. apfst Inr (op_claim ops t j s))),
     jc_resolve_payload = (\<lambda>t i v. on_arg (job_id_arg cv i) None (\<lambda>j.
        on_arg (job_type_arg cv v) None (\<lambda>jt s. apfst Inr (op_resolve_payload ops t j jt s)))),
     jc_handler_wrote = (\<lambda>i p s. case job_id_arg cv i of Inr (Some j) \<Rightarrow> op_handler_wrote ops j p s | _ \<Rightarrow> s),
     jc_complete = (\<lambda>t i. on_arg (job_id_arg cv i) False (\<lambda>j s. apfst Inr (op_complete ops t j s))),
     jc_fail = (\<lambda>t i. on_arg (job_id_arg cv i) False (\<lambda>j s. apfst Inr (op_fail ops t j s)))\<rparr>"

lemma open_envelope_build [simp]: "open_envelope (build_envelope j t) = Inr (JInt j, JStr t)"
  by (simp add: open_envelope_def)

lemma store_calls_simps [simp]:
  "jc_claim (store_calls cv ops) t (JInt j) s = apfst Inr (op_claim ops t j s)"
  "jc_resolve_payload (store_calls cv ops) t (JInt j) (JStr jt) s = apfst Inr (op_resolve_payload ops t j jt s)"
  "jc_handler_wrote (store_calls cv ops) (JInt j) p s = op_handler_wrote ops j p s"
  "jc_complete (store_calls cv ops) t (JInt j) s = apfst Inr (op_complete ops t j s)"
  "jc_fail (store_calls cv ops) t (JInt j) s = apfst Inr (op_fail ops t j s)"
  "jc_claim (store_calls cv ops) t JNull s = (Inr False, s)"
  by (simp_all add: store_calls_def on_arg_def job_id_arg_def job_type_arg_def)

lemma find_handler_JStr [simp]: "find_handler lookup (JStr t) = Inr (lookup t)"
  by (simp add: find_handler_def)

text \<open>So an envelope of the declared types never makes a store raise.\<close>

lemma process_envelope:
  assumes "open_envelope envelope = Inr (JInt j, JStr jt)"
  shows "process (store_calls cv ops) lookup clk envelope s =
     (let (won, s1) = op_claim ops (clk 0) j s in
      if \<not> won then (Inr ''skipped'', s1)
      else let (payload, s2) = op_resolve_payload ops (clk 1) j jt s1 in
        (case payload of
           None \<Rightarrow> (Inr ''no_config'', snd (op_fail ops (clk 2) j s2))
         | Some p \<Rightarrow> (case lookup jt of
             None \<Rightarrow> (Inr ''failed'', snd (op_fail ops (clk 2) j s2))
           | Some handler \<Rightarrow>
               let r = handler p; s3 = op_handler_wrote ops j (hr_payload r) s2 in
               (case hr_raised r of
                  Some e \<Rightarrow> (Inr ''failed'', snd (op_fail ops (clk 2) j s3))
                | None \<Rightarrow> (Inr ''completed'', snd (op_complete ops (clk 2) j s3))))))"
  using assms by (auto simp: process_def recorded_def Let_def apfst_def map_prod_def split: prod.split option.split)

lemmas process_build = process_envelope [OF open_envelope_build]

section \<open>The service loop\<close>

record worker_log =
  wl_committed :: nat
  wl_output :: "string list"
  wl_error :: "exn option"

text \<open>\<open>str(value)\<close> of the id and the type, as the f-string prints them.\<close>

definition outcome_line :: "(json \<Rightarrow> string) \<Rightarrow> json \<Rightarrow> json \<Rightarrow> string \<Rightarrow> string" where
  "outcome_line repr job_id job_type outcome =
     ''job '' @ value_str repr job_id @ '' ('' @ value_str repr job_type @ ''): '' @ outcome @ newline"

text \<open>
  One iteration of the loop, from the result of the poll on: an exception or a decoded value. Nothing is done for \<open>None\<close>
  (\<^const>\<open>JNull\<close>); a message is processed, then its offset committed, then the line written that is the result. A value that
  is no dictionary fails at the first subscript. \<open>k\<close> is the consumer, whose \<open>commit\<close> may raise.
\<close>

definition worker_round ::
  "'s job_calls \<Rightarrow> lookup \<Rightarrow> (json \<Rightarrow> string) \<Rightarrow> ('k \<Rightarrow> exn option \<times> 'k) \<Rightarrow> clock \<Rightarrow> exn + json \<Rightarrow> 's \<Rightarrow> 'k \<Rightarrow>
   (exn + string option) \<times> 's \<times> 'k" where
  "worker_round C lookup repr commit clk poll s k = (case poll of
      Inl e \<Rightarrow> (Inl e, s, k)
    | Inr JNull \<Rightarrow> (Inr None, s, k)
    | Inr (JObj envelope) \<Rightarrow> (case process C lookup clk envelope s of
          (Inl e, s') \<Rightarrow> (Inl e, s', k)
        | (Inr outcome, s') \<Rightarrow> (case commit k of
              (Some e, k') \<Rightarrow> (Inl e, s', k')
            | (None, k') \<Rightarrow> (Inr (Some (case open_envelope envelope of
                  Inr (job_id, job_type) \<Rightarrow> outcome_line repr job_id job_type outcome | Inl e \<Rightarrow> [])), s', k')))
    | Inr _ \<Rightarrow> (Inl TypeError, s, k))"

text \<open>
  The loop, for a number of iterations; an exception ends it. The result is \<open>None\<close> when a poll gives a value outside the model.
\<close>

fun worker_loop ::
  "'s job_calls \<Rightarrow> lookup \<Rightarrow> (json \<Rightarrow> string) \<Rightarrow> ('k \<Rightarrow> (exn + json) option \<times> 'k) \<Rightarrow> ('k \<Rightarrow> exn option \<times> 'k) \<Rightarrow> (nat \<Rightarrow> clock) \<Rightarrow>
   nat \<Rightarrow> worker_log \<Rightarrow> 's \<Rightarrow> 'k \<Rightarrow> (worker_log \<times> 's \<times> 'k) option" where
  "worker_loop C lookup repr poll commit clks 0 log s k = Some (log, s, k)"
| "worker_loop C lookup repr poll commit clks (Suc n) log s k = (case poll k of
      (None, k1) \<Rightarrow> None
    | (Some msg, k1) \<Rightarrow> (case worker_round C lookup repr commit (clks 0) msg s k1 of
          (Inl e, s', k') \<Rightarrow> Some (log\<lparr>wl_error := Some e\<rparr>, s', k')
        | (Inr None, s', k') \<Rightarrow> worker_loop C lookup repr poll commit (clks \<circ> Suc) n log s' k'
        | (Inr (Some line), s', k') \<Rightarrow> worker_loop C lookup repr poll commit (clks \<circ> Suc) n
            (log\<lparr>wl_committed := Suc (wl_committed log), wl_output := wl_output log @ [line]\<rparr>) s' k'))"

text \<open>What a poll gives that ends the loop whatever the store: an exception, no dictionary, or one without the two keys.\<close>

definition poll_error :: "exn + json \<Rightarrow> exn option" where
  "poll_error poll = (case poll of
      Inl e \<Rightarrow> Some e
    | Inr JNull \<Rightarrow> None
    | Inr (JObj envelope) \<Rightarrow> (case open_envelope envelope of Inl e \<Rightarrow> Some e | Inr _ \<Rightarrow> None)
    | Inr _ \<Rightarrow> Some TypeError)"

section \<open>What a claimed run comes to\<close>

text \<open>Outcome, final status and recorded payloads, from the row and the configuration alone.\<close>

definition effective_payload :: "type_config \<Rightarrow> job \<Rightarrow> payload" where
  "effective_payload c b = tc_payload c ++\<^sub>f j_input_payload b"

definition run_outcome :: "lookup \<Rightarrow> (string \<rightharpoonup> type_config) \<Rightarrow> job \<Rightarrow> string \<times> job_status" where
  "run_outcome lookup cfg b = (case cfg (j_job_type b) of
      None \<Rightarrow> (''no_config'', FAILED)
    | Some c \<Rightarrow> (case lookup (j_job_type b) of
        None \<Rightarrow> (''failed'', FAILED)
      | Some handler \<Rightarrow>
          (if hr_raised (handler (effective_payload c b)) = None then (''completed'', COMPLETED)
           else (''failed'', FAILED))))"

definition run_payloads :: "lookup \<Rightarrow> (string \<rightharpoonup> type_config) \<Rightarrow> job \<Rightarrow> payload set" where
  "run_payloads lookup cfg b = (case cfg (j_job_type b) of
      None \<Rightarrow> {j_payload b}
    | Some c \<Rightarrow> (case lookup (j_job_type b) of
        None \<Rightarrow> {effective_payload c b}
      | Some handler \<Rightarrow> {effective_payload c b, hr_payload (handler (effective_payload c b))}))"

lemma status_payload_commute:
  "b\<lparr>j_payload := p, j_status := st, j_updated_at := t\<rparr> = b\<lparr>j_status := st, j_payload := p, j_updated_at := t\<rparr>"
  by (cases b) simp

lemma effective_payload_lookup:
  "fmlookup (effective_payload c b) k =
     (case fmlookup (j_input_payload b) k of None \<Rightarrow> fmlookup (tc_payload c) k | Some v \<Rightarrow> Some v)"
  by (auto simp: effective_payload_def fmdom'I fmdom_notI split: option.split intro: fmdomI)

lemma run_outcome_terminal: "snd (run_outcome lookup cfg b) \<in> set TERMINAL"
  by (auto simp: run_outcome_def split: option.splits)

context job_store
begin

lemma claim_won:
  assumes "inv s" "a_jobs (abs s) j = Some b" "j_status b \<in> {QUEUED, DISPATCHED}"
  obtains s1 where "op_claim ops t j s = (True, s1)" "inv s1"
    "abs s1 = (abs s)\<lparr>a_jobs := (a_jobs (abs s))(j \<mapsto> b\<lparr>j_status := RUNNING, j_updated_at := t\<rparr>)\<rparr>"
proof -
  have "apsnd abs (op_claim ops t j s) =
     (True, (abs s)\<lparr>a_jobs := (a_jobs (abs s))(j \<mapsto> b\<lparr>j_status := RUNNING, j_updated_at := t\<rparr>)\<rparr>)"
    using claim [OF assms(1), of t j] assms(2,3) by (simp add: spec_claim_def a_guarded_Some)
  with claim [OF assms(1), of t j] that show ?thesis by (cases "op_claim ops t j s") auto
qed

lemma claim_lost:
  assumes "inv s" "\<And>b. a_jobs (abs s) j = Some b \<Longrightarrow> j_status b \<notin> {QUEUED, DISPATCHED}"
  obtains s1 where "op_claim ops t j s = (False, s1)" "inv s1" "abs s1 = abs s"
proof -
  have "apsnd abs (op_claim ops t j s) = (False, abs s)"
    using claim [OF assms(1), of t j] assms(2) by (auto simp: spec_claim_def a_guarded_def split: option.split)
  with claim [OF assms(1), of t j] that show ?thesis by (cases "op_claim ops t j s") auto
qed

lemma process_skipped:
  assumes "inv s" "\<And>b. a_jobs (abs s) j = Some b \<Longrightarrow> j_status b \<notin> {QUEUED, DISPATCHED}"
    and "process (store_calls cv ops) lookup clk (build_envelope j jt) s = (r, s')"
  shows "r = Inr ''skipped'' \<and> inv s' \<and> abs s' = abs s"
proof -
  obtain s1 where "op_claim ops (clk 0) j s = (False, s1)" "inv s1" "abs s1 = abs s"
    using claim_lost [OF assms(1,2)] by blast
  with assms(3) show ?thesis by (simp add: process_build)
qed

lemma finish_running:
  assumes "inv s" "a_jobs (abs s) j = Some b" "j_status b = RUNNING"
  shows "inv (snd (op_fail ops t j s)) \<and> abs (snd (op_fail ops t j s)) =
      (abs s)\<lparr>a_jobs := (a_jobs (abs s))(j \<mapsto> b\<lparr>j_status := FAILED, j_updated_at := t\<rparr>)\<rparr>"
    and "inv (snd (op_complete ops t j s)) \<and> abs (snd (op_complete ops t j s)) =
      (abs s)\<lparr>a_jobs := (a_jobs (abs s))(j \<mapsto> b\<lparr>j_status := COMPLETED, j_updated_at := t\<rparr>)\<rparr>"
  using fail [OF assms(1), of t j] complete [OF assms(1), of t j] assms(2,3)
  by (auto simp: spec_finish_def a_guarded_Some prod_eq_iff)

lemma handler_wrote_running:
  assumes "inv s" "a_jobs (abs s) j = Some b"
  obtains q where "inv (op_handler_wrote ops j p s)" "q \<in> {j_payload b, p}"
    "abs (op_handler_wrote ops j p s) = (abs s)\<lparr>a_jobs := (a_jobs (abs s))(j \<mapsto> b\<lparr>j_payload := q\<rparr>)\<rparr>"
proof -
  from assms(2) have same: "(abs s)\<lparr>a_jobs := (a_jobs (abs s))(j \<mapsto> b)\<rparr> = abs s" by (simp add: fun_upd_idem)
  consider "abs (op_handler_wrote ops j p s) = abs s"
    | "abs (op_handler_wrote ops j p s) = spec_handler_wrote j p (abs s)"
    using handler_wrote [OF assms(1), of j p] by blast
  then show thesis
  proof cases
    case 1
    with same handler_wrote [OF assms(1), of j p] show ?thesis by (intro that [of "j_payload b"]) simp_all
  next
    case 2
    with handler_wrote [OF assms(1), of j p] assms(2) show ?thesis
      by (intro that [of p]) (simp_all add: spec_handler_wrote_def a_guarded_Some)
  qed
qed

text \<open>The claim succeeds and the type has no configuration.\<close>

lemma process_no_config:
  assumes inv: "inv s" and b: "a_jobs (abs s) j = Some b" "j_status b \<in> {QUEUED, DISPATCHED}"
    and cfg: "a_config (abs s) (j_job_type b) = None"
    and run: "process (store_calls cv ops) lookup clk (build_envelope j (j_job_type b)) s = (r, s')"
  shows "r = Inr ''no_config'' \<and> inv s' \<and>
    abs s' = (abs s)\<lparr>a_jobs := (a_jobs (abs s))(j \<mapsto> b\<lparr>j_status := FAILED, j_updated_at := clk 2\<rparr>)\<rparr>"
proof -
  let ?b1 = "b\<lparr>j_status := RUNNING, j_updated_at := clk 0\<rparr>"
  obtain s1 where s1: "op_claim ops (clk 0) j s = (True, s1)" "inv s1"
    "abs s1 = (abs s)\<lparr>a_jobs := (a_jobs (abs s))(j \<mapsto> ?b1)\<rparr>"
    using claim_won [OF inv b] by blast
  have b1: "a_jobs (abs s1) j = Some ?b1" by (simp add: s1(3))
  obtain v s2 where v: "op_resolve_payload ops (clk 1) j (j_job_type b) s1 = (v, s2)" by fastforce
  have "inv s2" "(v, abs s2) = spec_resolve (clk 1) j (abs s1)" using resolve [OF s1(2) b1, of "clk 1"] v by simp_all
  with b1 cfg have s2: "inv s2" "v = None" "abs s2 = abs s1" by (simp_all add: spec_resolve_def s1(3))
  have "r = Inr ''no_config''" "s' = snd (op_fail ops (clk 2) j s2)" using run s1(1) v s2(2) by (simp_all add: process_build)
  with finish_running(1) [OF s2(1), of j ?b1 "clk 2"] b1 show ?thesis by (simp add: s2(3) s1(3))
qed

text \<open>The claim succeeds and the payload is resolved: what is left is the handler and the last write.\<close>

lemma process_resolved:
  assumes inv: "inv s" and b: "a_jobs (abs s) j = Some b" "j_status b \<in> {QUEUED, DISPATCHED}"
    and cfg: "a_config (abs s) (j_job_type b) = Some c"
  obtains s2 where "inv s2" "abs s2 = (abs s)\<lparr>a_jobs := (a_jobs (abs s))(j \<mapsto>
      b\<lparr>j_status := RUNNING, j_payload := effective_payload c b, j_updated_at := clk 1\<rparr>)\<rparr>"
    "process (store_calls cv ops) lookup clk (build_envelope j (j_job_type b)) s = (case lookup (j_job_type b) of
        None \<Rightarrow> (Inr ''failed'', snd (op_fail ops (clk 2) j s2))
      | Some h \<Rightarrow> (let s3 = op_handler_wrote ops j (hr_payload (h (effective_payload c b))) s2 in
          if hr_raised (h (effective_payload c b)) = None
          then (Inr ''completed'', snd (op_complete ops (clk 2) j s3))
          else (Inr ''failed'', snd (op_fail ops (clk 2) j s3))))"
proof -
  let ?b1 = "b\<lparr>j_status := RUNNING, j_updated_at := clk 0\<rparr>"
  obtain s1 where s1: "op_claim ops (clk 0) j s = (True, s1)" "inv s1"
    "abs s1 = (abs s)\<lparr>a_jobs := (a_jobs (abs s))(j \<mapsto> ?b1)\<rparr>"
    using claim_won [OF inv b] by blast
  have b1: "a_jobs (abs s1) j = Some ?b1" by (simp add: s1(3))
  obtain v s2 where v: "op_resolve_payload ops (clk 1) j (j_job_type b) s1 = (v, s2)" by fastforce
  have "inv s2" "(v, abs s2) = spec_resolve (clk 1) j (abs s1)" using resolve [OF s1(2) b1, of "clk 1"] v by simp_all
  with b1 cfg have "inv s2" "v = Some (effective_payload c b)" "abs s2 = (abs s)\<lparr>a_jobs := (a_jobs (abs s))(j \<mapsto>
      b\<lparr>j_status := RUNNING, j_payload := effective_payload c b, j_updated_at := clk 1\<rparr>)\<rparr>"
    by (simp_all add: spec_resolve_def s1(3) effective_payload_def Let_def)
  with that [of s2] s1(1) v show thesis by (simp add: process_build Let_def split: option.split)
qed

text \<open>A message whose claim succeeds: the outcome, the final row, and nothing else is touched.\<close>

lemma process_claimed:
  assumes inv: "inv s" and b: "a_jobs (abs s) j = Some b" "j_status b \<in> {QUEUED, DISPATCHED}"
    and run: "process (store_calls cv ops) lookup clk (build_envelope j (j_job_type b)) s = (r, s')"
  shows "r = Inr (fst (run_outcome lookup (a_config (abs s)) b)) \<and> inv s' \<and>
    (\<exists>q \<in> run_payloads lookup (a_config (abs s)) b. abs s' = (abs s)\<lparr>a_jobs := (a_jobs (abs s))(j \<mapsto>
       b\<lparr>j_status := snd (run_outcome lookup (a_config (abs s)) b), j_payload := q, j_updated_at := clk 2\<rparr>)\<rparr>)"
proof (cases "a_config (abs s) (j_job_type b)")
  case None
  with process_no_config [OF inv b None run] show ?thesis by (simp add: run_outcome_def run_payloads_def)
next
  case (Some c)
  let ?p = "effective_payload c b"
  let ?b2 = "b\<lparr>j_status := RUNNING, j_payload := ?p, j_updated_at := clk 1\<rparr>"
  obtain s2 where s2: "inv s2" "abs s2 = (abs s)\<lparr>a_jobs := (a_jobs (abs s))(j \<mapsto> ?b2)\<rparr>"
    "process (store_calls cv ops) lookup clk (build_envelope j (j_job_type b)) s = (case lookup (j_job_type b) of
        None \<Rightarrow> (Inr ''failed'', snd (op_fail ops (clk 2) j s2))
      | Some h \<Rightarrow> (let s3 = op_handler_wrote ops j (hr_payload (h ?p)) s2 in
          if hr_raised (h ?p) = None then (Inr ''completed'', snd (op_complete ops (clk 2) j s3))
          else (Inr ''failed'', snd (op_fail ops (clk 2) j s3))))"
    by (rule process_resolved [OF inv b Some])
  have b2: "a_jobs (abs s2) j = Some ?b2" "j_status ?b2 = RUNNING" by (simp_all add: s2(2))
  show ?thesis
  proof (cases "lookup (j_job_type b)")
    case None
    with run s2(3) have "r = Inr ''failed''" "s' = snd (op_fail ops (clk 2) j s2)" by simp_all
    with finish_running(1) [OF s2(1) b2, of "clk 2"] None Some show ?thesis
      by (simp add: run_outcome_def run_payloads_def s2(2) status_payload_commute)
  next
    case h: (Some h)
    obtain q where q: "inv (op_handler_wrote ops j (hr_payload (h ?p)) s2)" "q \<in> {j_payload ?b2, hr_payload (h ?p)}"
      "abs (op_handler_wrote ops j (hr_payload (h ?p)) s2) =
         (abs s2)\<lparr>a_jobs := (a_jobs (abs s2))(j \<mapsto> ?b2\<lparr>j_payload := q\<rparr>)\<rparr>"
      using handler_wrote_running [OF s2(1) b2(1)] by blast
    have b3: "a_jobs (abs (op_handler_wrote ops j (hr_payload (h ?p)) s2)) j = Some (?b2\<lparr>j_payload := q\<rparr>)"
      "j_status (?b2\<lparr>j_payload := q\<rparr>) = RUNNING" by (simp_all add: q(3))
    have "q \<in> run_payloads lookup (a_config (abs s)) b" using q(2) h Some by (simp add: run_payloads_def)
    with run s2(3) h Some finish_running [OF q(1) b3, of "clk 2"] show ?thesis
      by (intro conjI bexI [of _ q])
        (auto simp: Let_def run_outcome_def q(3) s2(2) status_payload_commute split: if_splits)
  qed
qed

end

section \<open>Stores that keep handlers out of their rows\<close>

text \<open>What a handler writes into the dictionary it is given does not reach the store.\<close>

locale shared_store = job_store +
  assumes handler_wrote_same: "inv s \<Longrightarrow> abs (op_handler_wrote ops j p s) = abs s"
begin

lemma process_recorded:
  assumes inv: "inv s" and b: "a_jobs (abs s) j = Some b" "j_status b \<in> {QUEUED, DISPATCHED}"
    and run: "process (store_calls cv ops) lookup clk (build_envelope j (j_job_type b)) s = (r, s')"
  shows "abs s' = (abs s)\<lparr>a_jobs := (a_jobs (abs s))(j \<mapsto> b\<lparr>
     j_status := snd (run_outcome lookup (a_config (abs s)) b),
     j_payload := (case a_config (abs s) (j_job_type b) of None \<Rightarrow> j_payload b | Some c \<Rightarrow> effective_payload c b),
     j_updated_at := clk 2\<rparr>)\<rparr>"
proof (cases "a_config (abs s) (j_job_type b)")
  case None
  with process_no_config [OF inv b None run] show ?thesis by (simp add: run_outcome_def)
next
  case (Some c)
  let ?p = "effective_payload c b"
  let ?b2 = "b\<lparr>j_status := RUNNING, j_payload := ?p, j_updated_at := clk 1\<rparr>"
  obtain s2 where s2: "inv s2" "abs s2 = (abs s)\<lparr>a_jobs := (a_jobs (abs s))(j \<mapsto> ?b2)\<rparr>"
    "process (store_calls cv ops) lookup clk (build_envelope j (j_job_type b)) s = (case lookup (j_job_type b) of
        None \<Rightarrow> (Inr ''failed'', snd (op_fail ops (clk 2) j s2))
      | Some h \<Rightarrow> (let s3 = op_handler_wrote ops j (hr_payload (h ?p)) s2 in
          if hr_raised (h ?p) = None then (Inr ''completed'', snd (op_complete ops (clk 2) j s3))
          else (Inr ''failed'', snd (op_fail ops (clk 2) j s3))))"
    by (rule process_resolved [OF inv b Some])
  have fin: "abs (snd (op_fail ops (clk 2) j x)) = (abs s)\<lparr>a_jobs := (a_jobs (abs s))(j \<mapsto> b\<lparr>j_status := FAILED,
        j_payload := ?p, j_updated_at := clk 2\<rparr>)\<rparr>"
    "abs (snd (op_complete ops (clk 2) j x)) = (abs s)\<lparr>a_jobs := (a_jobs (abs s))(j \<mapsto> b\<lparr>j_status := COMPLETED,
        j_payload := ?p, j_updated_at := clk 2\<rparr>)\<rparr>"
    if "inv x" "abs x = abs s2" for x
    using finish_running [OF that(1), of j ?b2 "clk 2"] that(2) by (simp_all add: s2(2) status_payload_commute)
  have "inv (op_handler_wrote ops j w s2) \<and> abs (op_handler_wrote ops j w s2) = abs s2" for w
    using handler_wrote [OF s2(1), of j w] handler_wrote_same [OF s2(1), of j w] by blast
  with run s2(1,3) Some fin show ?thesis
    by (auto simp: Let_def run_outcome_def split: option.splits if_splits)
qed

end

interpretation pg_sys: shared_store pg_ops pg_abs pg_inv
  by unfold_locales (simp add: pg_ops_def pg_handler_wrote_def)

text \<open>And stores that hand out the dictionary of the row itself.\<close>

locale aliased_store = job_store +
  assumes handler_wrote_row: "inv s \<Longrightarrow> abs (op_handler_wrote ops j p s) = spec_handler_wrote j p (abs s)"
begin

lemma process_written:
  assumes inv: "inv s" and b: "a_jobs (abs s) j = Some b" "j_status b \<in> {QUEUED, DISPATCHED}"
    and cfg: "a_config (abs s) (j_job_type b) = Some c" and h: "lookup (j_job_type b) = Some h"
    and run: "process (store_calls cv ops) lookup clk (build_envelope j (j_job_type b)) s = (r, s')"
  shows "abs s' = (abs s)\<lparr>a_jobs := (a_jobs (abs s))(j \<mapsto> b\<lparr>
     j_status := snd (run_outcome lookup (a_config (abs s)) b),
     j_payload := hr_payload (h (effective_payload c b)), j_updated_at := clk 2\<rparr>)\<rparr>"
proof -
  let ?p = "effective_payload c b" and ?w = "hr_payload (h (effective_payload c b))"
  let ?b2 = "b\<lparr>j_status := RUNNING, j_payload := ?p, j_updated_at := clk 1\<rparr>"
  obtain s2 where s2: "inv s2" "abs s2 = (abs s)\<lparr>a_jobs := (a_jobs (abs s))(j \<mapsto> ?b2)\<rparr>"
    "process (store_calls cv ops) lookup clk (build_envelope j (j_job_type b)) s = (case lookup (j_job_type b) of
        None \<Rightarrow> (Inr ''failed'', snd (op_fail ops (clk 2) j s2))
      | Some h \<Rightarrow> (let s3 = op_handler_wrote ops j (hr_payload (h ?p)) s2 in
          if hr_raised (h ?p) = None then (Inr ''completed'', snd (op_complete ops (clk 2) j s3))
          else (Inr ''failed'', snd (op_fail ops (clk 2) j s3))))"
    by (rule process_resolved [OF inv b cfg])
  let ?s3 = "op_handler_wrote ops j ?w s2"
  have inv3: "inv ?s3" using handler_wrote [OF s2(1)] by blast
  have abs3: "abs ?s3 = (abs s)\<lparr>a_jobs := (a_jobs (abs s))(j \<mapsto> ?b2\<lparr>j_payload := ?w\<rparr>)\<rparr>"
    unfolding handler_wrote_row [OF s2(1)] spec_handler_wrote_def s2(2) by (simp add: a_guarded_Some)
  then have b3: "a_jobs (abs ?s3) j = Some (?b2\<lparr>j_payload := ?w\<rparr>)" "j_status (?b2\<lparr>j_payload := ?w\<rparr>) = RUNNING" by simp_all
  from run s2(3) h cfg finish_running [OF inv3 b3, of "clk 2"] show ?thesis
    by (auto simp: Let_def run_outcome_def abs3 status_payload_commute split: if_splits)
qed

end

interpretation mem_sys: aliased_store mem_ops mem_abs mem_inv
  by unfold_locales (simp add: mem_ops_def mem_handler_wrote_abs)

section \<open>The loop\<close>

text \<open>
  The rounds that do not raise, stated without the loop: idle, or a message processed and then committed. \<open>done\<close> lists the committed messages, each with
  its id, its type and the outcome.
\<close>

inductive worked ::
  "'s job_calls \<Rightarrow> lookup \<Rightarrow> ('k \<Rightarrow> (exn + json) option \<times> 'k) \<Rightarrow> ('k \<Rightarrow> exn option \<times> 'k) \<Rightarrow> (nat \<Rightarrow> clock) \<Rightarrow> nat \<Rightarrow>
   's \<Rightarrow> 'k \<Rightarrow> (json \<times> json \<times> string) list \<Rightarrow> 's \<Rightarrow> 'k \<Rightarrow> bool"
  for C lookup poll commit where
  start: "worked C lookup poll commit clks 0 s k [] s k"
| idle: "poll k = (Some (Inr JNull), k1) \<Longrightarrow> worked C lookup poll commit (clks \<circ> Suc) n s k1 msgs s' k' \<Longrightarrow>
    worked C lookup poll commit clks (Suc n) s k msgs s' k'"
| committed: "poll k = (Some (Inr (JObj envelope)), k1) \<Longrightarrow> open_envelope envelope = Inr (i, v) \<Longrightarrow>
    process C lookup (clks 0) envelope s = (Inr outcome, s1) \<Longrightarrow> commit k1 = (None, k2) \<Longrightarrow>
    worked C lookup poll commit (clks \<circ> Suc) n s1 k2 msgs s' k' \<Longrightarrow>
    worked C lookup poll commit clks (Suc n) s k ((i, v, outcome) # msgs) s' k'"

text \<open>How a round ends the loop: before anything was done, in the middle of the processing, or at the commit that follows it.\<close>

inductive round_raises ::
  "'s job_calls \<Rightarrow> lookup \<Rightarrow> ('k \<Rightarrow> exn option \<times> 'k) \<Rightarrow> clock \<Rightarrow> exn + json \<Rightarrow> 's \<Rightarrow> 'k \<Rightarrow> exn \<Rightarrow> 's \<Rightarrow> 'k \<Rightarrow> bool"
  for C lookup commit where
  refused: "poll_error msg = Some e \<Longrightarrow> round_raises C lookup commit clk msg s k e s k"
| in_process: "open_envelope envelope = Inr (i, v) \<Longrightarrow> process C lookup clk envelope s = (Inl e, s') \<Longrightarrow>
    round_raises C lookup commit clk (Inr (JObj envelope)) s k e s' k"
| at_commit: "process C lookup clk envelope s = (Inr outcome, s') \<Longrightarrow> commit k = (Some e, k') \<Longrightarrow>
    round_raises C lookup commit clk (Inr (JObj envelope)) s k e s' k'"

definition message_line :: "(json \<Rightarrow> string) \<Rightarrow> json \<times> json \<times> string \<Rightarrow> string" where
  "message_line repr = (\<lambda>(i, v, outcome). outcome_line repr i v outcome)"

lemma process_opened: "process C lookup clk envelope s = (Inr outcome, s') \<Longrightarrow> \<exists>i v. open_envelope envelope = Inr (i, v)"
  by (auto simp: process_def split: sum.splits)

lemma worker_round_cases:
  assumes "worker_round C lookup repr commit clk msg s k = (r, s', k')"
  shows "case r of
      Inl e \<Rightarrow> round_raises C lookup commit clk msg s k e s' k'
    | Inr None \<Rightarrow> msg = Inr JNull \<and> s' = s \<and> k' = k
    | Inr (Some line) \<Rightarrow> \<exists>envelope i v outcome. msg = Inr (JObj envelope) \<and> open_envelope envelope = Inr (i, v) \<and>
        process C lookup clk envelope s = (Inr outcome, s') \<and> commit k = (None, k') \<and> line = message_line repr (i, v, outcome)"
proof (cases "poll_error msg")
  case (Some e)
  then have "worker_round C lookup repr commit clk msg s k = (Inl e, s, k)"
    by (auto simp: poll_error_def worker_round_def process_def split: sum.splits json.splits)
  with assms Some show ?thesis by (auto intro: round_raises.refused)
next
  case None
  then consider "msg = Inr JNull" | envelope i v where "msg = Inr (JObj envelope)" "open_envelope envelope = Inr (i, v)"
    by (auto simp: poll_error_def split: sum.splits json.splits)
  then show ?thesis
  proof cases
    case 1
    with assms show ?thesis by (auto simp: worker_round_def)
  next
    case 2
    with assms show ?thesis
      by (auto simp: worker_round_def message_line_def split: sum.splits prod.splits option.splits intro: round_raises.intros)
  qed
qed

text \<open>So the loop is these rounds, up to the first that raises.\<close>

lemma worker_loop_rounds:
  assumes "worker_loop C lookup repr poll commit clks n log s k = Some (log', s', k')"
  shows "\<exists>m msgs s1 k1. worked C lookup poll commit clks m s k msgs s1 k1 \<and>
    wl_output log' = wl_output log @ map (message_line repr) msgs \<and> wl_committed log' = wl_committed log + length msgs \<and>
    (m = n \<and> wl_error log' = wl_error log \<and> s' = s1 \<and> k' = k1 \<or>
     m < n \<and> (\<exists>e msg k2. wl_error log' = Some e \<and> poll k1 = (Some msg, k2) \<and>
       round_raises C lookup commit (clks m) msg s1 k2 e s' k'))"
    (is "\<exists>m msgs s1 k1. ?P clks n log s k m msgs s1 k1")
  using assms
proof (induction n arbitrary: clks log s k)
  case 0
  then show ?case by (intro exI [of _ 0] exI [of _ "[]"] exI [of _ s] exI [of _ k]) (auto intro: worked.start)
next
  case (Suc n)
  from Suc.prems obtain msg k1 where poll: "poll k = (Some msg, k1)" by (auto split: prod.splits option.splits)
  obtain r s2 k2 where round: "worker_round C lookup repr commit (clks 0) msg s k1 = (r, s2, k2)" by (metis prod_cases3)
  note result = worker_round_cases [OF round]
  consider e where "r = Inl e" | "r = Inr None" | line where "r = Inr (Some line)" by (metis option.exhaust sum.exhaust)
  then show ?case
  proof cases
    case 1
    with Suc.prems poll round result show ?thesis
      by (intro exI [of _ 0] exI [of _ "[]"] exI [of _ s] exI [of _ k]) (auto intro: worked.start)
  next
    case 2
    with Suc.prems poll round have "worker_loop C lookup repr poll commit (clks \<circ> Suc) n log s2 k2 = Some (log', s', k')" by simp
    from Suc.IH [OF this] obtain m msgs s3 k3 where rest: "worked C lookup poll commit (clks \<circ> Suc) m s2 k2 msgs s3 k3"
      "?P (clks \<circ> Suc) n log s2 k2 m msgs s3 k3" by blast
    from 2 poll result have "poll k = (Some (Inr JNull), k2)" "s2 = s" by simp_all
    with worked.idle [OF _ rest(1)] have "worked C lookup poll commit clks (Suc m) s k msgs s3 k3" by simp
    with rest(2) show ?thesis
      by (intro exI [of _ "Suc m"] exI [of _ msgs] exI [of _ s3] exI [of _ k3]) auto
  next
    case 3
    let ?log = "log\<lparr>wl_committed := Suc (wl_committed log), wl_output := wl_output log @ [line]\<rparr>"
    from 3 Suc.prems poll round have "worker_loop C lookup repr poll commit (clks \<circ> Suc) n ?log s2 k2 = Some (log', s', k')" by simp
    from Suc.IH [OF this] obtain m msgs s3 k3 where rest: "worked C lookup poll commit (clks \<circ> Suc) m s2 k2 msgs s3 k3"
      "?P (clks \<circ> Suc) n ?log s2 k2 m msgs s3 k3" by blast
    from result 3 obtain envelope i v outcome where one: "msg = Inr (JObj envelope)" "open_envelope envelope = Inr (i, v)"
      "process C lookup (clks 0) envelope s = (Inr outcome, s2)" "commit k1 = (None, k2)" "line = message_line repr (i, v, outcome)"
      by auto
    with worked.committed [OF _ one(2,3,4) rest(1)] poll
    have "worked C lookup poll commit clks (Suc m) s k ((i, v, outcome) # msgs) s3 k3" by simp
    with rest(2) one(5) show ?thesis
      by (intro exI [of _ "Suc m"] exI [of _ "(i, v, outcome) # msgs"] exI [of _ s3] exI [of _ k3]) auto
  qed
qed

section \<open>Postgres under any message\<close>

text \<open>
  The calls of a store that may be down: each works, or raises with nothing done, or raises when its transaction has committed already (the
  answer was lost).
\<close>

definition may_raise_call :: "('s \<Rightarrow> (exn + 'a) \<times> 's) \<Rightarrow> ('s \<Rightarrow> (exn + 'a) \<times> 's) \<Rightarrow> bool" where
  "may_raise_call f g \<longleftrightarrow> (\<forall>s. f s = g s \<or> (\<exists>e. f s = (Inl e, s) \<or> f s = (Inl e, snd (g s))))"

definition may_raise :: "'s job_calls \<Rightarrow> 's job_calls \<Rightarrow> bool" where
  "may_raise C D \<longleftrightarrow> (\<forall>t i. may_raise_call (jc_claim C t i) (jc_claim D t i) \<and>
     (\<forall>v. may_raise_call (jc_resolve_payload C t i v) (jc_resolve_payload D t i v)) \<and>
     may_raise_call (jc_complete C t i) (jc_complete D t i) \<and> may_raise_call (jc_fail C t i) (jc_fail D t i)) \<and>
     jc_handler_wrote C = jc_handler_wrote D"

text \<open>The job waits for no worker any more: it is running or has ended.\<close>

definition past_claim :: "int \<Rightarrow> pg_db \<Rightarrow> bool" where
  "past_claim j db \<longleftrightarrow> (\<forall>b. pg_get_job j db = Some b \<longrightarrow> j_status b \<notin> {QUEUED, DISPATCHED})"

definition keeps_past :: "pg_db \<Rightarrow> pg_db \<Rightarrow> bool" where
  "keeps_past db db' \<longleftrightarrow> (pg_inv db \<longrightarrow> pg_inv db' \<and> (\<forall>i. past_claim i db \<longrightarrow> past_claim i db'))"

lemma keeps_past_refl [simp]: "keeps_past db db"
  by (simp add: keeps_past_def)

lemma keeps_past_trans: "keeps_past db1 db2 \<Longrightarrow> keeps_past db2 db3 \<Longrightarrow> keeps_past db1 db3"
  by (auto simp: keeps_past_def)

lemma keeps_past_guarded:
  assumes "pg_inv db \<Longrightarrow> pg_inv (snd r) \<and> apsnd pg_abs r = a_guarded j Q g (pg_abs db)" "\<And>b. Q b \<Longrightarrow> j_status (g b) \<notin> {QUEUED, DISPATCHED}"
  shows "keeps_past db (snd r)"
proof -
  have "past_claim i (snd r)" if "pg_inv db" "past_claim i db" for i
  proof -
    have "pg_abs (snd r) = snd (a_guarded j Q g (pg_abs db))" using assms(1) [OF that(1)] by (metis snd_apsnd)
    then show ?thesis using that(2) assms(2) unfolding past_claim_def pg_get_job_abs
      by (cases "i = j") (auto simp: a_guarded_at simp del: pg_abs_simps split: if_splits)
  qed
  with assms(1) show ?thesis by (simp add: keeps_past_def)
qed

lemma pg_claim_keeps: "keeps_past db (snd (pg_claim t j db))"
  by (rule keeps_past_guarded, rule pg_claim_step [unfolded spec_claim_def]) auto

lemma pg_claim_past: "pg_inv db \<Longrightarrow> past_claim j (snd (pg_claim t j db))"
proof -
  assume "pg_inv db"
  then have claimed: "pg_abs (snd (pg_claim t j db)) = snd (spec_claim t j (pg_abs db))"
    using pg_claim_step [of db t j] by (metis snd_apsnd)
  show ?thesis unfolding past_claim_def pg_get_job_abs claimed spec_claim_def a_guarded_at
    by (cases "a_jobs (pg_abs db) j") (auto simp del: pg_abs_simps)
qed

lemma pg_finish_keeps: "keeps_past db (snd (pg_complete t j db))" "keeps_past db (snd (pg_fail t j db))"
proof -
  have "keeps_past db (snd (pg_guarded_update (\<lambda>r. pj_id r = j \<and> pj_status r = RUNNING)
      (\<lambda>r. r\<lparr>pj_status := st, pj_updated_at := t\<rparr>) db))" if "st \<in> set TERMINAL" for st
    by (rule keeps_past_guarded, rule pg_finish_step [OF _ that refl, of db j t, unfolded spec_finish_def]) (use that in auto)
  then show "keeps_past db (snd (pg_complete t j db))" "keeps_past db (snd (pg_fail t j db))"
    by (simp_all add: pg_complete_def pg_fail_def)
qed

lemma pg_resolve_keeps: "keeps_past db (snd (pg_resolve_payload t j jt db))"
proof (cases "config_row jt db")
  case (Some c)
  let ?P = "\<lambda>r. pj_status r = RUNNING" and ?f = "\<lambda>r. r\<lparr>pj_payload := pc_payload c ++\<^sub>f pj_input_payload r, pj_updated_at := t\<rparr>"
  let ?Q = "\<lambda>b. j_status b = RUNNING" and ?g = "\<lambda>b. b\<lparr>j_payload := pc_payload c ++\<^sub>f j_input_payload b, j_updated_at := t\<rparr>"
  let ?r = "pg_guarded_update (\<lambda>r. pj_id r = j \<and> ?P r) ?f db"
  have "keeps_past db (snd ?r)"
  proof (rule keeps_past_guarded [where Q = ?Q and g = ?g], rule pg_step)
    assume "pg_inv db"
    then have rep: "pg_rep db" and wf: "a_wf (pg_abs db)" by (simp_all add: pg_inv_def)
    show "pg_rep (snd ?r)" by (rule pg_guarded_rep [OF rep]) simp_all
    show "apsnd pg_abs ?r = a_guarded j ?Q ?g (pg_abs db)" by (rule pg_guarded_abs [OF rep]) simp_all
    show "a_wf (snd (a_guarded j ?Q ?g (pg_abs db)))" using wf by (rule a_wf_guarded) auto
  qed simp
  moreover have "snd (pg_resolve_payload t j jt db) = snd ?r" using Some by (simp add: pg_resolve_payload_def pg_guarded_update_eq Let_def)
  ultimately show ?thesis by simp
qed (simp add: pg_resolve_payload_def)

text \<open>Whatever the values of the message, the store's calls never bring a job back.\<close>

lemma on_arg_keeps:
  assumes "\<And>x. keeps_past db (snd (call x db))"
  shows "keeps_past db (snd (on_arg arg none call db))"
  using assms by (auto simp: on_arg_def split: sum.split option.split)

lemma may_raise_keeps:
  assumes "may_raise_call f g" "keeps_past db (snd (g db))"
  shows "keeps_past db (snd (f db))"
  using assms by (auto simp: may_raise_call_def dest!: spec [of _ db])

lemma pg_calls_keep:
  assumes "may_raise C (store_calls cv pg_ops)"
  shows "keeps_past db (snd (jc_claim C t i db))" "keeps_past db (snd (jc_resolve_payload C t i v db))"
    "jc_handler_wrote C i p db = db"
    "keeps_past db (snd (jc_complete C t i db))" "keeps_past db (snd (jc_fail C t i db))"
proof -
  let ?D = "store_calls cv pg_ops"
  have "keeps_past db (snd (jc_claim ?D t i db))" "keeps_past db (snd (jc_complete ?D t i db))" "keeps_past db (snd (jc_fail ?D t i db))"
    "keeps_past db (snd (jc_resolve_payload ?D t i v db))"
    by (auto simp: store_calls_def pg_ops_def pg_claim_keeps pg_finish_keeps pg_resolve_keeps intro!: on_arg_keeps)
  moreover have "may_raise_call (jc_claim C t i) (jc_claim ?D t i)" "may_raise_call (jc_complete C t i) (jc_complete ?D t i)"
    "may_raise_call (jc_fail C t i) (jc_fail ?D t i)" "may_raise_call (jc_resolve_payload C t i v) (jc_resolve_payload ?D t i v)"
    "jc_handler_wrote C = jc_handler_wrote ?D" using assms by (simp_all add: may_raise_def)
  moreover have "jc_handler_wrote ?D i p db = db"
    by (simp add: store_calls_def pg_ops_def pg_handler_wrote_def split: sum.split option.split)
  ultimately show "keeps_past db (snd (jc_claim C t i db))" "keeps_past db (snd (jc_resolve_payload C t i v db))"
    "jc_handler_wrote C i p db = db" "keeps_past db (snd (jc_complete C t i db))" "keeps_past db (snd (jc_fail C t i db))"
    by (simp_all add: may_raise_keeps)
qed

lemma recorded_snd: "recorded outcome call = (r, s') \<Longrightarrow> s' = snd call"
  by (cases call) (simp add: recorded_def)

text \<open>And a message whose processing returns leaves its job to no further worker.\<close>

lemma pg_process_keeps:
  assumes C: "may_raise C (store_calls cv pg_ops)" and run: "process C lookup clk envelope db = (r, db')"
  shows "keeps_past db db'"
    and "r = Inr outcome \<Longrightarrow> open_envelope envelope = Inr (i, v) \<Longrightarrow> job_id_arg cv i = Inr (Some j) \<Longrightarrow> pg_inv db \<Longrightarrow> past_claim j db'"
proof -
  note keeps = pg_calls_keep [OF C]
  have after: "\<exists>db1. keeps_past db db1 \<and> jc_claim C (clk 0) i db = (Inr won, db1) \<and> keeps_past db1 db'"
    if "open_envelope envelope = Inr (i, v)" "jc_claim C (clk 0) i db = (Inr won, db1)" for i v won db1
  proof -
    have k1: "keeps_past db db1" using keeps(1) [of db "clk 0" i] that(2) by simp
    obtain a db2 where a: "jc_resolve_payload C (clk 1) i v db1 = (a, db2)" by fastforce
    have k2: "keeps_past db1 db2" using keeps(2) [of db1 "clk 1" i v] a by simp
    have "db' \<in> {db1, db2, snd (jc_fail C (clk 2) i db2), snd (jc_complete C (clk 2) i db2)}"
      using run that a by (auto simp: process_def Let_def keeps(3) dest!: recorded_snd split: if_splits sum.splits option.splits)
    with k2 keeps(4,5) [of db2 "clk 2" i] have "keeps_past db1 db'" by (auto intro: keeps_past_trans)
    with k1 that(2) show ?thesis by blast
  qed
  show "keeps_past db db'"
  proof (cases "open_envelope envelope")
    case (Inr iv)
    obtain i v where iv: "open_envelope envelope = Inr (i, v)" using Inr by (cases iv) simp
    obtain a db1 where a: "jc_claim C (clk 0) i db = (a, db1)" by fastforce
    show ?thesis
    proof (cases a)
      case (Inl e)
      with run iv a keeps(1) [of db "clk 0" i] show ?thesis by (simp add: process_def)
    next
      case (Inr won)
      with after [OF iv] a show ?thesis by (blast intro: keeps_past_trans)
    qed
  qed (use run in \<open>simp add: process_def\<close>)
  assume r: "r = Inr outcome" and iv: "open_envelope envelope = Inr (i, v)" and j: "job_id_arg cv i = Inr (Some j)" and inv: "pg_inv db"
  obtain won db1 where a: "jc_claim C (clk 0) i db = (Inr won, db1)"
    using run r iv by (cases "jc_claim C (clk 0) i db"; cases "fst (jc_claim C (clk 0) i db)") (auto simp: process_def)
  have "may_raise_call (jc_claim C (clk 0) i) (jc_claim (store_calls cv pg_ops) (clk 0) i)" using C by (simp add: may_raise_def)
  with a have "jc_claim (store_calls cv pg_ops) (clk 0) i db = (Inr won, db1)" by (auto simp: may_raise_call_def dest!: spec [of _ db])
  then have "db1 = snd (pg_claim (clk 0) j db)" using j by (auto simp: store_calls_def on_arg_def pg_ops_def prod_eq_iff)
  then have "past_claim j db1" using pg_claim_past [OF inv] by simp
  with after [OF iv a] inv show "past_claim j db'" using a by (auto simp: keeps_past_def)
qed

lemma worked_keeps:
  assumes "worked C lookup poll commit clks m db k msgs db' k'" "may_raise C (store_calls cv pg_ops)" "pg_inv db"
  shows "pg_inv db' \<and> (\<forall>j. past_claim j db \<longrightarrow> past_claim j db') \<and>
    (\<forall>i v outcome j. (i, v, outcome) \<in> set msgs \<and> job_id_arg cv i = Inr (Some j) \<longrightarrow> past_claim j db')"
  using assms(1,3)
proof (induction rule: worked.induct)
  case (committed k envelope k1 i v clks s outcome s1 k2 n msgs s' k')
  note step = pg_process_keeps [OF assms(2) committed.hyps(3)]
  have "pg_inv s1" "\<forall>j. past_claim j s \<longrightarrow> past_claim j s1" using step(1) committed.prems by (simp_all add: keeps_past_def)
  moreover have "past_claim j s1" if "job_id_arg cv i = Inr (Some j)" for j
    using step(2) [OF refl committed.hyps(2) that committed.prems] .
  ultimately show ?case using committed.IH by auto
qed auto

lemma round_raises_keeps:
  assumes "round_raises C lookup commit clk msg db k e db' k'" "may_raise C (store_calls cv pg_ops)"
  shows "keeps_past db db'"
  using assms by cases (auto dest: pg_process_keeps(1))

section \<open>Properties\<close>

text \<open>
  C11. Processing a message on the Postgres store whose job is queued or dispatched: the outcome is \<open>no_config\<close> without a
  configuration of the type, \<open>failed\<close> without a handler or when it raises, and \<open>completed\<close> otherwise; the row ends completed
  or failed accordingly, with the effective payload recorded whatever the handler did to its argument; no
  other row changes.
\<close>

theorem pg_process_run:
  assumes "pg_inv db" "pg_get_job j db = Some b" "j_status b \<in> {QUEUED, DISPATCHED}"
    and "process (store_calls cv pg_ops) lookup clk (build_envelope j (j_job_type b)) db = (r, db')"
  shows "r = Inr (fst (run_outcome lookup (a_config (pg_abs db)) b)) \<and> pg_inv db' \<and>
    pg_get_job j db' = Some (b\<lparr>j_status := snd (run_outcome lookup (a_config (pg_abs db)) b),
      j_payload := (case a_config (pg_abs db) (j_job_type b) of None \<Rightarrow> j_payload b | Some c \<Rightarrow> effective_payload c b),
      j_updated_at := clk 2\<rparr>) \<and>
    (\<forall>i. i \<noteq> j \<longrightarrow> pg_get_job i db' = pg_get_job i db)"
proof -
  have b: "a_jobs (pg_abs db) j = Some b" using assms(2) by (simp only: pg_get_job_abs)
  from pg.process_claimed [OF assms(1) b assms(3,4)] pg_sys.process_recorded [OF assms(1) b assms(3,4)]
  show ?thesis unfolding pg_get_job_abs by simp
qed

text \<open>Instances for examples: the demo handlers, and a driver that accepts values of the declared types only.\<close>

definition demo_conversion :: conversion where
  "demo_conversion = \<lparr>cv_job_id = (\<lambda>_. Inl (DatabaseError ''no bigint'')), cv_job_type = (\<lambda>_. Inl (DatabaseError ''no text''))\<rparr>"

definition demo_lookup :: lookup where
  "demo_lookup = get_handler [(''hello'', hello (\<lambda>_. [])), (''boom'', boom)]"

theorem pg_process_run_witness:
  "fst (process (store_calls demo_conversion pg_ops) demo_lookup (\<lambda>i. int i) (build_envelope 1 ''hello'') demo_db) = Inr ''completed'' \<and>
   pg_inv (snd (process (store_calls demo_conversion pg_ops) demo_lookup (\<lambda>i. int i) (build_envelope 1 ''hello'') demo_db)) \<and>
   map_option (\<lambda>b. fmlookup (j_payload b) ''name'')
     (pg_get_job 1 (snd (process (store_calls demo_conversion pg_ops) demo_lookup (\<lambda>i. int i) (build_envelope 1 ''hello'') demo_db))) =
   Some (Some (JStr ''Bob''))"
proof -
  let ?r = "process (store_calls demo_conversion pg_ops) demo_lookup (\<lambda>i. int i) (build_envelope 1 ''hello'') demo_db"
  have "map_option (\<lambda>b. (j_status b, j_job_type b)) (pg_get_job 1 demo_db) = Some (QUEUED, ''hello'')" by code_simp
  then obtain b where b: "pg_get_job 1 demo_db = Some b" "j_status b = QUEUED" "j_job_type b = ''hello''" by auto
  have "process (store_calls demo_conversion pg_ops) demo_lookup (\<lambda>i. int i) (build_envelope 1 (j_job_type b)) demo_db = (fst ?r, snd ?r)"
    by (simp add: b(3))
  from pg_process_run [OF pg_inv_demo b(1) _ this] b(2) have "pg_inv (snd ?r)" by simp
  moreover have "fst ?r = Inr ''completed''" by code_simp
  moreover have "map_option (\<lambda>b. fmlookup (j_payload b) ''name'') (pg_get_job 1 (snd ?r)) = Some (Some (JStr ''Bob''))"
    by code_simp
  ultimately show ?thesis by blast
qed

text \<open>
  C13. A duplicate or redelivered message is harmless: when its job is running, finished or unknown, processing
  returns \<open>skipped\<close>, runs no handler and leaves every row and message as it was.
\<close>

theorem pg_process_duplicate:
  assumes "pg_inv db" "\<And>b. pg_get_job j db = Some b \<Longrightarrow> j_status b \<notin> {QUEUED, DISPATCHED}"
    and "process (store_calls cv pg_ops) lookup clk (build_envelope j jt) db = (r, db')"
  shows "r = Inr ''skipped'' \<and> pg_inv db' \<and> pg_abs db' = pg_abs db"
  using assms unfolding pg_get_job_abs by (rule pg.process_skipped)

theorem pg_process_duplicate_witness:
  "fst (process (store_calls demo_conversion pg_ops) demo_lookup (\<lambda>i. int i) (build_envelope 1 ''hello'') (snd (pg_claim 5 1 demo_db))) = Inr ''skipped''"
proof -
  let ?db = "snd (pg_claim 5 1 demo_db)"
  let ?r = "process (store_calls demo_conversion pg_ops) demo_lookup (\<lambda>i. int i) (build_envelope 1 ''hello'') ?db"
  have inv: "pg_inv ?db" using pg.claim [OF pg_inv_demo, of 5 1] by (simp add: pg_ops_def)
  have "map_option j_status (pg_get_job 1 ?db) = Some RUNNING" by code_simp
  then have st: "j_status b \<notin> {QUEUED, DISPATCHED}" if "pg_get_job 1 ?db = Some b" for b using that by simp
  have "?r = (fst ?r, snd ?r)" by simp
  from pg_process_duplicate [OF inv st this] show ?thesis by blast
qed

text \<open>
  C17. The effective payload is the type's base configuration overlaid key by key with the producer's overrides: a key of the
  overrides has their value, any other key the base's, and no further key appears.
\<close>

theorem resolve_payload_overlays:
  assumes "pg_inv db" "pg_get_job j db = Some b" "j_status b = RUNNING" "config_row (j_job_type b) db = Some c"
  shows "\<exists>p. fst (pg_resolve_payload t j (j_job_type b) db) = Some p \<and>
    map_option j_payload (pg_get_job j (snd (pg_resolve_payload t j (j_job_type b) db))) = Some p \<and>
    (\<forall>k. fmlookup p k = (case fmlookup (j_input_payload b) k of
       None \<Rightarrow> fmlookup (pc_payload c) k | Some v \<Rightarrow> Some v))"
proof -
  have b: "a_jobs (pg_abs db) j = Some b" using assms(2) by (simp only: pg_get_job_abs)
  have cfg: "a_config (pg_abs db) (j_job_type b) = Some (pg_config_of c)" using assms(4) by simp
  have base: "tc_payload (pg_config_of c) = pc_payload c" by (simp add: pg_config_of_def)
  have "apsnd pg_abs (pg_resolve_payload t j (j_job_type b) db) = spec_resolve t j (pg_abs db)"
    using pg.resolve [OF assms(1) b, of t] by (simp add: pg_ops_def)
  also have "\<dots> = (Some (effective_payload (pg_config_of c) b), (pg_abs db)\<lparr>a_jobs := (a_jobs (pg_abs db))(j \<mapsto>
      b\<lparr>j_payload := effective_payload (pg_config_of c) b, j_updated_at := t\<rparr>)\<rparr>)"
    using b cfg assms(3) by (simp add: spec_resolve_def effective_payload_def Let_def del: pg_abs_simps)
  finally show ?thesis unfolding pg_get_job_abs
    by (intro exI [of _ "effective_payload (pg_config_of c) b"])
      (simp add: prod_eq_iff effective_payload_lookup base del: pg_abs_simps split: option.split)
qed

theorem resolve_payload_overlays_witness:
  "\<exists>p. fst (pg_resolve_payload 6 1 ''hello'' (snd (pg_claim 5 1 demo_db))) = Some p \<and> fmlookup p ''name'' = Some (JStr ''Bob'')"
proof -
  let ?db = "snd (pg_claim 5 1 demo_db)"
  have inv: "pg_inv ?db" using pg.claim [OF pg_inv_demo, of 5 1] by (simp add: pg_ops_def)
  have "map_option (\<lambda>b. (j_status b, j_job_type b, fmlookup (j_input_payload b) ''name'')) (pg_get_job 1 ?db) =
      Some (RUNNING, ''hello'', Some (JStr ''Bob''))" by code_simp
  then obtain b where b: "pg_get_job 1 ?db = Some b" "j_status b = RUNNING" "j_job_type b = ''hello''"
    "fmlookup (j_input_payload b) ''name'' = Some (JStr ''Bob'')" by auto
  have "config_row ''hello'' ?db \<noteq> None" by code_simp
  then obtain c where "config_row (j_job_type b) ?db = Some c" using b(3) by auto
  from resolve_payload_overlays [OF inv b(1,2) this, of 6] b(3,4) show ?thesis by auto
qed

text \<open>
  C22. The worker commits after the work, and only then: its rounds are idle, or process one message and commit once and
  report the outcome, until a round raises. That ends the loop with the exception, and it is one of three: the poll raised or gave no
  dictionary with the two keys (nothing is done or committed), the processing raised (not committed), or the commit that followed
  the processing did. On Postgres, with any values in the messages and even where calls of the store may fail, the constraints hold
  throughout, and the job of every committed message is waiting for no worker: it runs, has ended or does not exist, so no
  committed message leaves its job undone.
\<close>

theorem worker_loop_commits:
  assumes "pg_inv db" "may_raise C (store_calls cv pg_ops)" "wl_error log = None"
    and "worker_loop C lookup repr poll commit clks n log db k = Some (log', db', k')"
  shows "pg_inv db' \<and> (\<exists>m msgs db1 k1. worked C lookup poll commit clks m db k msgs db1 k1 \<and>
    wl_output log' = wl_output log @ map (message_line repr) msgs \<and> wl_committed log' = wl_committed log + length msgs \<and>
    (\<forall>i v outcome j b. (i, v, outcome) \<in> set msgs \<and> job_id_arg cv i = Inr (Some j) \<and> pg_get_job j db' = Some b \<longrightarrow>
       j_status b \<notin> {QUEUED, DISPATCHED}) \<and>
    (case wl_error log' of
       None \<Rightarrow> m = n \<and> db' = db1 \<and> k' = k1
     | Some e \<Rightarrow> m < n \<and> (\<exists>msg k2. poll k1 = (Some msg, k2) \<and> round_raises C lookup commit (clks m) msg db1 k2 e db' k')))"
proof -
  obtain m msgs db1 k1 where rounds: "worked C lookup poll commit clks m db k msgs db1 k1"
    "wl_output log' = wl_output log @ map (message_line repr) msgs" "wl_committed log' = wl_committed log + length msgs"
    "m = n \<and> wl_error log' = wl_error log \<and> db' = db1 \<and> k' = k1 \<or>
     m < n \<and> (\<exists>e msg k2. wl_error log' = Some e \<and> poll k1 = (Some msg, k2) \<and>
       round_raises C lookup commit (clks m) msg db1 k2 e db' k')"
    using worker_loop_rounds [OF assms(4)] by blast
  note worked = worked_keeps [OF rounds(1) assms(2,1)]
  have "keeps_past db1 db'" using rounds(4) round_raises_keeps [OF _ assms(2)] by auto
  with worked have inv: "pg_inv db'" and past: "\<forall>i v outcome j. (i, v, outcome) \<in> set msgs \<and> job_id_arg cv i = Inr (Some j) \<longrightarrow> past_claim j db'"
    by (auto simp: keeps_past_def)
  show ?thesis
    by (intro conjI exI [of _ m] exI [of _ msgs] exI [of _ db1] exI [of _ k1])
      (use inv past rounds assms(3) in \<open>auto simp: past_claim_def\<close>)
qed

text \<open>The messages of the example: the job's, its duplicate, one for no job, nothing, and one that is no dictionary.\<close>

definition demo_poll :: "json list \<Rightarrow> (exn + json) option \<times> json list" where
  "demo_poll q = (case q of [] \<Rightarrow> (Some (Inr JNull), []) | v # q' \<Rightarrow> (Some (Inr v), q'))"

theorem worker_loop_commits_witness:
  "let run = worker_loop (store_calls demo_conversion pg_ops) demo_lookup (\<lambda>_. []) demo_poll (\<lambda>q. (None, q)) (\<lambda>_ i. int i) 5
         \<lparr>wl_committed = 0, wl_output = [], wl_error = None\<rparr> demo_db
         [JObj (build_envelope 1 ''hello''), JNull, JObj (build_envelope 1 ''hello''),
          JObj (fmap_of_list [(''job_id'', JNull), (''job_type'', JInt 5)]), JArr []]
   in map_option (\<lambda>(log, db, q). (wl_error log, wl_committed log, map_option j_status (pg_get_job 1 db))) run =
        Some (Some TypeError, 3, Some COMPLETED) \<and> map_option (\<lambda>(log, db, q). pg_inv db) run = Some True"
proof -
  let ?q = "[JObj (build_envelope 1 ''hello''), JNull, JObj (build_envelope 1 ''hello''),
     JObj (fmap_of_list [(''job_id'', JNull), (''job_type'', JInt 5)]), JArr []]"
  let ?log = "\<lparr>wl_committed = 0, wl_output = [], wl_error = None\<rparr>"
  let ?run = "worker_loop (store_calls demo_conversion pg_ops) demo_lookup (\<lambda>_. []) demo_poll (\<lambda>q. (None, q)) (\<lambda>_ i. int i) 5
     ?log demo_db ?q"
  have eval: "map_option (\<lambda>(log, db, q). (wl_error log, wl_committed log, map_option j_status (pg_get_job 1 db))) ?run =
      Some (Some TypeError, 3, Some COMPLETED)" by code_simp
  then obtain log db q where run: "?run = Some (log, db, q)" by (cases ?run) auto
  have "may_raise (store_calls demo_conversion pg_ops) (store_calls demo_conversion pg_ops)"
    by (simp add: may_raise_def may_raise_call_def)
  from worker_loop_commits [OF pg_inv_demo this _ run] have "pg_inv db" by simp
  with eval run show ?thesis unfolding Let_def by simp
qed

text \<open>
  Registering a handler: a type that is registered already is refused with \<open>ValueError\<close>; otherwise the new handler is
  found under its type, every other type is looked up as before, and the sorted list of types gains exactly this one.
\<close>

lemma register_lookup:
  "case register jt fn reg of
     Inl e \<Rightarrow> e = ValueError \<and> get_handler reg jt \<noteq> None
   | Inr reg' \<Rightarrow> get_handler reg jt = None \<and> get_handler reg' = (get_handler reg)(jt \<mapsto> fn) \<and>
       sorted (registered_types reg') \<and> set (registered_types reg') = insert jt (set (registered_types reg))"
  by (auto simp: register_def get_handler_def registered_types_def map_of_eq_None_iff update_conv' fun_eq_iff
      dom_update weak_map_of_SomeI image_iff split: sum.split)

end
