(* ===== verification/Reaper.thy ===== *)
theory Reaper
  imports Memory_Store Postgres_Store
begin

text \<open>
  The reaper: one sweep over the stuck runs (\<open>reaper/service.py\<close>) and the service loop
  (\<open>reaper/__main__.py\<close>). A run under the churn cap of its type is queued again and its outbox row is
  made unpublished; a run at the cap is failed.
\<close>

section \<open>Definitions\<close>

record reap_stats =
  rs_requeued :: nat
  rs_dead_lettered :: nat

text \<open>The \<open>for\<close> loop of \<open>reap_once\<close>; each iteration reads the clock at most twice.\<close>

fun reap_all ::
  "'s store_ops \<Rightarrow> clock \<Rightarrow> stuck_job list \<Rightarrow> reap_stats \<Rightarrow> 's \<Rightarrow> reap_stats \<times> 's" where
  "reap_all ops clk [] stats s = (stats, s)"
| "reap_all ops clk (stuck # rest) stats s =
     (let (requeued, s1) = op_requeue_stuck ops (clk 0) (sj_job_id stuck) s in
      if requeued then
        reap_all ops (clk \<circ> (+) 2) rest (stats\<lparr>rs_requeued := rs_requeued stats + 1\<rparr>) s1
      else
        let (dead, s2) = op_dead_letter ops (clk 1) (sj_job_id stuck) s1 in
        reap_all ops (clk \<circ> (+) 2) rest
          (if dead then stats\<lparr>rs_dead_lettered := rs_dead_lettered stats + 1\<rparr> else stats) s2)"

definition reap_once :: "'s store_ops \<Rightarrow> clock \<Rightarrow> 's \<Rightarrow> reap_stats \<times> 's" where
  "reap_once ops clk s =
     reap_all ops (clk \<circ> Suc) (op_find_stuck ops (clk 0) s) \<lparr>rs_requeued = 0, rs_dead_lettered = 0\<rparr> s"

definition reap_line :: "reap_stats \<Rightarrow> string" where
  "reap_line st = ''reaped: requeued='' @ nat_str (rs_requeued st) @ '' dead_lettered='' @
     nat_str (rs_dead_lettered st) @ [char_of (10 :: nat)]"

text \<open>The service loop for a given number of sweeps, with the lines it prints.\<close>

fun reaper_loop :: "'s store_ops \<Rightarrow> (nat \<Rightarrow> clock) \<Rightarrow> nat \<Rightarrow> 's \<Rightarrow> string list \<times> 's" where
  "reaper_loop ops clks 0 s = ([], s)"
| "reaper_loop ops clks (Suc n) s =
     (let (st, s') = reap_once ops (clks 0) s;
          (out, s'') = reaper_loop ops (clks \<circ> Suc) n s'
      in ((if rs_requeued st > 0 \<or> rs_dead_lettered st > 0 then [reap_line st] else []) @ out, s''))"

section \<open>What a sweep does\<close>

definition under_cap :: "astate \<Rightarrow> int \<Rightarrow> bool" where
  "under_cap a j \<longleftrightarrow> (case a_jobs a j of
      None \<Rightarrow> False
    | Some b \<Rightarrow> j_attempts b < max_attempts_of (a_config a) (j_job_type b))"

definition reaped_row :: "(string \<rightharpoonup> type_config) \<Rightarrow> time \<Rightarrow> job \<Rightarrow> job" where
  "reaped_row cfg t b =
     (if j_attempts b < max_attempts_of cfg (j_job_type b)
      then b\<lparr>j_status := QUEUED, j_attempts := j_attempts b + 1, j_updated_at := t\<rparr>
      else b\<lparr>j_status := FAILED, j_updated_at := t\<rparr>)"

definition unpublish :: "int set \<Rightarrow> (int \<rightharpoonup> outbox_message \<times> bool) \<Rightarrow> (int \<rightharpoonup> outbox_message \<times> bool)" where
  "unpublish J ob = (\<lambda>k. map_option (\<lambda>(m, p). (m, p \<and> om_job_id m \<notin> J)) (ob k))"

lemma unpublish_empty [simp]: "unpublish {} ob = ob"
  by (simp add: unpublish_def option.map_id)

lemma unpublish_unpublish [simp]: "unpublish J (unpublish I ob) = unpublish (I \<union> J) ob"
  by (auto simp: unpublish_def option.map_comp comp_def fun_eq_iff intro!: option.map_cong)

lemma a_rearm_unpublish: "a_rearm j = unpublish {j}"
  by (simp add: a_rearm_def unpublish_def fun_eq_iff)

lemma reaped_row_simps [simp]:
  "j_job_type (reaped_row cfg t b) = j_job_type b" "j_id (reaped_row cfg t b) = j_id b"
  "j_input_payload (reaped_row cfg t b) = j_input_payload b" "j_status (reaped_row cfg t b) \<noteq> RUNNING"
  by (simp_all add: reaped_row_def)

text \<open>
  The effect of a sweep over the running jobs \<open>J\<close>: each row of \<open>J\<close> is queued again or failed by the cap of
  its type, the messages of those queued again are unpublished, and nothing else changes.
\<close>

definition swept :: "int set \<Rightarrow> astate \<Rightarrow> astate \<Rightarrow> bool" where
  "swept J a a' \<longleftrightarrow> a_config a' = a_config a \<and>
     (\<forall>j. j \<notin> J \<longrightarrow> a_jobs a' j = a_jobs a j) \<and>
     (\<forall>j \<in> J. \<exists>b t. a_jobs a j = Some b \<and> j_status b = RUNNING \<and>
        a_jobs a' j = Some (reaped_row (a_config a) t b)) \<and>
     a_outbox a' = unpublish {j \<in> J. under_cap a j} (a_outbox a)"

lemma swept_empty [simp]: "swept {} a a' \<longleftrightarrow> a' = a"
  by (auto simp: swept_def fun_eq_iff)

lemma under_cap_other:
  "a_config a' = a_config a \<Longrightarrow> a_jobs a' j = a_jobs a j \<Longrightarrow> under_cap a' j = under_cap a j"
  by (simp add: under_cap_def split: option.split)

lemma swept_single:
  assumes "a_jobs a i = Some b" "j_status b = RUNNING"
    and "a' = a\<lparr>a_jobs := (a_jobs a)(i \<mapsto> reaped_row (a_config a) t b),
           a_outbox := unpublish (if under_cap a i then {i} else {}) (a_outbox a)\<rparr>"
  shows "swept {i} a a'"
proof -
  have "{j. j = i \<and> under_cap a j} = (if under_cap a i then {i} else {})" by auto
  with assms show ?thesis by (auto simp: swept_def)
qed

lemma swept_insert:
  assumes one: "swept {i} a a1" and rest: "swept J a1 a'" and new: "i \<notin> J"
  shows "swept (insert i J) a a'"
proof -
  from one have cfg: "a_config a1 = a_config a" and frame: "\<And>j. j \<noteq> i \<Longrightarrow> a_jobs a1 j = a_jobs a j"
    by (auto simp: swept_def)
  have cap: "under_cap a1 j = under_cap a j" if "j \<in> J" for j
    using that new by (intro under_cap_other cfg frame) auto
  have "{j \<in> insert i J. under_cap a j} = {j \<in> {i}. under_cap a j} \<union> {j \<in> J. under_cap a1 j}"
    using cap by auto
  with one rest have "a_outbox a' = unpublish {j \<in> insert i J. under_cap a j} (a_outbox a)"
    by (simp add: swept_def)
  moreover have "\<exists>b t. a_jobs a j = Some b \<and> j_status b = RUNNING \<and>
      a_jobs a' j = Some (reaped_row (a_config a) t b)" if "j \<in> insert i J" for j
  proof (cases "j = i")
    case True
    with one rest new show ?thesis by (auto simp: swept_def)
  next
    case False
    with that rest have "\<exists>b t. a_jobs a1 j = Some b \<and> j_status b = RUNNING \<and>
      a_jobs a' j = Some (reaped_row (a_config a) t b)" by (auto simp: swept_def cfg)
    with frame [OF False] show ?thesis by simp
  qed
  ultimately show ?thesis using rest by (auto simp: swept_def cfg frame)
qed

context job_store
begin

text \<open>One iteration on a running row.\<close>

lemma reap_one:
  assumes inv: "inv s" and b: "a_jobs (abs s) (sj_job_id x) = Some b" "j_status b = RUNNING"
  obtains s1 where "inv s1" "swept {sj_job_id x} (abs s) (abs s1)"
    "reap_all ops clk (x # xs) st s = reap_all ops (clk \<circ> (+) 2) xs
       (if under_cap (abs s) (sj_job_id x) then st\<lparr>rs_requeued := rs_requeued st + 1\<rparr>
        else st\<lparr>rs_dead_lettered := rs_dead_lettered st + 1\<rparr>) s1"
proof (cases "under_cap (abs s) (sj_job_id x)")
  case True
  obtain r s1 where r: "op_requeue_stuck ops (clk 0) (sj_job_id x) s = (r, s1)" by fastforce
  from True b have cap: "j_attempts b < max_attempts_of (a_config (abs s)) (j_job_type b)"
    by (simp add: under_cap_def)
  from requeue [OF inv, of "clk 0" "sj_job_id x"] r b cap have "r" "inv s1"
    "abs s1 = (abs s)\<lparr>a_jobs := (a_jobs (abs s))(sj_job_id x \<mapsto> reaped_row (a_config (abs s)) (clk 0) b),
      a_outbox := unpublish {sj_job_id x} (a_outbox (abs s))\<rparr>"
    by (simp_all add: spec_requeue_def reaped_row_def a_rearm_unpublish)
  with that [of s1] swept_single [OF b, of "abs s1" "clk 0"] True r show thesis by simp
next
  case False
  with b have cap: "\<not> j_attempts b < max_attempts_of (a_config (abs s)) (j_job_type b)"
    by (simp add: under_cap_def)
  obtain r s1 where r: "op_requeue_stuck ops (clk 0) (sj_job_id x) s = (r, s1)" by fastforce
  from requeue [OF inv, of "clk 0" "sj_job_id x"] r b cap have s1: "\<not> r" "inv s1" "abs s1 = abs s"
    by (simp_all add: spec_requeue_def)
  obtain d s2 where d: "op_dead_letter ops (clk 1) (sj_job_id x) s1 = (d, s2)" by fastforce
  from dead_letter [OF s1(2), of "clk 1" "sj_job_id x"] d b cap s1 have "d" "inv s2"
    "abs s2 = (abs s)\<lparr>a_jobs := (a_jobs (abs s))(sj_job_id x \<mapsto> reaped_row (a_config (abs s)) (clk 1) b)\<rparr>"
    by (simp_all add: spec_finish_def a_guarded_Some reaped_row_def)
  with that [of s2] swept_single [OF b, of "abs s2" "clk 1"] False r s1 d show thesis by simp
qed

lemma reap_all_spec:
  assumes "inv s" "distinct (map sj_job_id xs)"
    and "\<And>x. x \<in> set xs \<Longrightarrow> \<exists>b. a_jobs (abs s) (sj_job_id x) = Some b \<and> j_status b = RUNNING"
    and "reap_all ops clk xs st s = (st', s')"
  shows "inv s' \<and> swept (sj_job_id ` set xs) (abs s) (abs s') \<and>
    rs_requeued st' = rs_requeued st + length (filter (\<lambda>y. under_cap (abs s) (sj_job_id y)) xs) \<and>
    rs_dead_lettered st' = rs_dead_lettered st + length (filter (\<lambda>y. \<not> under_cap (abs s) (sj_job_id y)) xs)"
  using assms
proof (induction xs arbitrary: clk st s)
  case Nil
  then show ?case by simp
next
  case (Cons x xs)
  let ?j = "sj_job_id x" and ?a = "abs s"
  let ?st = "if under_cap ?a ?j then st\<lparr>rs_requeued := rs_requeued st + 1\<rparr>
        else st\<lparr>rs_dead_lettered := rs_dead_lettered st + 1\<rparr>"
  from Cons.prems(3) [of x] obtain b where b: "a_jobs ?a ?j = Some b" "j_status b = RUNNING" by auto
  obtain s1 where s1: "inv s1" "swept {?j} ?a (abs s1)"
    "reap_all ops clk (x # xs) st s = reap_all ops (clk \<circ> (+) 2) xs ?st s1"
    by (rule reap_one [OF Cons.prems(1) b])
  have new: "?j \<notin> sj_job_id ` set xs" and dist: "distinct (map sj_job_id xs)" using Cons.prems(2) by auto
  have frame: "a_config (abs s1) = a_config ?a" "a_jobs (abs s1) (sj_job_id y) = a_jobs ?a (sj_job_id y)"
    if "y \<in> set xs" for y
  proof -
    have "sj_job_id y \<notin> {?j}" using new that by (metis imageI singletonD)
    with s1(2) show "a_config (abs s1) = a_config ?a" "a_jobs (abs s1) (sj_job_id y) = a_jobs ?a (sj_job_id y)"
      unfolding swept_def by blast+
  qed
  have "\<exists>b. a_jobs (abs s1) (sj_job_id y) = Some b \<and> j_status b = RUNNING" if "y \<in> set xs" for y
    using Cons.prems(3) [of y] frame [OF that] that by simp
  note IH = Cons.IH [OF s1(1) dist this Cons.prems(4) [unfolded s1(3)]]
  have "filter (\<lambda>y. under_cap (abs s1) (sj_job_id y)) xs = filter (\<lambda>y. under_cap ?a (sj_job_id y)) xs"
      "filter (\<lambda>y. \<not> under_cap (abs s1) (sj_job_id y)) xs = filter (\<lambda>y. \<not> under_cap ?a (sj_job_id y)) xs"
    using under_cap_other [OF frame] by (auto intro: filter_cong)
  moreover have "swept (sj_job_id ` set (x # xs)) ?a (abs s')"
    using swept_insert [OF s1(2) _ new] IH by simp
  ultimately show ?case using IH by (auto split: if_splits)
qed

lemma reap_once_spec:
  assumes "inv s" "reap_once ops clk s = (st, s')"
  shows "inv s'" "swept (a_stuck (clk 0) (abs s)) (abs s) (abs s')"
    "rs_requeued st = card {j \<in> a_stuck (clk 0) (abs s). under_cap (abs s) j}"
    "rs_dead_lettered st = card {j \<in> a_stuck (clk 0) (abs s). \<not> under_cap (abs s) j}"
proof -
  let ?xs = "op_find_stuck ops (clk 0) s" and ?a = "abs s"
  have dist: "distinct (map sj_job_id ?xs)" and ids: "sj_job_id ` set ?xs = a_stuck (clk 0) ?a"
    using find_stuck [OF assms(1), of "clk 0"] by auto
  have "\<exists>b. a_jobs ?a (sj_job_id x) = Some b \<and> j_status b = RUNNING" if "x \<in> set ?xs" for x
    using ids that unfolding a_stuck_def by blast
  note spec = reap_all_spec [OF assms(1) dist this assms(2) [unfolded reap_once_def]]
  have count: "length (filter (\<lambda>y. P (sj_job_id y)) ?xs) = card {j \<in> a_stuck (clk 0) ?a. P j}" for P
  proof -
    have "distinct (map sj_job_id (filter (\<lambda>y. P (sj_job_id y)) ?xs))" using dist by (rule distinct_map_filter)
    then have "length (filter (\<lambda>y. P (sj_job_id y)) ?xs) = card (sj_job_id ` set (filter (\<lambda>y. P (sj_job_id y)) ?xs))"
      by (metis distinct_card length_map list.set_map)
    also have "sj_job_id ` set (filter (\<lambda>y. P (sj_job_id y)) ?xs) = {j \<in> a_stuck (clk 0) ?a. P j}"
      using ids by auto
    finally show ?thesis .
  qed
  show "inv s'" "swept (a_stuck (clk 0) ?a) ?a (abs s')"
    "rs_requeued st = card {j \<in> a_stuck (clk 0) ?a. under_cap ?a j}"
    using spec ids count [of "under_cap ?a"] by auto
  show "rs_dead_lettered st = card {j \<in> a_stuck (clk 0) ?a. \<not> under_cap ?a j}"
    using spec count [of "\<lambda>j. \<not> under_cap ?a j"] by simp
qed

end

section \<open>Properties\<close>

text \<open>
  C14. One sweep on the Postgres store recovers exactly the running jobs that are past their type's timeout: one under
  the cap of its type is queued again with one more attempt and its message unpublished, one at the cap is failed; the
  counts say how many of each; no other row and no other message changes.
\<close>

theorem pg_reap_once_correct:
  assumes "pg_inv db" "reap_once pg_ops clk db = (stats, db')"
  shows "pg_inv db' \<and> swept (a_stuck (clk 0) (pg_abs db)) (pg_abs db) (pg_abs db') \<and>
    rs_requeued stats = card {j \<in> a_stuck (clk 0) (pg_abs db). under_cap (pg_abs db) j} \<and>
    rs_dead_lettered stats = card {j \<in> a_stuck (clk 0) (pg_abs db). \<not> under_cap (pg_abs db) j}"
  using pg.reap_once_spec [OF assms] by simp

theorem pg_reap_once_witness:
  "rs_requeued (fst (reap_once pg_ops (\<lambda>_. minutes 20) (snd (pg_claim 5 1 demo_db)))) = 1 \<and>
   pg_inv (snd (reap_once pg_ops (\<lambda>_. minutes 20) (snd (pg_claim 5 1 demo_db)))) \<and>
   map_option j_status (pg_get_job 1 (snd (reap_once pg_ops (\<lambda>_. minutes 20) (snd (pg_claim 5 1 demo_db))))) = Some QUEUED"
proof -
  let ?db = "snd (pg_claim 5 1 demo_db)"
  let ?r = "reap_once pg_ops (\<lambda>_. minutes 20) ?db"
  have "pg_inv ?db" using pg.claim [OF pg_inv_demo, of 5 1] by (simp add: pg_ops_def)
  then have "pg_inv (snd ?r)" using pg_reap_once_correct [of ?db "\<lambda>_. minutes 20" "fst ?r" "snd ?r"] by simp
  moreover have "rs_requeued (fst ?r) = 1" by code_simp
  moreover have "map_option j_status (pg_get_job 1 (snd ?r)) = Some QUEUED" by code_simp
  ultimately show ?thesis by blast
qed

text \<open>
  A sweep of the in-memory store leaves none of the jobs it found stuck running, and frees the type of each one that
  was at its cap.
\<close>

lemma mem_reap_once_clears:
  assumes "mem_inv s" "reap_once mem_ops clk s = (stats, s')" "j \<in> a_stuck (clk 0) (mem_abs s)"
  shows "\<exists>b. mem_get_job j s' = Some b \<and> (if under_cap (mem_abs s) j then j_status b = QUEUED
     else j_status b = FAILED \<and> \<not> a_active (mem_abs s') (j_job_type b))"
proof -
  from mem.reap_once_spec(2) [OF assms(1,2)] assms(3) obtain b0 t where
    b0: "a_jobs (mem_abs s) j = Some b0" "j_status b0 = RUNNING"
      "a_jobs (mem_abs s') j = Some (reaped_row (a_config (mem_abs s)) t b0)"
    and frame: "\<And>i. i \<notin> a_stuck (clk 0) (mem_abs s) \<Longrightarrow> a_jobs (mem_abs s') i = a_jobs (mem_abs s) i"
    unfolding swept_def by metis
  have cap: "under_cap (mem_abs s) j \<longleftrightarrow> j_attempts b0 < max_attempts_of (a_config (mem_abs s)) (j_job_type b0)"
    unfolding under_cap_def b0(1) by simp
  from b0(3) obtain b where b: "mem_get_job j s' = Some b"
    "with_creator b = reaped_row (a_config (mem_abs s)) t b0" by (auto simp: mem_get_job_def)
  then have same: "j_status b = j_status (reaped_row (a_config (mem_abs s)) t b0)" "j_job_type b = j_job_type b0"
    by (metis with_creator_simps(3), metis with_creator_simps(2) reaped_row_simps(1))
  have "\<not> a_active (mem_abs s') (j_job_type b)" if "\<not> under_cap (mem_abs s) j"
  proof
    assume "a_active (mem_abs s') (j_job_type b)"
    then obtain i c where c: "a_jobs (mem_abs s') i = Some c" "j_job_type c = j_job_type b0" "active_job c"
      by (auto simp: a_active_def same(2))
    have "i \<noteq> j"
    proof
      assume "i = j"
      with c(1) b0(3) have "c = reaped_row (a_config (mem_abs s)) t b0" by (metis option.inject)
      with c(3) that show False by (simp add: cap reaped_row_def)
    qed
    obtain c0 where "a_jobs (mem_abs s) i = Some c0" "j_job_type c0 = j_job_type b0" "active_job c0"
    proof (cases "i \<in> a_stuck (clk 0) (mem_abs s)")
      case True
      with mem.reap_once_spec(2) [OF assms(1,2)] c that show ?thesis unfolding swept_def
        by (metis ACTIVE_simps(3) option.inject reaped_row_simps(1))
    next
      case False
      with frame c that show ?thesis by simp
    qed
    moreover have "active_job b0" using b0(2) by simp
    ultimately show False using mem.inv_wf [OF assms(1)] b0(1) \<open>i \<noteq> j\<close>
      unfolding a_wf_def one_active_def by blast
  qed
  with b(1) same cap show ?thesis by (auto simp: reaped_row_def)
qed

end
