(* ===== verification/Handler.thy ===== *)
theory Handler
  imports Memory_Store Postgres_Store Json_Laws Settings
begin

text \<open>
  The producer side: \<open>handler/service.py\<close>, the one place a job is enqueued from, and the command line
  of \<open>handler/__main__.py\<close>.
\<close>

section \<open>Definitions\<close>

record enqueue_result =
  er_job_id :: "int option"
  er_enqueued :: bool

definition enqueue ::
  "'s store_ops \<Rightarrow> time \<Rightarrow> time \<Rightarrow> string \<Rightarrow> payload option \<Rightarrow> 's \<Rightarrow> enqueue_result \<times> 's" where
  "enqueue ops t u job_type p s =
     (let (job_id, s') = op_enqueue ops t u job_type (Some (or_empty p)) None s
      in (\<lparr>er_job_id = job_id, er_enqueued = (job_id \<noteq> None)\<rparr>, s'))"

text \<open>
  The command line. Its second argument is decoded by \<open>json.loads\<close>. A value that is false in Python
  becomes the empty object in \<open>enqueue\<close>; any other value that is no object is stored as it is,
  outside the types the signature of \<open>enqueue\<close> declares and outside this model (\<open>Untyped\<close>), and so is a text
  with characters above 255 (\<open>Foreign\<close>). \<open>err\<close> says which attempts to open the connection pool fail; the
  pool, if one was made, is the last component of the result. \<open>fault\<close> is what may go wrong in the transaction of \<open>enqueue\<close> (the database is
  gone, or refuses the arguments as \<open>pg_refuses\<close> says): the exception, and the store as the failed call leaves it. The \<open>finally\<close>
  closes the pool then, too.
\<close>

datatype cli_result =
    Exit int string string   \<comment> \<open>exit status, standard output, standard error\<close>
  | Raised exn
  | Untyped json
  | Foreign

definition as_payload :: "json \<Rightarrow> payload option" where
  "as_payload v = (case v of
      JObj p \<Rightarrow> Some p
    | JNull \<Rightarrow> Some fmempty
    | JBool False \<Rightarrow> Some fmempty
    | JInt i \<Rightarrow> (if i = 0 then Some fmempty else None)
    | JFloat m e \<Rightarrow> (if m = 0 then Some fmempty else None)
    | JStr s \<Rightarrow> (if s = [] then Some fmempty else None)
    | JArr xs \<Rightarrow> (if xs = [] then Some fmempty else None)
    | _ \<Rightarrow> None)"

definition cli_report :: "string \<Rightarrow> enqueue_result \<Rightarrow> string" where
  "cli_report job_type r = (case er_job_id r of
      Some jid \<Rightarrow> ''enqueued '' @ job_type @ '' as job '' @ int_str jid @ [char_of (10 :: nat)]
    | None \<Rightarrow> ''skipped '' @ job_type @ '': an active job already exists'' @ [char_of (10 :: nat)])"

definition handler_main ::
  "'s store_ops \<Rightarrow> (string \<Rightarrow> json) \<Rightarrow> (string \<Rightarrow> exn + interval) \<Rightarrow> environment \<Rightarrow> (nat \<Rightarrow> string option) \<Rightarrow>
   (string \<Rightarrow> payload \<Rightarrow> 's \<Rightarrow> (exn \<times> 's) option) \<Rightarrow> time \<Rightarrow> time \<Rightarrow> string list \<Rightarrow> 's \<Rightarrow> cli_result \<times> 's \<times> pool option" where
  "handler_main ops flt py_float env err fault t u argv s = (case argv of
      [] \<Rightarrow> (Exit 2 [] (''usage: python -m handler <job_type> [payload_json]'' @ newline), s, None)
    | job_type # args \<Rightarrow>
        (case (case args of [] \<Rightarrow> Decoded (JObj fmempty) | arg # _ \<Rightarrow> json_loads flt arg) of
           Decoded v \<Rightarrow> (case config_from_env py_float env of
              Inl e \<Rightarrow> (Raised e, s, None)
            | Inr cfg \<Rightarrow> (case pg_init err (cf_database_url cfg) 30 of
                  (Inl e, _, pool) \<Rightarrow> (Raised e, s, Some pool)
                | (Inr _, _, pool) \<Rightarrow> (case as_payload v of
                      None \<Rightarrow> (Untyped v, s, Some (pg_close pool))
                    | Some p \<Rightarrow> (case fault job_type p s of
                          Some (e, s') \<Rightarrow> (Raised e, s', Some (pg_close pool))
                        | None \<Rightarrow>
                            let (r, s') = enqueue ops t u job_type (Some p) s
                            in (Exit 0 (cli_report job_type r) [], s', Some (pg_close pool))))))
         | Invalid \<Rightarrow> (Raised ValueError, s, None)
         | _ \<Rightarrow> (Foreign, s, None)))"

section \<open>Enqueueing\<close>

text \<open>The row and the message of a fresh job, and the rest as it was.\<close>

definition enqueued_as :: "int \<Rightarrow> string \<Rightarrow> payload \<Rightarrow> astate \<Rightarrow> astate \<Rightarrow> bool" where
  "enqueued_as jid jt p a a' \<longleftrightarrow> a_config a' = a_config a \<and> a_jobs a jid = None \<and>
     (\<exists>t v. a_jobs a' = (a_jobs a)(jid \<mapsto> with_creator (new_job jid t v jt (Some p) None))) \<and>
     (\<exists>k. a_outbox a k = None \<and> a_outbox a' = (a_outbox a)(k \<mapsto> (new_message k jid jt, False)) \<and>
        a_pending a' = a_pending a @ [new_message k jid jt])"

context job_store
begin

lemma enqueue_active:
  assumes "inv s" "a_active (abs s) jt"
  obtains s' where "enqueue ops t u jt p s = (\<lparr>er_job_id = None, er_enqueued = False\<rparr>, s')"
    "inv s'" "abs s' = abs s"
  using enqueue_dup [OF assms, of t u "Some (or_empty p)" None] that by (auto simp: enqueue_def)

lemma enqueue_fresh:
  assumes "inv s" "\<not> a_active (abs s) jt"
  obtains s' jid where "enqueue ops t u jt p s = (\<lparr>er_job_id = Some jid, er_enqueued = True\<rparr>, s')"
    "inv s'" "enqueued_as jid jt (or_empty p) (abs s) (abs s')"
proof -
  obtain s' jid k v where new: "op_enqueue ops t u jt (Some (or_empty p)) None s = (Some jid, s')"
    "inv s'" "a_jobs (abs s) jid = None" "\<forall>k' \<in> dom (a_outbox (abs s)). k' < k"
    "abs s' = spec_enqueue jid k t v jt (Some (or_empty p)) None (abs s)"
    using enqueue_new [OF assms, of t u "Some (or_empty p)" None] by blast
  have "a_outbox (abs s) k = None" using new(4) by (metis domIff less_irrefl)
  moreover have "a_pending (abs s') = a_pending (abs s) @ [new_message k jid jt]"
    unfolding new(5) using inv_wf [OF assms(1)] new(4) by (intro a_pending_enqueue) auto
  ultimately have "enqueued_as jid jt (or_empty p) (abs s) (abs s')"
    unfolding enqueued_as_def using new(3) by (fastforce simp: new(5) spec_enqueue_def)
  with that new show thesis by (simp add: enqueue_def)
qed

lemma enqueue_spec:
  assumes "inv s" "enqueue ops t u jt p s = (r, s')"
  shows "inv s'" "er_enqueued r \<longleftrightarrow> \<not> a_active (abs s) jt" "er_enqueued r \<longleftrightarrow> er_job_id r \<noteq> None"
    "\<not> er_enqueued r \<Longrightarrow> abs s' = abs s"
    "er_job_id r = Some jid \<Longrightarrow> enqueued_as jid jt (or_empty p) (abs s) (abs s')"
proof -
  have *: "inv s' \<and> (er_enqueued r \<longleftrightarrow> \<not> a_active (abs s) jt) \<and> (er_enqueued r \<longleftrightarrow> er_job_id r \<noteq> None) \<and>
    (\<not> er_enqueued r \<longrightarrow> abs s' = abs s) \<and>
    (er_job_id r = Some jid \<longrightarrow> enqueued_as jid jt (or_empty p) (abs s) (abs s'))"
  proof (cases "a_active (abs s) jt")
    case True
    with assms show ?thesis by (elim enqueue_active [of s jt t u p]) auto
  next
    case False
    with assms show ?thesis by (elim enqueue_fresh [of s jt t u p]) auto
  qed
  then show "inv s'" "er_enqueued r \<longleftrightarrow> \<not> a_active (abs s) jt" "er_enqueued r \<longleftrightarrow> er_job_id r \<noteq> None"
    "\<not> er_enqueued r \<Longrightarrow> abs s' = abs s"
    "er_job_id r = Some jid \<Longrightarrow> enqueued_as jid jt (or_empty p) (abs s) (abs s')" by auto
qed

end

section \<open>Properties\<close>

text \<open>
  C10. Enqueueing through the service function on the Postgres store: with an active job of the type nothing is
  written and the result says so; otherwise a fresh queued job with the given overrides appears together with its message,
  last in the outbox, and nothing else changes. Either way exactly one job of the type is active afterwards.
\<close>

theorem pg_enqueue_correct:
  assumes "pg_inv db" "enqueue pg_ops t u jt p db = (r, db')"
  shows "pg_inv db' \<and> (er_enqueued r \<longleftrightarrow> er_job_id r \<noteq> None) \<and> (er_enqueued r \<longleftrightarrow> \<not> a_active (pg_abs db) jt) \<and>
    (case er_job_id r of None \<Rightarrow> pg_abs db' = pg_abs db
       | Some jid \<Rightarrow> enqueued_as jid jt (or_empty p) (pg_abs db) (pg_abs db')) \<and>
    (\<exists>!j. \<exists>b. pg_get_job j db' = Some b \<and> j_job_type b = jt \<and> active_job b)"
proof -
  note spec = pg.enqueue_spec [OF assms]
  have "\<exists>j b. pg_get_job j db' = Some b \<and> j_job_type b = jt \<and> active_job b"
  proof (cases "er_job_id r")
    case None
    with spec(2,3,4) show ?thesis by (auto simp: a_active_def pg_get_job_abs simp del: pg_abs_simps)
  next
    case (Some jid)
    from spec(5) [OF Some] obtain t v where
      "a_jobs (pg_abs db') = (a_jobs (pg_abs db))(jid \<mapsto> with_creator (new_job jid t v jt (Some (or_empty p)) None))"
      unfolding enqueued_as_def by blast
    then show ?thesis unfolding pg_get_job_abs
      by (intro exI [of _ jid] exI [of _ "with_creator (new_job jid t v jt (Some (or_empty p)) None)"]) simp
  qed
  moreover have "one_active (pg_abs db')" using pg.inv_wf [OF spec(1)] by (simp add: a_wf_def)
  ultimately have "\<exists>!j. \<exists>b. pg_get_job j db' = Some b \<and> j_job_type b = jt \<and> active_job b"
    unfolding pg_get_job_abs one_active_def by blast
  then show ?thesis using spec by (auto split: option.split)
qed

theorem pg_enqueue_correct_witness:
  "fst (enqueue pg_ops 3 3 ''hello'' None demo_db) = \<lparr>er_job_id = None, er_enqueued = False\<rparr> \<and>
   pg_abs (snd (enqueue pg_ops 3 3 ''hello'' None demo_db)) = pg_abs demo_db"
proof -
  let ?r = "enqueue pg_ops 3 3 ''hello'' None demo_db"
  have r: "fst ?r = \<lparr>er_job_id = None, er_enqueued = False\<rparr>" by code_simp
  have "?r = (fst ?r, snd ?r)" by simp
  from pg_enqueue_correct [OF pg_inv_demo this] r show ?thesis by simp
qed

text \<open>
  C21. The command line: without arguments it prints the usage and exits with 2; with a second argument that is no
  JSON, a configuration that cannot be read or a database that does not answer it fails, with the store untouched. Otherwise it calls the
  service function with the overrides, which are those that \<open>json.dumps\<close> printed, for every object without floats whose integers can be
  printed. If the call raises, the command ends with that exception; if it returns, the command exits with 0 and its message reports the result.
  Either way the connection pool it opened is closed again, and no other exception comes from the store.
\<close>

theorem handler_main_outcome:
  assumes "handler_main ops flt py_float env err fault t u argv s = (res, s', pool)"
  shows "released pool \<and> (argv = [] \<longrightarrow> (\<exists>usage. res = Exit 2 [] usage) \<and> s' = s \<and> pool = None) \<and>
    (\<forall>jt arg rest. argv = jt # arg # rest \<and> json_loads flt arg = Invalid \<longrightarrow> res = Raised ValueError \<and> s' = s \<and> pool = None) \<and>
    (\<forall>e. res = Raised e \<longrightarrow> s' = s \<or> (\<exists>jt p. fault jt p s = Some (e, s'))) \<and>
    (\<forall>cfg jt tree p rest. config_from_env py_float env = Inr cfg \<and> fst (connect_with_retry err 30) = Inr () \<and>
       (argv = [jt] \<and> p = fmempty \<or>
        argv = jt # dumps_str float_str tree # rest \<and> plain tree \<and> to_json tree = JObj p) \<longrightarrow>
       pool = Some (made_pool (cf_database_url cfg) False) \<and>
       (case fault jt p s of
          Some (e, s2) \<Rightarrow> res = Raised e \<and> s' = s2
        | None \<Rightarrow> s' = snd (enqueue ops t u jt (Some p) s) \<and>
            res = Exit 0 (cli_report jt (fst (enqueue ops t u jt (Some p) s))) []))"
proof (intro conjI allI impI)
  show "released pool" using assms
    by (auto simp: handler_main_def released_def pg_init_def case_prod_unfold Let_def
        split: list.splits decoded.splits sum.splits option.splits)
next
  fix e
  assume "res = Raised e"
  then show "s' = s \<or> (\<exists>jt p. fault jt p s = Some (e, s'))" using assms
    by (auto simp: handler_main_def case_prod_unfold Let_def split: list.splits decoded.splits sum.splits option.splits)
next
  fix cfg jt tree p rest
  assume *: "config_from_env py_float env = Inr cfg \<and> fst (connect_with_retry err 30) = Inr () \<and>
    (argv = [jt] \<and> p = fmempty \<or> argv = jt # dumps_str float_str tree # rest \<and> plain tree \<and> to_json tree = JObj p)"
  have "handler_main ops flt py_float env err fault t u argv s = (case fault jt p s of
      Some (e, s2) \<Rightarrow> (Raised e, s2, Some (made_pool (cf_database_url cfg) False))
    | None \<Rightarrow> (Exit 0 (cli_report jt (fst (enqueue ops t u jt (Some p) s))) [], snd (enqueue ops t u jt (Some p) s),
        Some (made_pool (cf_database_url cfg) False)))"
    using * pg_init_cases(2) [of err 30 "cf_database_url cfg"]
    by (auto simp: handler_main_def as_payload_def case_prod_unfold Let_def json_loads_dumps split: option.split prod.split)
  with assms show "pool = Some (made_pool (cf_database_url cfg) False)"
    "case fault jt p s of Some (e, s2) \<Rightarrow> res = Raised e \<and> s' = s2
     | None \<Rightarrow> s' = snd (enqueue ops t u jt (Some p) s) \<and> res = Exit 0 (cli_report jt (fst (enqueue ops t u jt (Some p) s))) []"
    by (auto split: option.splits)
qed (use assms in \<open>auto simp: handler_main_def\<close>)

text \<open>The database of the examples: it refuses what \<open>pg_refuses\<close> says, and nothing else.\<close>

definition demo_fault :: "string \<Rightarrow> payload \<Rightarrow> pg_db \<Rightarrow> (exn \<times> pg_db) option" where
  "demo_fault jt p db = map_option (\<lambda>e. (e, db)) (pg_refuses jt p None)"

theorem handler_main_outcome_witness:
  "(\<exists>db' pool. handler_main pg_ops (\<lambda>_. JNull) (\<lambda>_. Inr 1) (\<lambda>_. None) (\<lambda>_. None) demo_fault 3 3 [''boom'', ''{'' @ quoted ''n'' @ '': 12}''] demo_db =
     (Exit 0 (''enqueued boom as job 2'' @ [char_of (10 :: nat)]) [], db', pool) \<and> released pool \<and>
     db' = snd (enqueue pg_ops 3 3 ''boom'' (Some (fmap_of_list [(''n'', JInt 12)])) demo_db)) \<and>
   (\<exists>pool. handler_main pg_ops (\<lambda>_. JNull) (\<lambda>_. Inr 1) (\<lambda>_. None) (\<lambda>_. None) demo_fault 3 3 [[char_of (0 :: nat)]] demo_db =
     (Raised (DatabaseError ''NUL in a text''), demo_db, pool) \<and> released pool)"
proof
  let ?tree = "TObj [(''n'', TInt 12)]"
  let ?p = "fmap_of_list [(''n'', JInt 12)]"
  let ?main = "\<lambda>argv. handler_main pg_ops (\<lambda>_. JNull) (\<lambda>_. Inr 1) (\<lambda>_. None) (\<lambda>_. None) demo_fault 3 3 argv demo_db"
  let ?r = "?main [''boom'', dumps_str (\<lambda>_ _. []) ?tree]" and ?f = "?main [[char_of (0 :: nat)]]"
  have "\<not> isl (config_from_env (\<lambda>_. Inr 1) (\<lambda>_. None))" by code_simp
  then obtain cfg where cfg: "config_from_env (\<lambda>_. Inr 1) (\<lambda>_. None) = Inr cfg" by (metis sum.collapse(2))
  have conn: "fst (connect_with_retry (\<lambda>_. None) 30) = Inr ()" by code_simp
  have num: "int_str 12 = ''12''" by code_simp
  have "int_prints 12" by code_simp
  then have tree: "plain ?tree" "to_json ?tree = JObj ?p" by simp_all
  have ok: "demo_fault ''boom'' ?p demo_db = None"
    and bad: "demo_fault [char_of (0 :: nat)] fmempty demo_db = Some (DatabaseError ''NUL in a text'', demo_db)" by code_simp+
  have "?r = (fst ?r, fst (snd ?r), snd (snd ?r))" by simp
  note law = handler_main_outcome [OF this, where float_str = "\<lambda>_ _. []"]
  from law [THEN conjunct2, THEN conjunct2, THEN conjunct2, THEN conjunct2, rule_format, of cfg "''boom''" ?p ?tree "[]"] tree cfg conn ok
  have "fst ?r = Exit 0 (cli_report ''boom'' (fst (enqueue pg_ops 3 3 ''boom'' (Some ?p) demo_db))) []"
    "fst (snd ?r) = snd (enqueue pg_ops 3 3 ''boom'' (Some ?p) demo_db)" by simp_all
  moreover have "cli_report ''boom'' (fst (enqueue pg_ops 3 3 ''boom'' (Some ?p) demo_db)) =
     ''enqueued boom as job 2'' @ [char_of (10 :: nat)]" by code_simp
  ultimately show "\<exists>db' pool. ?main [''boom'', ''{'' @ quoted ''n'' @ '': 12}''] =
     (Exit 0 (''enqueued boom as job 2'' @ [char_of (10 :: nat)]) [], db', pool) \<and> released pool \<and>
     db' = snd (enqueue pg_ops 3 3 ''boom'' (Some (fmap_of_list [(''n'', JInt 12)])) demo_db)"
    using law [THEN conjunct1] by (simp add: num prod_eq_iff)
  have "?f = (fst ?f, fst (snd ?f), snd (snd ?f))" by simp
  note law = handler_main_outcome [OF this, where float_str = "\<lambda>_ _. []"]
  from law [THEN conjunct2, THEN conjunct2, THEN conjunct2, THEN conjunct2, rule_format,
      of cfg "[char_of (0 :: nat)]" fmempty ?tree "[]"] cfg conn bad
  have "fst ?f = Raised (DatabaseError ''NUL in a text'')" "fst (snd ?f) = demo_db" by simp_all
  with law [THEN conjunct1] show "\<exists>pool. ?f = (Raised (DatabaseError ''NUL in a text''), demo_db, pool) \<and> released pool"
    by (simp add: prod_eq_iff)
qed

end
