(* ===== verification/System.thy ===== *)
theory System
  imports Dispatcher Worker Reaper Handler
begin

text \<open>
  The running system: producers, dispatchers, workers and reapers as separate processes over one
  database and one Kafka topic. A process takes one store call, one publish, one handler call or
  one offset commit at a time, in the order its service function has them, and the steps of all
  processes interleave freely; any of them may crash between two steps and start again. Instants are
  arbitrary: no theorem relies on clocks that agree.

  The topic is an append-only log of messages with the set of committed offsets. A worker may receive any
  message that is not committed, also one that another worker holds: delivery is at least once.
\<close>

section \<open>State\<close>

text \<open>A dispatcher between two rounds, in a round with the messages left, or between the publish and the mark.\<close>

datatype disp_pc = DIdle | DBatch "outbox_message list" | DPublished outbox_message "outbox_message list"

text \<open>A worker holding a message: before the claim, in the run, and after the last store call.\<close>

datatype work_stage = Got | Claimed | Resolved payload | Finish job_status | Done
datatype work_pc = WIdle | WAt nat int string work_stage

datatype reap_pc = RIdle | RSweep "stuck_job list" | RDead stuck_job "stuck_job list"

text \<open>\<open>sy_claims\<close> counts the successful claims of each job; no process reads it.\<close>

record 's system =
  sy_store :: 's
  sy_log :: "payload list"
  sy_committed :: "nat set"
  sy_disp :: "nat \<Rightarrow> disp_pc"
  sy_work :: "nat \<Rightarrow> work_pc"
  sy_reap :: "nat \<Rightarrow> reap_pc"
  sy_claims :: "int \<Rightarrow> nat"

definition sys_init :: "'s \<Rightarrow> 's system" where
  "sys_init s = \<lparr>sy_store = s, sy_log = [], sy_committed = {}, sy_disp = (\<lambda>_. DIdle),
     sy_work = (\<lambda>_. WIdle), sy_reap = (\<lambda>_. RIdle), sy_claims = (\<lambda>_. 0)\<rparr>"

definition after_run :: "lookup \<Rightarrow> string \<Rightarrow> payload \<Rightarrow> job_status" where
  "after_run lookup jt p = (case lookup jt of
      None \<Rightarrow> FAILED
    | Some h \<Rightarrow> if hr_raised (h p) = None then COMPLETED else FAILED)"

definition store_after_run :: "'s store_ops \<Rightarrow> lookup \<Rightarrow> int \<Rightarrow> string \<Rightarrow> payload \<Rightarrow> 's \<Rightarrow> 's" where
  "store_after_run ops lookup j jt p s = (case lookup jt of
      None \<Rightarrow> s
    | Some h \<Rightarrow> op_handler_wrote ops j (hr_payload (h p)) s)"

definition op_finish :: "'s store_ops \<Rightarrow> job_status \<Rightarrow> time \<Rightarrow> int \<Rightarrow> 's \<Rightarrow> bool \<times> 's" where
  "op_finish ops st = (if st = COMPLETED then op_complete ops else op_fail ops)"

section \<open>Steps\<close>

text \<open>
  The label names the job of a reaper's attempt to queue it again; other steps carry none. A dispatcher's batch leaves out the
  rows that are locked at that moment (\<open>SKIP LOCKED\<close>): any part of the table may be unlocked.
\<close>

inductive sys_step :: "'s store_ops \<Rightarrow> lookup \<Rightarrow> 's system \<Rightarrow> int option \<Rightarrow> 's system \<Rightarrow> bool"
  for ops lookup where
  produce: "op_enqueue ops t u jt p cr (sy_store c) = (r, s') \<Longrightarrow>
    sys_step ops lookup c None (c\<lparr>sy_store := s'\<rparr>)"
| fetch: "sy_disp c d = DIdle \<Longrightarrow> 0 \<le> n \<Longrightarrow> op_fetch_unpublished ops n (sy_store c) = Inr ms \<Longrightarrow>
    sys_step ops lookup c None (c\<lparr>sy_disp := (sy_disp c)(d := DBatch (filter unlocked ms))\<rparr>)"
| publish: "sy_disp c d = DBatch (m # ms) \<Longrightarrow>
    sys_step ops lookup c None (c\<lparr>sy_log := sy_log c @ [om_payload m], sy_disp := (sy_disp c)(d := DPublished m ms)\<rparr>)"
| mark: "sy_disp c d = DPublished m ms \<Longrightarrow>
    sys_step ops lookup c None (c\<lparr>sy_store := op_mark_dispatched ops t (om_id m) (om_job_id m) (sy_store c),
      sy_disp := (sy_disp c)(d := DBatch ms)\<rparr>)"
| round_over: "sy_disp c d = DBatch [] \<Longrightarrow>
    sys_step ops lookup c None (c\<lparr>sy_disp := (sy_disp c)(d := DIdle)\<rparr>)"
| disp_crash: "sys_step ops lookup c None (c\<lparr>sy_disp := (sy_disp c)(d := DIdle)\<rparr>)"
| receive: "sy_work c w = WIdle \<Longrightarrow> off < length (sy_log c) \<Longrightarrow> off \<notin> sy_committed c \<Longrightarrow>
    open_envelope (sy_log c ! off) = Inr (JInt j, JStr jt) \<Longrightarrow>
    sys_step ops lookup c None (c\<lparr>sy_work := (sy_work c)(w := WAt off j jt Got)\<rparr>)"
| claim_lost: "sy_work c w = WAt off j jt Got \<Longrightarrow> op_claim ops t j (sy_store c) = (False, s') \<Longrightarrow>
    sys_step ops lookup c None (c\<lparr>sy_store := s', sy_work := (sy_work c)(w := WAt off j jt Done)\<rparr>)"
| claim_won: "sy_work c w = WAt off j jt Got \<Longrightarrow> op_claim ops t j (sy_store c) = (True, s') \<Longrightarrow>
    sys_step ops lookup c None (c\<lparr>sy_store := s', sy_work := (sy_work c)(w := WAt off j jt Claimed),
      sy_claims := (sy_claims c)(j := Suc (sy_claims c j))\<rparr>)"
| resolve: "sy_work c w = WAt off j jt Claimed \<Longrightarrow> op_resolve_payload ops t j jt (sy_store c) = (v, s') \<Longrightarrow>
    sys_step ops lookup c None (c\<lparr>sy_store := s', sy_work := (sy_work c)(w := WAt off j jt
      (case v of None \<Rightarrow> Finish FAILED | Some p \<Rightarrow> Resolved p))\<rparr>)"
| run: "sy_work c w = WAt off j jt (Resolved p) \<Longrightarrow>
    sys_step ops lookup c None (c\<lparr>sy_store := store_after_run ops lookup j jt p (sy_store c),
      sy_work := (sy_work c)(w := WAt off j jt (Finish (after_run lookup jt p)))\<rparr>)"
| finish: "sy_work c w = WAt off j jt (Finish st) \<Longrightarrow> op_finish ops st t j (sy_store c) = (ok, s') \<Longrightarrow>
    sys_step ops lookup c None (c\<lparr>sy_store := s', sy_work := (sy_work c)(w := WAt off j jt Done)\<rparr>)"
| commit: "sy_work c w = WAt off j jt Done \<Longrightarrow>
    sys_step ops lookup c None (c\<lparr>sy_committed := insert off (sy_committed c), sy_work := (sy_work c)(w := WIdle)\<rparr>)"
| work_crash: "sys_step ops lookup c None (c\<lparr>sy_work := (sy_work c)(w := WIdle)\<rparr>)"
| sweep: "sy_reap c r = RIdle \<Longrightarrow>
    sys_step ops lookup c None (c\<lparr>sy_reap := (sy_reap c)(r := RSweep (op_find_stuck ops t (sy_store c)))\<rparr>)"
| requeue: "sy_reap c r = RSweep (x # xs) \<Longrightarrow> op_requeue_stuck ops t (sj_job_id x) (sy_store c) = (ok, s') \<Longrightarrow>
    sys_step ops lookup c (Some (sj_job_id x)) (c\<lparr>sy_store := s',
      sy_reap := (sy_reap c)(r := if ok then RSweep xs else RDead x xs)\<rparr>)"
| dead_letter: "sy_reap c r = RDead x xs \<Longrightarrow> op_dead_letter ops t (sj_job_id x) (sy_store c) = (ok, s') \<Longrightarrow>
    sys_step ops lookup c None (c\<lparr>sy_store := s', sy_reap := (sy_reap c)(r := RSweep xs)\<rparr>)"
| sweep_over: "sy_reap c r = RSweep [] \<Longrightarrow>
    sys_step ops lookup c None (c\<lparr>sy_reap := (sy_reap c)(r := RIdle)\<rparr>)"
| reap_crash: "sys_step ops lookup c None (c\<lparr>sy_reap := (sy_reap c)(r := RIdle)\<rparr>)"

inductive sys_steps :: "'s store_ops \<Rightarrow> lookup \<Rightarrow> 's system \<Rightarrow> 's system \<Rightarrow> bool" for ops lookup where
  none: "sys_steps ops lookup c c"
| more: "sys_steps ops lookup c c' \<Longrightarrow> sys_step ops lookup c' l c'' \<Longrightarrow> sys_steps ops lookup c c''"

text \<open>
  Steps in which no reaper queues a job again while a dispatcher is between publishing that job's message and
  marking it.
\<close>

definition undisturbed :: "'s system \<Rightarrow> int option \<Rightarrow> bool" where
  "undisturbed c l \<longleftrightarrow> (\<forall>d m ms. sy_disp c d = DPublished m ms \<longrightarrow> l \<noteq> Some (om_job_id m))"

inductive calm_steps :: "'s store_ops \<Rightarrow> lookup \<Rightarrow> 's system \<Rightarrow> 's system \<Rightarrow> bool" for ops lookup where
  none: "calm_steps ops lookup c c"
| more: "calm_steps ops lookup c c' \<Longrightarrow> sys_step ops lookup c' l c'' \<Longrightarrow> undisturbed c' l \<Longrightarrow>
    calm_steps ops lookup c c''"

section \<open>Invariants\<close>

definition log_ok :: "astate \<Rightarrow> payload list \<Rightarrow> bool" where
  "log_ok a log \<longleftrightarrow> (\<forall>env \<in> set log. \<exists>j b. a_jobs a j = Some b \<and> env = build_envelope j (j_job_type b))"

fun disp_messages :: "disp_pc \<Rightarrow> outbox_message list" where
  "disp_messages DIdle = []"
| "disp_messages (DBatch ms) = ms"
| "disp_messages (DPublished m ms) = m # ms"

definition disp_ok :: "astate \<Rightarrow> disp_pc \<Rightarrow> bool" where
  "disp_ok a pc \<longleftrightarrow> (\<forall>m \<in> set (disp_messages pc). \<exists>p. a_outbox a (om_id m) = Some (m, p))"

fun work_ok :: "astate \<Rightarrow> payload list \<Rightarrow> work_pc \<Rightarrow> bool" where
  "work_ok a log WIdle \<longleftrightarrow> True"
| "work_ok a log (WAt off j jt st) \<longleftrightarrow> off < length log \<and> log ! off = build_envelope j jt \<and>
     (\<exists>b. a_jobs a j = Some b \<and> j_job_type b = jt)"

text \<open>A job's claims: one for each time the reaper queued it again, and the one of the current or last run.\<close>

definition claims_of :: "job \<Rightarrow> int" where
  "claims_of b = j_attempts b + (if j_status b \<in> {QUEUED, DISPATCHED} then 0 else 1)"

definition claims_ok :: "astate \<Rightarrow> (int \<Rightarrow> nat) \<Rightarrow> bool" where
  "claims_ok a n \<longleftrightarrow> (\<forall>j. int (n j) = (case a_jobs a j of None \<Rightarrow> 0 | Some b \<Rightarrow> claims_of b))"

definition flight_ok :: "astate \<Rightarrow> 's system \<Rightarrow> bool" where
  "flight_ok a c \<longleftrightarrow> log_ok a (sy_log c) \<and> (\<forall>off \<in> sy_committed c. off < length (sy_log c)) \<and>
     (\<forall>d. disp_ok a (sy_disp c d)) \<and> (\<forall>w. work_ok a (sy_log c) (sy_work c w))"

definition sys_ok :: "astate \<Rightarrow> 's system \<Rightarrow> bool" where
  "sys_ok a c \<longleftrightarrow> flight_ok a c \<and> claims_ok a (sy_claims c)"

text \<open>A message of the job that is not committed and that no worker has taken past its claim.\<close>

definition taken :: "'s system \<Rightarrow> nat \<Rightarrow> int \<Rightarrow> bool" where
  "taken c off j \<longleftrightarrow> (\<exists>w jt st. sy_work c w = WAt off j jt st \<and> st \<noteq> Got)"

definition live :: "'s system \<Rightarrow> int \<Rightarrow> bool" where
  "live c j \<longleftrightarrow> (\<exists>off jt. off < length (sy_log c) \<and> sy_log c ! off = build_envelope j jt \<and>
     off \<notin> sy_committed c \<and> \<not> taken c off j)"

text \<open>The jobs that rely on a message: dispatched, or queued with a dispatcher about to mark them.\<close>

definition between :: "'s system \<Rightarrow> int \<Rightarrow> bool" where
  "between c j \<longleftrightarrow> (\<exists>d m ms. sy_disp c d = DPublished m ms \<and> om_job_id m = j)"

definition due :: "astate \<Rightarrow> 's system \<Rightarrow> int \<Rightarrow> bool" where
  "due a c j \<longleftrightarrow> (\<exists>b. a_jobs a j = Some b \<and> (j_status b = DISPATCHED \<or> j_status b = QUEUED \<and> between c j))"

definition delivered :: "astate \<Rightarrow> 's system \<Rightarrow> bool" where
  "delivered a c \<longleftrightarrow> (\<forall>j. due a c j \<longrightarrow> live c j)"

text \<open>
  A job out of everyone's reach: dispatched, so that no dispatcher fetches it, with all its messages committed, so
  that no worker receives it, and nobody on the way to it. The reaper looks at running jobs only.
\<close>

definition stranded :: "astate \<Rightarrow> 's system \<Rightarrow> int \<Rightarrow> job \<Rightarrow> bool" where
  "stranded a c j b \<longleftrightarrow> a_jobs a j = Some b \<and> j_status b = DISPATCHED \<and>
     (\<forall>off jt. off < length (sy_log c) \<and> sy_log c ! off = build_envelope j jt \<longrightarrow> off \<in> sy_committed c) \<and>
     (\<forall>d. \<forall>m \<in> set (disp_messages (sy_disp c d)). om_job_id m \<noteq> j) \<and>
     (\<forall>w off jt. sy_work c w \<noteq> WAt off j jt Got)"

end
