(* ===== verification/System_Laws.thy ===== *)
theory System_Laws
  imports System
begin

text \<open>
  Invariants of the running system, proved once for every store that meets the contract and keeps a handler's
  writes out of its rows (\<open>shared_store\<close>, which the Postgres store is): each step of each process is
  one abstract store operation; the messages in flight always point to their jobs; claims are counted by the
  rows; and, as long as no job is queued again in the middle of its dispatch, no active job is ever
  out of reach of all processes.
\<close>

section \<open>Abstract moves\<close>

text \<open>What a step other than a successful claim does to the tables.\<close>

inductive a_move :: "astate \<Rightarrow> astate \<Rightarrow> bool" for a where
  same: "a_move a a"
| enq: "a_jobs a jid = None \<Longrightarrow> a_outbox a k = None \<Longrightarrow> a_move a (spec_enqueue jid k t u jt p c a)"
| mark: "a_move a (spec_mark t k j a)"
| resolve: "a_move a (snd (spec_resolve t j a))"
| finish: "st \<in> set TERMINAL \<Longrightarrow> a_move a (snd (spec_finish st t j a))"
| requeue: "a_move a (snd (spec_requeue t j a))"

lemma a_move_evolves: "a_move a a' \<Longrightarrow> a_evolves a a'"
  by (induction rule: a_move.induct) (auto intro: evolves_intros)

lemma a_move_capped: "a_move a a' \<Longrightarrow> a_capped a \<Longrightarrow> a_capped a'"
  by (induction rule: a_move.induct) (auto intro: a_capped_ops spec_mark_capped spec_requeue_capped)

text \<open>Rows stay, with their type; outbox rows stay, with their message.\<close>

definition a_keeps :: "astate \<Rightarrow> astate \<Rightarrow> bool" where
  "a_keeps a a' \<longleftrightarrow>
     (\<forall>j b. a_jobs a j = Some b \<longrightarrow> (\<exists>b'. a_jobs a' j = Some b' \<and> j_job_type b' = j_job_type b)) \<and>
     (\<forall>k m p. a_outbox a k = Some (m, p) \<longrightarrow> (\<exists>p'. a_outbox a' k = Some (m, p')))"

lemma spec_resolve_outbox [simp]: "a_outbox (snd (spec_resolve t j a)) = a_outbox a"
  by (simp add: spec_resolve_def Let_def split: option.split)

lemma a_move_outbox: "a_move a a' \<Longrightarrow> a_outbox a k = Some (m, p) \<Longrightarrow> \<exists>p'. a_outbox a' k = Some (m, p')"
proof (induction rule: a_move.induct)
  case (requeue t j)
  then show ?case by (auto simp: spec_requeue_def a_rearm_def split: option.split)
qed (auto simp: spec_enqueue_def spec_mark_def spec_finish_def)

lemma a_evolves_rows:
  "a_evolves a a' \<Longrightarrow> a_jobs a j = Some b \<Longrightarrow> \<exists>b'. a_jobs a' j = Some b' \<and> j_job_type b' = j_job_type b"
  by (fastforce simp: a_evolves_def job_evolves_def)

lemma a_move_keeps: "a_move a a' \<Longrightarrow> a_keeps a a'"
  unfolding a_keeps_def using a_evolves_rows [OF a_move_evolves] a_move_outbox by blast

lemma spec_claim_keeps: "a_keeps a (snd (spec_claim t j a))"
  unfolding a_keeps_def using a_evolves_rows [OF spec_claim_evolves] by (auto simp: spec_claim_def)

lemma log_ok_keeps: "log_ok a log \<Longrightarrow> a_keeps a a' \<Longrightarrow> log_ok a' log"
  unfolding log_ok_def a_keeps_def by metis

lemma disp_ok_keeps: "disp_ok a pc \<Longrightarrow> a_keeps a a' \<Longrightarrow> disp_ok a' pc"
  unfolding disp_ok_def a_keeps_def by metis

lemma work_ok_keeps: "work_ok a log pc \<Longrightarrow> a_keeps a a' \<Longrightarrow> work_ok a' log pc"
  unfolding a_keeps_def by (cases pc) (simp_all, metis)

lemma work_ok_append: "work_ok a log pc \<Longrightarrow> work_ok a (log @ suffix) pc"
  by (cases pc) (simp_all add: nth_append)

section \<open>Claims\<close>

lemma claims_ok_jobs: "claims_ok a n \<Longrightarrow> a_jobs a' = a_jobs a \<Longrightarrow> claims_ok a' n"
  by (simp add: claims_ok_def)

lemma claims_ok_row:
  assumes "claims_ok a n" "a_jobs a' = (a_jobs a)(j \<mapsto> b')"
    and "claims_of b' = (case a_jobs a j of None \<Rightarrow> 0 | Some b \<Rightarrow> claims_of b)"
  shows "claims_ok a' n"
  using assms unfolding claims_ok_def by auto

lemma claims_ok_guarded:
  assumes "claims_ok a n" "\<And>b. P b \<Longrightarrow> claims_of (f b) = claims_of b"
  shows "claims_ok (snd (a_guarded j P f a)) n"
proof (cases "a_jobs a j")
  case (Some b)
  then show ?thesis
    by (cases "P b") (auto simp: a_guarded_Some assms intro: claims_ok_row [OF assms(1)])
qed (simp add: assms(1))

lemma a_move_claims: "a_move a a' \<Longrightarrow> claims_ok a n \<Longrightarrow> claims_ok a' n"
proof (induction rule: a_move.induct)
  case (enq jid k t u jt p c)
  have "claims_of (with_creator (new_job jid t u jt p c)) = 0" by (simp add: claims_of_def)
  moreover have jobs: "a_jobs (spec_enqueue jid k t u jt p c a) = (a_jobs a)(jid \<mapsto> with_creator (new_job jid t u jt p c))"
    by (simp add: spec_enqueue_def)
  ultimately show ?case using enq.hyps(1) by (intro claims_ok_row [OF enq.prems jobs]) simp
next
  case (mark t k j)
  have "claims_ok (snd (a_guarded j (\<lambda>b. j_status b = QUEUED)
       (\<lambda>b. b\<lparr>j_status := DISPATCHED, j_updated_at := t\<rparr>) a)) n"
    by (rule claims_ok_guarded [OF mark]) (simp add: claims_of_def)
  then show ?case by (rule claims_ok_jobs) (simp add: spec_mark_def)
next
  case (resolve t j)
  then show ?case
    by (auto simp: spec_resolve_def Let_def claims_of_def split: option.split intro: claims_ok_row [OF resolve])
next
  case (finish st t j)
  show ?case unfolding spec_finish_def
    by (rule claims_ok_guarded [OF finish(2)]) (use finish(1) in \<open>auto simp: claims_of_def\<close>)
next
  case (requeue t j)
  then show ?case by (auto simp: spec_requeue_def claims_of_def split: option.split intro: claims_ok_row [OF requeue])
qed simp

lemma claim_claims:
  assumes "claims_ok a n" "fst (spec_claim t j a)"
  shows "claims_ok (snd (spec_claim t j a)) (n(j := Suc (n j)))"
proof -
  from assms(2) obtain b where b: "a_jobs a j = Some b" "j_status b \<in> {QUEUED, DISPATCHED}"
    by (auto simp: spec_claim_def a_guarded_fst)
  then have n: "int (n j) = j_attempts b" using assms(1) [unfolded claims_ok_def, rule_format, of j]
    by (simp add: claims_of_def)
  have "snd (spec_claim t j a) = a\<lparr>a_jobs := (a_jobs a)(j \<mapsto> b\<lparr>j_status := RUNNING, j_updated_at := t\<rparr>)\<rparr>"
    using b by (simp add: spec_claim_def a_guarded_Some)
  moreover have "claims_of (b\<lparr>j_status := RUNNING, j_updated_at := t\<rparr>) = int (Suc (n j))"
    by (simp add: claims_of_def n)
  ultimately show ?thesis using assms(1) by (simp add: claims_ok_def)
qed

section \<open>Steps as abstract operations\<close>

text \<open>
  Each step keeps the store's invariant and is one abstract operation on its tables; the claim counter moves with
  the successful claims.
\<close>

definition step_effect :: "('s \<Rightarrow> astate) \<Rightarrow> ('s \<Rightarrow> bool) \<Rightarrow> 's system \<Rightarrow> 's system \<Rightarrow> bool" where
  "step_effect A I c c' \<longleftrightarrow> I (sy_store c') \<and>
     (a_move (A (sy_store c)) (A (sy_store c')) \<and> sy_claims c' = sy_claims c \<or>
      (\<exists>t j. fst (spec_claim t j (A (sy_store c))) \<and>
         A (sy_store c') = snd (spec_claim t j (A (sy_store c))) \<and>
         sy_claims c' = (sy_claims c)(j := Suc (sy_claims c j))))"

lemma step_effect_move:
  "I (sy_store c') \<Longrightarrow> a_move (A (sy_store c)) (A (sy_store c')) \<Longrightarrow> sy_claims c' = sy_claims c \<Longrightarrow>
   step_effect A I c c'"
  by (simp add: step_effect_def)

lemma step_effect_same:
  "I (sy_store c) \<Longrightarrow> sy_store c' = sy_store c \<Longrightarrow> sy_claims c' = sy_claims c \<Longrightarrow> step_effect A I c c'"
  by (simp add: step_effect_def a_move.same)

lemma step_effectE:
  assumes "step_effect A I c c'"
  obtains (move) "a_move (A (sy_store c)) (A (sy_store c'))" "sy_claims c' = sy_claims c"
    | (claim) t j where "fst (spec_claim t j (A (sy_store c)))"
        "A (sy_store c') = snd (spec_claim t j (A (sy_store c)))"
        "sy_claims c' = (sy_claims c)(j := Suc (sy_claims c j))"
  using assms unfolding step_effect_def by blast

lemma step_effect_keeps: "step_effect A I c c' \<Longrightarrow> a_keeps (A (sy_store c)) (A (sy_store c'))"
  by (erule step_effectE) (simp_all add: a_move_keeps spec_claim_keeps)

lemma step_effect_evolves: "step_effect A I c c' \<Longrightarrow> a_evolves (A (sy_store c)) (A (sy_store c'))"
  by (erule step_effectE) (simp_all add: a_move_evolves spec_claim_evolves)

lemma step_effect_capped:
  "step_effect A I c c' \<Longrightarrow> a_capped (A (sy_store c)) \<Longrightarrow> a_capped (A (sy_store c'))"
  by (erule step_effectE) (simp_all add: a_move_capped a_capped_ops(1))

lemma step_effect_claims:
  "step_effect A I c c' \<Longrightarrow> claims_ok (A (sy_store c)) (sy_claims c) \<Longrightarrow>
   claims_ok (A (sy_store c')) (sy_claims c')"
  by (erule step_effectE) (simp_all add: a_move_claims claim_claims)

lemma flight_ok_disp: "flight_ok a c \<Longrightarrow> m \<in> set (disp_messages (sy_disp c d)) \<Longrightarrow> \<exists>p. a_outbox a (om_id m) = Some (m, p)"
  unfolding flight_ok_def disp_ok_def by blast

lemma flight_ok_work: "flight_ok a c \<Longrightarrow> sy_work c w = WAt off j jt st \<Longrightarrow>
  off < length (sy_log c) \<and> sy_log c ! off = build_envelope j jt \<and> (\<exists>b. a_jobs a j = Some b \<and> j_job_type b = jt)"
  unfolding flight_ok_def by (metis work_ok.simps(2))

context shared_store
begin

lemmas fetch_law = fetch and mark_law = mark and resolve_law = resolve and requeue_law = requeue and dead_letter_law = dead_letter

lemma op_finish_law:
  assumes "inv s" "op_finish ops st t j s = (ok, s')"
  shows "inv s' \<and> a_move (abs s) (abs s')"
proof (cases "st = COMPLETED")
  case True
  with assms complete [OF assms(1), of t j] show ?thesis
    by (auto simp: op_finish_def prod_eq_iff intro: a_move.finish)
next
  case False
  with assms fail [OF assms(1), of t j] show ?thesis
    by (auto simp: op_finish_def prod_eq_iff intro: a_move.finish)
qed

lemma enqueue_law:
  assumes "inv s" "op_enqueue ops t u jt p cr s = (r, s')"
  shows "inv s' \<and> a_move (abs s) (abs s')"
proof (cases "a_active (abs s) jt")
  case True
  with assms enqueue_dup [OF assms(1) True, of t u p cr] show ?thesis by (auto intro: a_move.same)
next
  case False
  then obtain jid k v where "inv s'" "a_jobs (abs s) jid = None" "\<forall>k' \<in> dom (a_outbox (abs s)). k' < k"
    "abs s' = spec_enqueue jid k t v jt p cr (abs s)"
    using assms enqueue_new [OF assms(1) False, of t u p cr] by auto
  moreover from this(3) have "a_outbox (abs s) k = None" by (metis domIff less_irrefl)
  ultimately show ?thesis by (simp add: a_move.enq)
qed

lemma store_after_run_law:
  "inv s \<Longrightarrow> inv (store_after_run ops lookup j jt p s) \<and> abs (store_after_run ops lookup j jt p s) = abs s"
  using handler_wrote handler_wrote_same by (simp add: store_after_run_def split: option.split)

lemma sys_step_effect:
  assumes "sys_step ops lookup c l c'" "inv (sy_store c)" "flight_ok (abs (sy_store c)) c"
  shows "step_effect abs inv c c'"
  using assms
proof (induction rule: sys_step.induct)
  case (produce t u jt p cr c r s')
  then show ?case using enqueue_law by (intro step_effect_move) auto
next
  case (mark c d m ms t)
  then obtain q where "a_outbox (abs (sy_store c)) (om_id m) = Some (m, q)" using flight_ok_disp [of _ c m d] by auto
  then show ?case using mark_law [OF mark.prems(1)] by (intro step_effect_move) (auto intro: a_move.mark)
next
  case (claim_lost c w off j jt t s')
  have "abs s' = abs (sy_store c)" "inv s'"
    using claim [OF claim_lost.prems(1), of t j] claim_lost.hyps(2) by (auto simp: spec_claim_def a_guarded_def split: option.splits if_splits)
  then show ?case by (intro step_effect_move) (auto intro: a_move.same)
next
  case (claim_won c w off j jt t s')
  then show ?case using claim [OF claim_won.prems(1), of t j] by (auto simp: step_effect_def prod_eq_iff)
next
  case (resolve c w off j jt t v s')
  then obtain b where "a_jobs (abs (sy_store c)) j = Some b" "j_job_type b = jt" using flight_ok_work by blast
  with resolve show ?case using resolve_law [OF resolve.prems(1), of j b t]
    by (intro step_effect_move) (auto simp: prod_eq_iff intro: a_move.resolve)
next
  case (run c w off j jt p)
  then show ?case using store_after_run_law by (intro step_effect_move) (auto intro: a_move.same)
next
  case (finish c w off j jt st t ok s')
  then show ?case using op_finish_law by (intro step_effect_move) auto
next
  case (requeue c r x xs t ok s')
  then show ?case using requeue_law [OF requeue.prems(1), of t "sj_job_id x"]
    by (intro step_effect_move) (auto simp: prod_eq_iff intro: a_move.requeue)
next
  case (dead_letter c r x xs t ok s')
  then show ?case using dead_letter_law [OF dead_letter.prems(1), of t "sj_job_id x"]
    by (intro step_effect_move) (auto simp: prod_eq_iff intro: a_move.finish)
qed (simp_all add: step_effect_same)

text \<open>What is in flight keeps pointing to its job.\<close>

lemma flight_step:
  assumes "sys_step ops lookup c l c'" "inv (sy_store c)" "flight_ok (abs (sy_store c)) c"
  shows "flight_ok (abs (sy_store c)) c'"
  using assms
proof (induction rule: sys_step.induct)
  case (fetch c d n ms unlocked)
  have "disp_ok (abs (sy_store c)) (DBatch (filter unlocked ms))"
    using a_pending_outbox [OF inv_wf [OF fetch.prems(1)]] fetch.hyps(2,3)
    by (auto simp: disp_ok_def fetch_law [OF fetch.prems(1)] dest: in_set_takeD)
  with fetch.prems(2) show ?case by (simp add: flight_ok_def)
next
  case (publish c d m ms)
  then obtain q where out: "a_outbox (abs (sy_store c)) (om_id m) = Some (m, q)"
    using flight_ok_disp [of _ c m d] by auto
  obtain b where "a_jobs (abs (sy_store c)) (om_job_id m) = Some b"
    "om_payload m = build_envelope (om_job_id m) (j_job_type b)"
    by (rule a_wf_message_job [OF inv_wf [OF publish.prems(1)] out])
  then have "log_ok (abs (sy_store c)) (sy_log c @ [om_payload m])"
    using publish.prems(2) by (auto simp: flight_ok_def log_ok_def)
  moreover have "disp_ok (abs (sy_store c)) (DPublished m ms)"
    using publish.prems(2) publish.hyps unfolding flight_ok_def disp_ok_def by (metis disp_messages.simps(2,3))
  ultimately show ?case using publish.prems(2) by (auto simp: flight_ok_def work_ok_append)
next
  case (mark c d m ms t)
  have "disp_ok (abs (sy_store c)) (DBatch ms)"
    using mark.prems(2) mark.hyps unfolding flight_ok_def disp_ok_def
    by (metis disp_messages.simps(2,3) list.set_intros(2))
  with mark.prems(2) show ?case by (simp add: flight_ok_def)
next
  case (receive c w off j jt)
  then obtain j' b where "a_jobs (abs (sy_store c)) j' = Some b" "sy_log c ! off = build_envelope j' (j_job_type b)"
    unfolding flight_ok_def log_ok_def by (meson nth_mem)
  with receive show ?case by (simp add: flight_ok_def)
next
  case (claim_lost c w off j jt t s')
  then show ?case using flight_ok_work [OF claim_lost.prems(2) claim_lost.hyps(1)] by (simp add: flight_ok_def)
next
  case (claim_won c w off j jt t s')
  then show ?case using flight_ok_work [OF claim_won.prems(2) claim_won.hyps(1)] by (simp add: flight_ok_def)
next
  case (resolve c w off j jt t v s')
  then show ?case using flight_ok_work [OF resolve.prems(2) resolve.hyps(1)] by (simp add: flight_ok_def)
next
  case (run c w off j jt p)
  then show ?case using flight_ok_work [OF run.prems(2) run.hyps(1)] by (simp add: flight_ok_def)
next
  case (finish c w off j jt st t ok s')
  then show ?case using flight_ok_work [OF finish.prems(2) finish.hyps(1)] by (simp add: flight_ok_def)
next
  case (commit c w off j jt)
  then show ?case using flight_ok_work [OF commit.prems(2) commit.hyps(1)] by (simp add: flight_ok_def)
qed (simp_all add: flight_ok_def disp_ok_def)

lemma sys_ok_step:
  assumes "sys_step ops lookup c l c'" "inv (sy_store c)" "sys_ok (abs (sy_store c)) c"
  shows "sys_ok (abs (sy_store c')) c'" "inv (sy_store c')"
proof -
  from assms(3) have fl: "flight_ok (abs (sy_store c)) c" and cl: "claims_ok (abs (sy_store c)) (sy_claims c)"
    by (simp_all add: sys_ok_def)
  note eff = sys_step_effect [OF assms(1,2) fl]
  show "inv (sy_store c')" using eff by (simp add: step_effect_def)
  have "flight_ok (abs (sy_store c')) c'"
    using flight_step [OF assms(1,2) fl] step_effect_keeps [OF eff] log_ok_keeps disp_ok_keeps work_ok_keeps
    unfolding flight_ok_def by blast
  with step_effect_claims [OF eff cl] show "sys_ok (abs (sy_store c')) c'" by (simp add: sys_ok_def)
qed

lemma sys_steps_law:
  assumes "sys_steps ops lookup c c'" "inv (sy_store c)" "sys_ok (abs (sy_store c)) c"
  shows "inv (sy_store c') \<and> sys_ok (abs (sy_store c')) c' \<and> a_evolves (abs (sy_store c)) (abs (sy_store c')) \<and>
    (a_capped (abs (sy_store c)) \<longrightarrow> a_capped (abs (sy_store c')))"
  using assms
proof (induction rule: sys_steps.induct)
  case (none c)
  then show ?case by simp
next
  case (more c c' l c'')
  then have IH: "inv (sy_store c')" "sys_ok (abs (sy_store c')) c'" "a_evolves (abs (sy_store c)) (abs (sy_store c'))"
    "a_capped (abs (sy_store c)) \<longrightarrow> a_capped (abs (sy_store c'))" by auto
  from IH(2) have "flight_ok (abs (sy_store c')) c'" by (simp add: sys_ok_def)
  note eff = sys_step_effect [OF more.hyps(2) IH(1) this]
  show ?case
    using sys_ok_step [OF more.hyps(2) IH(1,2)] a_evolves_trans [OF IH(3) step_effect_evolves [OF eff]]
      step_effect_capped [OF eff] IH(4) by blast
qed

end

section \<open>No message is lost\<close>

text \<open>A live message stays live when no worker takes it and its offset is not committed.\<close>

lemma live_keep:
  assumes "live c j"
    and "\<And>off. taken c' off j \<Longrightarrow> off < length (sy_log c) \<Longrightarrow> taken c off j"
    and "sy_log c' = sy_log c @ suffix"
    and "\<And>off jt. off \<in> sy_committed c' \<Longrightarrow> off \<notin> sy_committed c \<Longrightarrow> sy_log c ! off = build_envelope j jt \<Longrightarrow>
      taken c off j"
  shows "live c' j"
proof -
  from assms(1) obtain off jt where off: "off < length (sy_log c)" "sy_log c ! off = build_envelope j jt"
    "off \<notin> sy_committed c" "\<not> taken c off j" by (auto simp: live_def)
  with assms(2) [of off] assms(4) [of off jt] have "\<not> taken c' off j" "off \<notin> sy_committed c'" by auto
  with off assms(3) show ?thesis unfolding live_def by (intro exI [of _ off] exI [of _ jt]) (simp add: nth_append)
qed

lemma taken_move:
  assumes "sy_work c' = (sy_work c)(w := pc)"
    and "taken c' off j"
    and "\<And>jt st. pc = WAt off j jt st \<Longrightarrow> st \<noteq> Got \<Longrightarrow> taken c off j"
  shows "taken c off j"
  using assms unfolding taken_def by (metis fun_upd_other fun_upd_same)

lemma taken_at: "sy_work c w = WAt off j jt st \<Longrightarrow> st \<noteq> Got \<Longrightarrow> taken c off j"
  unfolding taken_def by blast

lemma due_mono:
  assumes "due a' c' j" "\<And>b'. a_jobs a' j = Some b' \<Longrightarrow> j_status b' \<in> {QUEUED, DISPATCHED} \<Longrightarrow>
      \<exists>b. a_jobs a j = Some b \<and> (j_status b = j_status b' \<or> j_status b = QUEUED \<and> between c j)"
    and "between c' j \<Longrightarrow> between c j"
  shows "due a c j"
  using assms unfolding due_def by (metis insertCI)

lemma deliveredI:
  assumes "delivered a c" "\<And>j. due a' c' j \<Longrightarrow> due a c j" "\<And>j. due a' c' j \<Longrightarrow> live c j \<Longrightarrow> live c' j"
  shows "delivered a' c'"
  using assms unfolding delivered_def by blast

text \<open>Which jobs rely on a message after an abstract operation.\<close>

lemma between_frame [simp]:
  "between (c\<lparr>sy_store := s\<rparr>) j = between c j" "between (c\<lparr>sy_work := ws\<rparr>) j = between c j"
  "between (c\<lparr>sy_reap := rs\<rparr>) j = between c j" "between (c\<lparr>sy_claims := n\<rparr>) j = between c j"
  "between (c\<lparr>sy_log := lg\<rparr>) j = between c j" "between (c\<lparr>sy_committed := os\<rparr>) j = between c j"
  by (simp_all add: between_def)

lemma due_frame [simp]:
  "due a (c\<lparr>sy_store := s\<rparr>) j = due a c j" "due a (c\<lparr>sy_work := ws\<rparr>) j = due a c j"
  "due a (c\<lparr>sy_reap := rs\<rparr>) j = due a c j" "due a (c\<lparr>sy_claims := n\<rparr>) j = due a c j"
  "due a (c\<lparr>sy_log := lg\<rparr>) j = due a c j" "due a (c\<lparr>sy_committed := os\<rparr>) j = due a c j"
  by (simp_all add: due_def)

lemma live_frame [simp]:
  "live (c\<lparr>sy_store := s\<rparr>) j = live c j" "live (c\<lparr>sy_disp := ds\<rparr>) j = live c j"
  "live (c\<lparr>sy_reap := rs\<rparr>) j = live c j" "live (c\<lparr>sy_claims := n\<rparr>) j = live c j"
  by (simp_all add: live_def taken_def)

lemma due_rows: "due a' c j \<Longrightarrow> a_jobs a' j = a_jobs a j \<Longrightarrow> due a c j"
  by (simp add: due_def)

lemma due_enqueue: "due (spec_enqueue jid k t u jt p cr a) c j \<Longrightarrow> \<not> between c jid \<Longrightarrow> due a c j"
  by (auto simp: due_def spec_enqueue_def split: if_splits)

lemma due_claim:
  assumes "due (snd (spec_claim t i a)) c j"
  shows "due a c j" "fst (spec_claim t i a) \<Longrightarrow> j \<noteq> i"
  using assms by (auto simp: due_def spec_claim_def a_guarded_def split: option.splits if_splits)

lemma due_resolve: "due (snd (spec_resolve t i a)) c j \<Longrightarrow> due a c j"
  by (auto simp: due_def spec_resolve_def Let_def split: option.splits if_splits)

lemma due_finish: "due (snd (spec_finish st t i a)) c j \<Longrightarrow> st \<in> set TERMINAL \<Longrightarrow> due a c j"
  by (auto simp: due_def spec_finish_def a_guarded_def split: option.splits if_splits)

lemma due_requeue: "due (snd (spec_requeue t i a)) c j \<Longrightarrow> \<not> between c i \<Longrightarrow> due a c j"
  by (auto simp: due_def spec_requeue_def split: option.splits if_splits)

lemma due_mark: "due (spec_mark t k i a) c j \<Longrightarrow> between c i \<Longrightarrow> due a c j"
  by (auto simp: due_def spec_mark_jobs split: if_splits)

lemma due_between: "due a c' j \<Longrightarrow> (between c' j \<Longrightarrow> between c j) \<Longrightarrow> due a c j"
  by (auto simp: due_def)

lemma due_claimable: "due a c j \<Longrightarrow> fst (spec_claim t j a)"
  by (auto simp: due_def spec_claim_def a_guarded_fst)

lemma between_upd: "sy_disp c' = (sy_disp c)(d := pc) \<Longrightarrow> (\<And>m ms. pc \<noteq> DPublished m ms) \<Longrightarrow> between c' j \<Longrightarrow> between c j"
  unfolding between_def by (metis fun_upd_other fun_upd_same)

lemma due_disp:
  "due a c' j \<Longrightarrow> sy_disp c' = (sy_disp c)(d := pc) \<Longrightarrow> (\<And>m ms. pc \<noteq> DPublished m ms) \<Longrightarrow> due a c j"
  by (erule due_between) (rule between_upd)

text \<open>A step of one worker that is past its claim.\<close>

lemma live_worker:
  assumes "live c j" "sy_log c' = sy_log c" "sy_committed c' = sy_committed c"
    and "sy_work c w = WAt off i jt st" "st \<noteq> Got" "sy_work c' = (sy_work c)(w := WAt off i jt st')"
  shows "live c' j"
proof (rule live_keep [OF assms(1), of _ "[]"])
  fix off'
  assume "taken c' off' j"
  with assms(6) show "taken c off' j" by (rule taken_move) (use taken_at [OF assms(4,5)] in auto)
qed (simp_all add: assms(2,3))

lemma live_other:
  assumes "live c j" "sy_log c' = sy_log c" "sy_committed c' = sy_committed c"
    and "sy_work c' = (sy_work c)(w := pc)" "\<And>off jt st. pc = WAt off j jt st \<Longrightarrow> st = Got"
  shows "live c' j"
proof (rule live_keep [OF assms(1), of _ "[]"])
  fix off'
  assume "taken c' off' j"
  with assms(4) show "taken c off' j" by (rule taken_move) (use assms(5) in auto)
qed (simp_all add: assms(2,3))

context shared_store
begin

lemma between_job:
  assumes "inv (sy_store c)" "flight_ok (abs (sy_store c)) c" "between c j"
  shows "\<exists>b. a_jobs (abs (sy_store c)) j = Some b"
proof -
  from assms(3) obtain d m ms where m: "sy_disp c d = DPublished m ms" "om_job_id m = j" by (auto simp: between_def)
  with flight_ok_disp [OF assms(2), of m d] obtain q where
    out: "a_outbox (abs (sy_store c)) (om_id m) = Some (m, q)" by auto
  show ?thesis using m(2) by (metis a_wf_message_job [OF inv_wf [OF assms(1)] out])
qed

lemma enqueue_due_law:
  assumes "inv (sy_store c)" "flight_ok (abs (sy_store c)) c" "op_enqueue ops t u jt p cr (sy_store c) = (r, s')"
    and "due (abs s') c j"
  shows "due (abs (sy_store c)) c j"
proof (cases "a_active (abs (sy_store c)) jt")
  case True
  with assms(3,4) enqueue_dup [OF assms(1) True, of t u p cr] show ?thesis by auto
next
  case False
  then obtain jid k v where new: "a_jobs (abs (sy_store c)) jid = None"
    "abs s' = spec_enqueue jid k t v jt p cr (abs (sy_store c))"
    using assms(3) enqueue_new [OF assms(1) False, of t u p cr] by auto
  with between_job [OF assms(1,2), of jid] have "\<not> between c jid" by auto
  with assms(4) new(2) show ?thesis using due_enqueue by auto
qed

lemma delivered_publish:
  assumes "inv (sy_store c)" "flight_ok (abs (sy_store c)) c" "delivered (abs (sy_store c)) c"
    and d: "sy_disp c d = DBatch (m # ms)"
  defines "c' \<equiv> c\<lparr>sy_log := sy_log c @ [om_payload m], sy_disp := (sy_disp c)(d := DPublished m ms)\<rparr>"
  shows "delivered (abs (sy_store c)) c'"
  unfolding delivered_def
proof (intro allI impI)
  fix j
  assume due: "due (abs (sy_store c)) c' j"
  have old: "off < length (sy_log c)" if "taken c off i" for off i
    using that flight_ok_work [OF assms(2)] by (auto simp: taken_def)
  have work: "taken c' off i = taken c off i" for off i by (simp add: taken_def c'_def)
  show "live c' j"
  proof (cases "j = om_job_id m")
    case True
    from flight_ok_disp [OF assms(2), of m d] d obtain q where
      out: "a_outbox (abs (sy_store c)) (om_id m) = Some (m, q)" by auto
    obtain b where "a_jobs (abs (sy_store c)) (om_job_id m) = Some b"
      "om_payload m = build_envelope (om_job_id m) (j_job_type b)"
      by (rule a_wf_message_job [OF inv_wf [OF assms(1)] out])
    moreover have "length (sy_log c) \<notin> sy_committed c" using assms(2) by (auto simp: flight_ok_def)
    moreover have "\<not> taken c' (length (sy_log c)) j" using old work by blast
    ultimately show ?thesis unfolding live_def
      by (intro exI [of _ "length (sy_log c)"] exI [of _ "j_job_type b"]) (simp add: c'_def True)
  next
    case False
    with due d have "due (abs (sy_store c)) c j"
      by (elim due_between) (auto simp: between_def c'_def split: if_splits)
    with assms(3) have "live c j" by (simp add: delivered_def)
    then show ?thesis by (rule live_keep [where suffix = "[om_payload m]"]) (auto simp: taken_def c'_def)
  qed
qed

lemma op_finish_due_law:
  assumes "inv s" "op_finish ops st t i s = (ok, s')" "due (abs s') c j"
  shows "due (abs s) c j"
proof (cases "st = COMPLETED")
  case True
  with assms complete [OF assms(1), of t i] have "due (snd (spec_finish COMPLETED t i (abs s))) c j"
    by (auto simp: op_finish_def prod_eq_iff)
  then show ?thesis by (rule due_finish) simp
next
  case False
  with assms fail [OF assms(1), of t i] have "due (snd (spec_finish FAILED t i (abs s))) c j"
    by (auto simp: op_finish_def prod_eq_iff)
  then show ?thesis by (rule due_finish) simp
qed

lemma delivered_step:
  assumes "sys_step ops lookup c l c'" "inv (sy_store c)" "flight_ok (abs (sy_store c)) c"
    and "delivered (abs (sy_store c)) c" "undisturbed c l"
  shows "delivered (abs (sy_store c')) c'"
  using assms
proof (induction rule: sys_step.induct)
  case (produce t u jt p cr c r s')
  then show ?case by (intro deliveredI [OF produce.prems(3)]) (auto intro: enqueue_due_law)
next
  case (fetch c d n ms unlocked)
  then show ?case
    by (intro deliveredI [OF fetch.prems(3)]) (auto dest: due_disp [where c = c and d = d])
next
  case (publish c d m ms)
  then show ?case using delivered_publish by simp
next
  case (mark c d m ms t)
  then obtain q where "a_outbox (abs (sy_store c)) (om_id m) = Some (m, q)" using flight_ok_disp [of _ c m d] by auto
  note law = mark_law [OF mark.prems(1) this, of t, THEN conjunct2]
  have "between c (om_job_id m)" using mark.hyps by (auto simp: between_def)
  then show ?case
    by (intro deliveredI [OF mark.prems(3)])
      (auto simp: law intro: due_mark dest: due_disp [where c = c and d = d])
next
  case (round_over c d)
  then show ?case
    by (intro deliveredI [OF round_over.prems(3)]) (auto dest: due_disp [where c = c and d = d])
next
  case (disp_crash c d)
  then show ?case
    by (intro deliveredI [OF disp_crash.prems(3)]) (auto dest: due_disp [where c = c and d = d])
next
  case (receive c w off j jt)
  then show ?case by (intro deliveredI [OF receive.prems(3)]) (auto intro: live_other [where w = w])
next
  case (claim_lost c w off j jt t s')
  have "abs s' = abs (sy_store c)" "\<not> fst (spec_claim t j (abs (sy_store c)))"
    using claim [OF claim_lost.prems(1), of t j] claim_lost.hyps(2)
    by (auto simp: spec_claim_def a_guarded_def split: option.splits if_splits)
  then show ?case
    by (intro deliveredI [OF claim_lost.prems(3)]) (auto dest: due_claimable intro: live_other [where w = w])
next
  case (claim_won c w off j jt t s')
  have "abs s' = snd (spec_claim t j (abs (sy_store c)))" "fst (spec_claim t j (abs (sy_store c)))"
    using claim [OF claim_won.prems(1), of t j] claim_won.hyps(2) by (auto simp: prod_eq_iff)
  then show ?case
    by (intro deliveredI [OF claim_won.prems(3)]) (auto dest: due_claim intro: live_other [where w = w])
next
  case (resolve c w off j jt t v s')
  then obtain b where "a_jobs (abs (sy_store c)) j = Some b" "j_job_type b = jt" using flight_ok_work by blast
  then have "abs s' = snd (spec_resolve t j (abs (sy_store c)))"
    using resolve_law [OF resolve.prems(1), of j b t] resolve.hyps(2) by (auto simp: prod_eq_iff)
  then show ?case
    by (intro deliveredI [OF resolve.prems(3)])
      (auto dest: due_resolve intro: live_worker [OF _ _ _ resolve.hyps(1)])
next
  case (run c w off j jt p)
  then show ?case using store_after_run_law [OF run.prems(1)]
    by (intro deliveredI [OF run.prems(3)]) (auto intro: live_worker [OF _ _ _ run.hyps(1)])
next
  case (finish c w off j jt st t ok s')
  then show ?case
    by (intro deliveredI [OF finish.prems(3)])
      (auto intro: op_finish_due_law live_worker [OF _ _ _ finish.hyps(1)])
next
  case (commit c w off j jt)
  have "live (c\<lparr>sy_committed := insert off (sy_committed c), sy_work := (sy_work c)(w := WIdle)\<rparr>) i"
    if "live c i" for i
  proof (rule live_keep [OF that, of _ "[]"])
    fix off' jt'
    assume "off' \<in> sy_committed (c\<lparr>sy_committed := insert off (sy_committed c), sy_work := (sy_work c)(w := WIdle)\<rparr>)"
      "off' \<notin> sy_committed c" "sy_log c ! off' = build_envelope i jt'"
    then show "taken c off' i" using flight_ok_work [OF commit.prems(2) commit.hyps] taken_at [OF commit.hyps]
      by auto
  qed (auto simp: taken_def split: if_splits)
  with commit show ?case by (intro deliveredI [OF commit.prems(3)]) auto
next
  case (work_crash c w)
  then show ?case by (intro deliveredI [OF work_crash.prems(3)]) (auto intro: live_other [where w = w])
next
  case (requeue c r x xs t ok s')
  then have "\<not> between c (sj_job_id x)" unfolding undisturbed_def between_def by metis
  moreover have "abs s' = snd (spec_requeue t (sj_job_id x) (abs (sy_store c)))"
    using requeue_law [OF requeue.prems(1), of t "sj_job_id x"] requeue.hyps(2) by (auto simp: prod_eq_iff)
  ultimately show ?case by (intro deliveredI [OF requeue.prems(3)]) (auto dest: due_requeue)
next
  case (dead_letter c r x xs t ok s')
  have "abs s' = snd (spec_finish FAILED t (sj_job_id x) (abs (sy_store c)))"
    using dead_letter_law [OF dead_letter.prems(1), of t "sj_job_id x"] dead_letter.hyps(2) by (auto simp: prod_eq_iff)
  then show ?case by (intro deliveredI [OF dead_letter.prems(3)]) (auto dest: due_finish)
qed (simp_all add: delivered_def)

lemma calm_steps_law:
  assumes "calm_steps ops lookup c c'" "inv (sy_store c)" "sys_ok (abs (sy_store c)) c" "delivered (abs (sy_store c)) c"
  shows "inv (sy_store c') \<and> sys_ok (abs (sy_store c')) c' \<and> delivered (abs (sy_store c')) c'"
  using assms
proof (induction rule: calm_steps.induct)
  case (more c c' l c'')
  then have IH: "inv (sy_store c')" "sys_ok (abs (sy_store c')) c'" "delivered (abs (sy_store c')) c'" by auto
  from IH(2) have "flight_ok (abs (sy_store c')) c'" by (simp add: sys_ok_def)
  with sys_ok_step [OF more.hyps(2) IH(1,2)] delivered_step [OF more.hyps(2) IH(1) _ IH(3) more.hyps(3)]
  show ?case by simp
qed simp

end

section \<open>A stranded job stays stranded\<close>

lemma dispatched_row_kept:
  assumes "a_jobs a j = Some b" "j_status b = DISPATCHED"
  shows "a_jobs (snd (spec_finish st t i a)) j = Some b" "a_jobs (snd (spec_requeue t i a)) j = Some b"
    "a_jobs (snd (spec_resolve t i a)) j = Some b"
    "i \<noteq> j \<Longrightarrow> a_jobs (snd (spec_claim t i a)) j = Some b" "i \<noteq> j \<Longrightarrow> a_jobs (spec_mark t k i a) j = Some b"
    "a_jobs a i = None \<Longrightarrow> a_jobs (spec_enqueue i k t u jt p cr a) j = Some b"
  using assms by (auto simp: spec_finish_def spec_requeue_def spec_resolve_def spec_claim_def spec_enqueue_def
      spec_mark_jobs a_guarded_def Let_def split: option.splits)

lemma strandedD:
  assumes "stranded a c j b"
  shows "a_jobs a j = Some b" "j_status b = DISPATCHED"
    "m \<in> set (disp_messages (sy_disp c d)) \<Longrightarrow> om_job_id m \<noteq> j"
    "sy_work c w = WAt off i jt Got \<Longrightarrow> i \<noteq> j"
    "off < length (sy_log c) \<Longrightarrow> off \<notin> sy_committed c \<Longrightarrow> sy_log c ! off = build_envelope i jt \<Longrightarrow> i \<noteq> j"
  using assms unfolding stranded_def by blast+

text \<open>The processes alone never come back to a stranded job.\<close>

lemma stranded_disp:
  assumes "stranded a c j b" "sy_disp c' = (sy_disp c)(d := pc)" "\<And>m. m \<in> set (disp_messages pc) \<Longrightarrow> om_job_id m \<noteq> j"
    and "sy_log c' = sy_log c" "sy_committed c' = sy_committed c" "sy_work c' = sy_work c"
  shows "stranded a c' j b"
  using assms by (simp add: stranded_def)

lemma stranded_work:
  assumes "stranded a c j b" "sy_work c' = (sy_work c)(w := pc)" "\<And>off jt. pc \<noteq> WAt off j jt Got"
    and "sy_log c' = sy_log c" "sy_committed c \<subseteq> sy_committed c'" "sy_disp c' = sy_disp c"
  shows "stranded a c' j b"
  using assms by (auto simp: stranded_def)

lemma stranded_row:
  "stranded a c j b \<Longrightarrow> a_jobs a' j = Some b \<Longrightarrow> stranded a' c j b"
  by (simp add: stranded_def)

lemma stranded_frame [simp]:
  "stranded a (c\<lparr>sy_store := s\<rparr>) j b = stranded a c j b" "stranded a (c\<lparr>sy_reap := rs\<rparr>) j b = stranded a c j b"
  "stranded a (c\<lparr>sy_claims := n\<rparr>) j b = stranded a c j b"
  by (simp_all add: stranded_def)

context shared_store
begin

lemma stranded_step:
  assumes "sys_step ops lookup c l c'" "inv (sy_store c)" "flight_ok (abs (sy_store c)) c"
    and "stranded (abs (sy_store c)) c j b"
  shows "stranded (abs (sy_store c')) c' j b"
  using assms
proof (induction rule: sys_step.induct)
  case (fetch c d n ms unlocked)
  have "om_job_id m \<noteq> j" if "m \<in> set (filter unlocked ms)" for m
  proof
    assume "om_job_id m = j"
    moreover have "a_outbox (abs (sy_store c)) (om_id m) = Some (m, False)"
      using that fetch.hyps(2,3) a_pending_outbox [OF inv_wf [OF fetch.prems(1)]]
      by (auto simp: fetch_law [OF fetch.prems(1)] dest: in_set_takeD)
    ultimately show False using fetch.prems(3) inv_wf [OF fetch.prems(1)]
      unfolding stranded_def a_wf_def armed_def by blast
  qed
  then have "stranded (abs (sy_store c)) (c\<lparr>sy_disp := (sy_disp c)(d := DBatch (filter unlocked ms))\<rparr>) j b"
    by (intro stranded_disp [OF fetch.prems(3), of _ d "DBatch (filter unlocked ms)"]) simp_all
  then show ?case by simp
next
  case (produce t u jt p cr c r s')
  from produce.prems(3) have row: "a_jobs (abs (sy_store c)) j = Some b" "j_status b = DISPATCHED"
    by (rule strandedD)+
  have "a_jobs (abs s') j = Some b"
    using enqueue_law [OF produce.prems(1) produce.hyps] produce.hyps
      enqueue_dup [OF produce.prems(1), of jt t u p cr] enqueue_new [OF produce.prems(1), of jt t u p cr]
      dispatched_row_kept(6) [OF row]
    by (cases "a_active (abs (sy_store c)) jt") (use row in force)+
  then show ?case using stranded_row [OF produce.prems(3)] by simp
next
  case (publish c d m ms)
  from publish.prems(3) have other: "om_job_id x \<noteq> j" if "x \<in> set (disp_messages (sy_disp c d))" for d x
    using that by (rule strandedD(3))
  from flight_ok_disp [OF publish.prems(2), of m d] publish.hyps obtain q where
    out: "a_outbox (abs (sy_store c)) (om_id m) = Some (m, q)" by auto
  obtain b' where "a_jobs (abs (sy_store c)) (om_job_id m) = Some b'"
    and env: "om_payload m = build_envelope (om_job_id m) (j_job_type b')"
    by (rule a_wf_message_job [OF inv_wf [OF publish.prems(1)] out])
  have "om_job_id m \<noteq> j" "\<forall>x \<in> set ms. om_job_id x \<noteq> j" using other [of _ d] publish.hyps by simp_all
  with env publish.prems(3) other show ?case by (auto simp: stranded_def nth_append less_Suc_eq)
next
  case (mark c d m ms t)
  then obtain q where "a_outbox (abs (sy_store c)) (om_id m) = Some (m, q)" using flight_ok_disp [of _ c m d] by auto
  note law = mark_law [OF mark.prems(1) this, of t, THEN conjunct2]
  from mark.prems(3) have other: "om_job_id x \<noteq> j" if "x \<in> set (disp_messages (sy_disp c d))" for d x
    using that by (rule strandedD(3))
  then have "om_job_id m \<noteq> j" "\<forall>x \<in> set ms. om_job_id x \<noteq> j" using mark.hyps by (metis disp_messages.simps(3) list.set_intros)+
  note ms = this
  from ms(1) have str: "stranded (spec_mark t (om_id m) (om_job_id m) (abs (sy_store c))) c j b"
    using stranded_row [OF mark.prems(3) dispatched_row_kept(5) [OF strandedD(1,2) [OF mark.prems(3)]]] by simp
  have "stranded (spec_mark t (om_id m) (om_job_id m) (abs (sy_store c)))
      (c\<lparr>sy_disp := (sy_disp c)(d := DBatch ms)\<rparr>) j b"
    by (rule stranded_disp [OF str, of _ d "DBatch ms"]) (use ms(2) in simp_all)
  then show ?case by (simp add: law stranded_def)
next
  case (round_over c d)
  then show ?case by (auto simp: stranded_def)
next
  case (disp_crash c d)
  then show ?case by (auto simp: stranded_def)
next
  case (receive c w off i jt)
  then obtain i' b' where "sy_log c ! off = build_envelope i' (j_job_type b')" "a_jobs (abs (sy_store c)) i' = Some b'"
    unfolding flight_ok_def log_ok_def by (meson nth_mem)
  with receive.hyps strandedD(5) [OF receive.prems(3) receive.hyps(2,3)] have "i \<noteq> j" by auto
  with receive.prems(3) show ?case by (auto simp: stranded_def)
next
  case (claim_lost c w off i jt t s')
  have "abs s' = abs (sy_store c)"
    using claim [OF claim_lost.prems(1), of t i] claim_lost.hyps(2)
    by (auto simp: spec_claim_def a_guarded_def split: option.splits if_splits)
  with claim_lost.prems(3) show ?case by (auto simp: stranded_def)
next
  case (claim_won c w off i jt t s')
  have "abs s' = snd (spec_claim t i (abs (sy_store c)))"
    using claim [OF claim_won.prems(1), of t i] claim_won.hyps(2) by (auto simp: prod_eq_iff)
  moreover have "i \<noteq> j" using claim_won.prems(3) claim_won.hyps(1) by (rule strandedD(4))
  ultimately have "a_jobs (abs s') j = Some b" using dispatched_row_kept(4) [OF strandedD(1,2) [OF claim_won.prems(3)]] by simp
  with claim_won.prems(3) show ?case by (auto simp: stranded_def)
next
  case (resolve c w off i jt t v s')
  then obtain b' where "a_jobs (abs (sy_store c)) i = Some b'" "j_job_type b' = jt" using flight_ok_work by blast
  then have "abs s' = snd (spec_resolve t i (abs (sy_store c)))"
    using resolve_law [OF resolve.prems(1), of i b' t] resolve.hyps(2) by (auto simp: prod_eq_iff)
  then have "a_jobs (abs s') j = Some b" using dispatched_row_kept(3) [OF strandedD(1,2) [OF resolve.prems(3)]] by simp
  with resolve.prems(3) show ?case by (auto simp: stranded_def split: option.splits)
next
  case (run c w off i jt p)
  then show ?case using store_after_run_law [OF run.prems(1)] by (auto simp: stranded_def)
next
  case (finish c w off i jt st t ok s')
  have "a_jobs (abs s') j = Some b"
    using complete [OF finish.prems(1), of t i] fail [OF finish.prems(1), of t i] finish.hyps(2)
      dispatched_row_kept(1) [OF strandedD(1,2) [OF finish.prems(3)]]
    by (auto simp: op_finish_def prod_eq_iff split: if_splits)
  with finish.prems(3) show ?case by (auto simp: stranded_def)
next
  case (commit c w off i jt)
  then show ?case by (auto simp: stranded_def)
next
  case (work_crash c w)
  then show ?case by (auto simp: stranded_def)
next
  case (requeue c r x xs t ok s')
  have "abs s' = snd (spec_requeue t (sj_job_id x) (abs (sy_store c)))"
    using requeue_law [OF requeue.prems(1), of t "sj_job_id x"] requeue.hyps(2) by (auto simp: prod_eq_iff)
  then have "a_jobs (abs s') j = Some b" using dispatched_row_kept(2) [OF strandedD(1,2) [OF requeue.prems(3)]] by simp
  with stranded_row [OF requeue.prems(3)] show ?case by simp
next
  case (dead_letter c r x xs t ok s')
  have "abs s' = snd (spec_finish FAILED t (sj_job_id x) (abs (sy_store c)))"
    using dead_letter_law [OF dead_letter.prems(1), of t "sj_job_id x"] dead_letter.hyps(2) by (auto simp: prod_eq_iff)
  then have "a_jobs (abs s') j = Some b" using dispatched_row_kept(1) [OF strandedD(1,2) [OF dead_letter.prems(3)]] by simp
  with stranded_row [OF dead_letter.prems(3)] show ?case by simp
qed simp_all

lemma stranded_steps:
  assumes "sys_steps ops lookup c c'" "inv (sy_store c)" "sys_ok (abs (sy_store c)) c"
    and "stranded (abs (sy_store c)) c j b"
  shows "stranded (abs (sy_store c')) c' j b"
  using assms
proof (induction rule: sys_steps.induct)
  case (more c c' l c'')
  note law = sys_steps_law [OF more.hyps(1) more.prems(1,2)]
  show ?case by (rule stranded_step [OF more.hyps(2)]) (use law more in \<open>auto simp: sys_ok_def\<close>)
qed

end

section \<open>From an empty system\<close>

lemma sys_init_simps [simp]:
  "sy_store (sys_init s) = s" "sy_log (sys_init s) = []" "sy_committed (sys_init s) = {}"
  "sy_disp (sys_init s) d = DIdle" "sy_work (sys_init s) w = WIdle" "sy_reap (sys_init s) r = RIdle"
  "sy_claims (sys_init s) j = 0"
  by (simp_all add: sys_init_def)

lemma sys_ok_init: "(\<And>j. a_jobs a j = None) \<Longrightarrow> sys_ok a (sys_init s)"
  by (simp add: sys_ok_def flight_ok_def log_ok_def disp_ok_def claims_ok_def)

lemma sys_ok_unclaimed:
  "(\<And>j b. a_jobs a j = Some b \<Longrightarrow> j_status b \<in> {QUEUED, DISPATCHED} \<and> j_attempts b = 0) \<Longrightarrow> sys_ok a (sys_init s)"
  by (auto simp: sys_ok_def flight_ok_def log_ok_def disp_ok_def claims_ok_def claims_of_def split: option.split)

lemma delivered_init: "(\<And>j. a_jobs a j = None) \<Longrightarrow> delivered a (sys_init s)"
  by (simp add: delivered_def due_def)

lemma claims_bound:
  assumes "claims_ok a n" "a_capped a" "a_jobs a j = Some b"
  shows "int (n j) \<le> max 0 (max_attempts_of (a_config a) (j_job_type b)) + 1"
proof -
  have "j_attempts b \<le> max 0 (max_attempts_of (a_config a) (j_job_type b))" using assms(2,3) by (auto simp: a_capped_def)
  moreover have "int (n j) = claims_of b" using assms(1,3) by (simp add: claims_ok_def)
  ultimately show ?thesis by (simp add: claims_of_def)
qed

end
