(* ===== verification/Schedules.thy ===== *)
theory Schedules
  imports System_Laws
begin

text \<open>
  Schedules: an executable form of the step relation, so that a concrete interleaving can be evaluated, and
  the proof that the service functions themselves (\<open>process\<close>, \<open>dispatch_once\<close>, \<open>reap_once\<close>), run
  without interruption, are paths of the step relation.
\<close>

section \<open>Executing a schedule\<close>

datatype action =
    AProduce time string "payload option" "creator option"
  | AFetch nat int | APublish nat | AMark nat time | ARoundOver nat
  | AReceive nat nat | AClaim nat time | AResolve nat time | ARun nat | AFinish nat time | ACommit nat
  | AWorkCrash nat
  | ASweep nat time | ARequeue nat time | ADeadLetter nat time | ASweepOver nat

fun act_disp :: "'s store_ops \<Rightarrow> action \<Rightarrow> 's system \<Rightarrow> 's system option" where
  "act_disp ops (AFetch d n) c = (if sy_disp c d = DIdle \<and> 0 \<le> n
     then (case op_fetch_unpublished ops n (sy_store c) of
         Inl e \<Rightarrow> None | Inr ms \<Rightarrow> Some (c\<lparr>sy_disp := (sy_disp c)(d := DBatch ms)\<rparr>)) else None)"
| "act_disp ops (APublish d) c = (case sy_disp c d of
     DBatch (m # ms) \<Rightarrow> Some (c\<lparr>sy_log := sy_log c @ [om_payload m], sy_disp := (sy_disp c)(d := DPublished m ms)\<rparr>)
   | _ \<Rightarrow> None)"
| "act_disp ops (AMark d t) c = (case sy_disp c d of
     DPublished m ms \<Rightarrow> Some (c\<lparr>sy_store := op_mark_dispatched ops t (om_id m) (om_job_id m) (sy_store c),
       sy_disp := (sy_disp c)(d := DBatch ms)\<rparr>)
   | _ \<Rightarrow> None)"
| "act_disp ops (ARoundOver d) c = (case sy_disp c d of
     DBatch [] \<Rightarrow> Some (c\<lparr>sy_disp := (sy_disp c)(d := DIdle)\<rparr>) | _ \<Rightarrow> None)"
| "act_disp ops a c = None"

fun act_work :: "'s store_ops \<Rightarrow> lookup \<Rightarrow> action \<Rightarrow> 's system \<Rightarrow> 's system option" where
  "act_work ops lookup (AReceive w off) c =
     (if sy_work c w = WIdle \<and> off < length (sy_log c) \<and> off \<notin> sy_committed c then
        (case open_envelope (sy_log c ! off) of
           Inr (JInt j, JStr jt) \<Rightarrow> Some (c\<lparr>sy_work := (sy_work c)(w := WAt off j jt Got)\<rparr>)
         | _ \<Rightarrow> None)
      else None)"
| "act_work ops lookup (AClaim w t) c = (case sy_work c w of
     WAt off j jt Got \<Rightarrow> (case op_claim ops t j (sy_store c) of
        (False, s') \<Rightarrow> Some (c\<lparr>sy_store := s', sy_work := (sy_work c)(w := WAt off j jt Done)\<rparr>)
      | (True, s') \<Rightarrow> Some (c\<lparr>sy_store := s', sy_work := (sy_work c)(w := WAt off j jt Claimed),
          sy_claims := (sy_claims c)(j := Suc (sy_claims c j))\<rparr>))
   | _ \<Rightarrow> None)"
| "act_work ops lookup (AResolve w t) c = (case sy_work c w of
     WAt off j jt Claimed \<Rightarrow> (case op_resolve_payload ops t j jt (sy_store c) of
        (v, s') \<Rightarrow> Some (c\<lparr>sy_store := s', sy_work := (sy_work c)(w := WAt off j jt
          (case v of None \<Rightarrow> Finish FAILED | Some p \<Rightarrow> Resolved p))\<rparr>))
   | _ \<Rightarrow> None)"
| "act_work ops lookup (ARun w) c = (case sy_work c w of
     WAt off j jt (Resolved p) \<Rightarrow> Some (c\<lparr>sy_store := store_after_run ops lookup j jt p (sy_store c),
       sy_work := (sy_work c)(w := WAt off j jt (Finish (after_run lookup jt p)))\<rparr>)
   | _ \<Rightarrow> None)"
| "act_work ops lookup (AFinish w t) c = (case sy_work c w of
     WAt off j jt (Finish st) \<Rightarrow> Some (c\<lparr>sy_store := snd (op_finish ops st t j (sy_store c)),
       sy_work := (sy_work c)(w := WAt off j jt Done)\<rparr>)
   | _ \<Rightarrow> None)"
| "act_work ops lookup (ACommit w) c = (case sy_work c w of
     WAt off j jt Done \<Rightarrow> Some (c\<lparr>sy_committed := insert off (sy_committed c), sy_work := (sy_work c)(w := WIdle)\<rparr>)
   | _ \<Rightarrow> None)"
| "act_work ops lookup (AWorkCrash w) c = Some (c\<lparr>sy_work := (sy_work c)(w := WIdle)\<rparr>)"
| "act_work ops lookup a c = None"

fun act_reap :: "'s store_ops \<Rightarrow> action \<Rightarrow> 's system \<Rightarrow> 's system option" where
  "act_reap ops (ASweep r t) c = (if sy_reap c r = RIdle
     then Some (c\<lparr>sy_reap := (sy_reap c)(r := RSweep (op_find_stuck ops t (sy_store c)))\<rparr>) else None)"
| "act_reap ops (ARequeue r t) c = (case sy_reap c r of
     RSweep (x # xs) \<Rightarrow> (case op_requeue_stuck ops t (sj_job_id x) (sy_store c) of
        (ok, s') \<Rightarrow> Some (c\<lparr>sy_store := s', sy_reap := (sy_reap c)(r := if ok then RSweep xs else RDead x xs)\<rparr>))
   | _ \<Rightarrow> None)"
| "act_reap ops (ADeadLetter r t) c = (case sy_reap c r of
     RDead x xs \<Rightarrow> Some (c\<lparr>sy_store := snd (op_dead_letter ops t (sj_job_id x) (sy_store c)),
       sy_reap := (sy_reap c)(r := RSweep xs)\<rparr>)
   | _ \<Rightarrow> None)"
| "act_reap ops (ASweepOver r) c = (case sy_reap c r of
     RSweep [] \<Rightarrow> Some (c\<lparr>sy_reap := (sy_reap c)(r := RIdle)\<rparr>) | _ \<Rightarrow> None)"
| "act_reap ops a c = None"

definition act :: "'s store_ops \<Rightarrow> lookup \<Rightarrow> action \<Rightarrow> 's system \<Rightarrow> 's system option" where
  "act ops lookup a c = (case a of
      AProduce t jt p cr \<Rightarrow> Some (c\<lparr>sy_store := snd (op_enqueue ops t t jt p cr (sy_store c))\<rparr>)
    | _ \<Rightarrow> (case act_disp ops a c of
        Some c' \<Rightarrow> Some c'
      | None \<Rightarrow> (case act_work ops lookup a c of
          Some c' \<Rightarrow> Some c'
        | None \<Rightarrow> act_reap ops a c)))"

fun schedule :: "'s store_ops \<Rightarrow> lookup \<Rightarrow> action list \<Rightarrow> 's system \<Rightarrow> 's system option" where
  "schedule ops lookup [] c = Some c"
| "schedule ops lookup (a # as) c = (case act ops lookup a c of
     None \<Rightarrow> None
   | Some c' \<Rightarrow> schedule ops lookup as c')"

fun calm_action :: "action \<Rightarrow> bool" where
  "calm_action (ARequeue r t) = False"
| "calm_action a = True"

fun actor :: "action \<Rightarrow> nat" where
  "actor (AProduce t jt p cr) = 0" | "actor (AFetch d n) = d" | "actor (APublish d) = d" | "actor (AMark d t) = d"
| "actor (ARoundOver d) = d" | "actor (AReceive w off) = w" | "actor (AClaim w t) = w" | "actor (AResolve w t) = w"
| "actor (ARun w) = w" | "actor (AFinish w t) = w" | "actor (ACommit w) = w" | "actor (AWorkCrash w) = w"
| "actor (ASweep r t) = r" | "actor (ARequeue r t) = r" | "actor (ADeadLetter r t) = r" | "actor (ASweepOver r) = r"

section \<open>Schedules are runs\<close>

lemma sys_steps_trans:
  assumes "sys_steps ops lookup c' c''" "sys_steps ops lookup c c'"
  shows "sys_steps ops lookup c c''"
  using assms by (induction rule: sys_steps.induct) (auto intro: sys_steps.more)

lemma sys_steps_first: "sys_step ops lookup c l c' \<Longrightarrow> sys_steps ops lookup c' c'' \<Longrightarrow> sys_steps ops lookup c c''"
  by (erule sys_steps_trans) (rule sys_steps.more [OF sys_steps.none])

lemma calm_steps_trans:
  assumes "calm_steps ops lookup c' c''" "calm_steps ops lookup c c'"
  shows "calm_steps ops lookup c c''"
  using assms by (induction rule: calm_steps.induct) (auto intro: calm_steps.more)

lemma undisturbed_None [simp]: "undisturbed c None"
  by (simp add: undisturbed_def)

lemma fetch_unlocked: "sy_disp c d = DIdle \<Longrightarrow> 0 \<le> n \<Longrightarrow> op_fetch_unpublished ops n (sy_store c) = Inr ms \<Longrightarrow>
    sys_step ops lookup c None (c\<lparr>sy_disp := (sy_disp c)(d := DBatch ms)\<rparr>)"
  using sys_step.fetch [where unlocked = "\<lambda>_. True"] by simp

lemma act_disp_step: "act_disp ops a c = Some c' \<Longrightarrow> sys_step ops lookup c None c'"
  by (cases "(ops, a, c)" rule: act_disp.cases)
    (auto split: disp_pc.splits list.splits if_splits sum.splits intro: fetch_unlocked sys_step.intros)

lemma act_work_step: "act_work ops lookup a c = Some c' \<Longrightarrow> sys_step ops lookup c None c'"
  by (cases "(ops, lookup, a, c)" rule: act_work.cases)
    (auto split: work_pc.splits work_stage.splits if_splits sum.splits prod.splits bool.splits json.splits
      intro: sys_step.intros surjective_pairing)

lemma act_reap_step:
  "act_reap ops a c = Some c' \<Longrightarrow> \<exists>l. sys_step ops lookup c l c' \<and> (calm_action a \<longrightarrow> l = None)"
proof (cases "(ops, a, c)" rule: act_reap.cases)
  case (2 ops' r t c'')
  moreover assume "act_reap ops a c = Some c'"
  ultimately show ?thesis
    by (auto split: reap_pc.splits list.splits prod.splits intro: sys_step.requeue)
qed (auto split: reap_pc.splits list.splits if_splits intro: sys_step.intros surjective_pairing)

lemma act_step:
  assumes "act ops lookup a c = Some c'"
  shows "\<exists>l. sys_step ops lookup c l c' \<and> (calm_action a \<longrightarrow> l = None)"
proof -
  consider t jt p cr where "a = AProduce t jt p cr" | "act_disp ops a c = Some c'"
    | "act_work ops lookup a c = Some c'" | "act_reap ops a c = Some c'"
    using assms by (cases a) (auto simp: act_def split: option.splits)
  then show ?thesis
  proof cases
    case 1
    with assms have "c' = c\<lparr>sy_store := snd (op_enqueue ops t t jt p cr (sy_store c))\<rparr>" by (simp add: act_def)
    then show ?thesis by (auto intro: sys_step.produce surjective_pairing)
  qed (blast intro: act_disp_step act_work_step act_reap_step)+
qed

lemma schedule_steps: "schedule ops lookup as c = Some c' \<Longrightarrow> sys_steps ops lookup c c'"
  by (induction as arbitrary: c)
    (auto split: option.splits dest: act_step intro: sys_steps.none sys_steps_first)

lemma schedule_calm:
  "schedule ops lookup as c = Some c' \<Longrightarrow> list_all calm_action as \<Longrightarrow> calm_steps ops lookup c c'"
proof (induction as arbitrary: c)
  case (Cons a as)
  then obtain c1 where c1: "act ops lookup a c = Some c1" "schedule ops lookup as c1 = Some c'"
    by (auto split: option.splits)
  with Cons.prems(2) act_step [OF c1(1)] have "sys_step ops lookup c None c1" by auto
  then have "calm_steps ops lookup c c1" by (rule calm_steps.more [OF calm_steps.none _ undisturbed_None])
  with Cons c1 show ?case by (auto intro: calm_steps_trans)
qed (simp add: calm_steps.none)

text \<open>A schedule leaves the processes it does not name alone.\<close>

lemma act_others:
  assumes "act ops lookup a c = Some c'" "i \<noteq> actor a"
  shows "sy_disp c' i = sy_disp c i \<and> sy_work c' i = sy_work c i"
proof -
  consider t jt p cr where "a = AProduce t jt p cr" | "act_disp ops a c = Some c'"
    | "act_work ops lookup a c = Some c'" | "act_reap ops a c = Some c'"
    using assms by (cases a) (auto simp: act_def split: option.splits)
  then show ?thesis
  proof cases
    case 1
    with assms(1) show ?thesis by (auto simp: act_def)
  next
    case 2
    with assms(2) show ?thesis
      by (cases "(ops, a, c)" rule: act_disp.cases) (auto split: disp_pc.splits list.splits if_splits sum.splits)
  next
    case 3
    with assms(2) show ?thesis
      by (cases "(ops, lookup, a, c)" rule: act_work.cases)
        (auto split: work_pc.splits work_stage.splits if_splits sum.splits prod.splits bool.splits json.splits)
  next
    case 4
    with assms(2) show ?thesis
      by (cases "(ops, a, c)" rule: act_reap.cases) (auto split: reap_pc.splits list.splits if_splits prod.splits)
  qed
qed

lemma schedule_others:
  "schedule ops lookup as c = Some c' \<Longrightarrow> i \<notin> actor ` set as \<Longrightarrow> sy_disp c' i = sy_disp c i \<and> sy_work c' i = sy_work c i"
  by (induction as arbitrary: c) (auto split: option.splits dest: act_others)

section \<open>The service functions are runs\<close>

text \<open>Everything but the store and the process itself is as before.\<close>

definition same_but_work :: "nat \<Rightarrow> 's system \<Rightarrow> 's system \<Rightarrow> bool" where
  "same_but_work w c c' \<longleftrightarrow> sy_log c' = sy_log c \<and> sy_committed c' = sy_committed c \<and> sy_disp c' = sy_disp c \<and>
     sy_reap c' = sy_reap c \<and> (\<forall>w'. w' \<noteq> w \<longrightarrow> sy_work c' w' = sy_work c w')"

definition put_work :: "nat \<Rightarrow> work_pc \<Rightarrow> 's \<Rightarrow> 's system \<Rightarrow> 's system" where
  "put_work w pc s c = c\<lparr>sy_store := s, sy_work := (sy_work c)(w := pc)\<rparr>"

lemma put_work_simps [simp]:
  "sy_store (put_work w pc s c) = s" "sy_work (put_work w pc s c) w = pc"
  "put_work w pc' s' (put_work w pc s c) = put_work w pc' s' c"
  by (simp_all add: put_work_def)

lemma finish_path:
  assumes "sy_work c w = WAt off j jt (Finish st)"
  shows "sys_steps ops lookup c (put_work w (WAt off j jt Done) (snd (op_finish ops st t j (sy_store c))) c)"
  unfolding put_work_def
  by (rule sys_steps.more [OF sys_steps.none sys_step.finish [OF assms, of ops t "fst (op_finish ops st t j (sy_store c))"]]) simp

lemma run_path:
  assumes "sy_work c w = WAt off j jt (Resolved p)"
  shows "sys_steps ops lookup c (put_work w (WAt off j jt Done) (snd (op_finish ops (after_run lookup jt p) t j
    (store_after_run ops lookup j jt p (sy_store c)))) c)"
proof -
  let ?c = "put_work w (WAt off j jt (Finish (after_run lookup jt p))) (store_after_run ops lookup j jt p (sy_store c)) c"
  have "sys_step ops lookup c None ?c" unfolding put_work_def by (rule sys_step.run [OF assms])
  from sys_steps_first [OF this finish_path [of ?c w off j jt "after_run lookup jt p" ops lookup t]]
  show ?thesis by simp
qed

lemma resolved_path:
  assumes "sy_work c w = WAt off j jt Claimed" "op_resolve_payload ops t j jt (sy_store c) = (v, s2)"
  shows "sys_steps ops lookup c (put_work w (WAt off j jt Done) (case v of
      None \<Rightarrow> snd (op_finish ops FAILED t' j s2)
    | Some p \<Rightarrow> snd (op_finish ops (after_run lookup jt p) t' j (store_after_run ops lookup j jt p s2))) c)"
proof -
  let ?st = "case v of None \<Rightarrow> Finish FAILED | Some p \<Rightarrow> Resolved p"
  let ?c = "put_work w (WAt off j jt ?st) s2 c"
  have step: "sys_step ops lookup c None ?c" unfolding put_work_def by (rule sys_step.resolve [OF assms])
  show ?thesis
  proof (cases v)
    case None
    with sys_steps_first [OF step finish_path [of ?c w off j jt FAILED ops lookup t']] show ?thesis by simp
  next
    case (Some p)
    with sys_steps_first [OF step run_path [of ?c w off j jt p ops lookup t']] show ?thesis by simp
  qed
qed

lemma process_path:
  assumes "sy_work c w = WAt off j jt Got" "process (store_calls cv ops) lookup clk (build_envelope j jt) (sy_store c) = (r, s')"
  shows "\<exists>c'. sys_steps ops lookup c c' \<and> sy_store c' = s' \<and> sy_work c' w = WAt off j jt Done \<and> same_but_work w c c'"
proof (cases "op_claim ops (clk 0) j (sy_store c)")
  case (Pair won s1)
  show ?thesis
  proof (cases won)
    case False
    with Pair assms have "sys_step ops lookup c None (put_work w (WAt off j jt Done) s' c)"
      unfolding put_work_def by (intro sys_step.claim_lost) (auto simp: process_build)
    then show ?thesis
      by (intro exI [of _ "put_work w (WAt off j jt Done) s' c"])
        (auto simp: same_but_work_def put_work_def intro: sys_steps.more sys_steps.none)
  next
    case True
    let ?c = "(put_work w (WAt off j jt Claimed) s1 c)\<lparr>sy_claims := (sy_claims c)(j := Suc (sy_claims c j))\<rparr>"
    obtain v s2 where v: "op_resolve_payload ops (clk 1) j jt s1 = (v, s2)" by fastforce
    let ?s = "case v of None \<Rightarrow> snd (op_finish ops FAILED (clk 2) j s2)
      | Some p \<Rightarrow> snd (op_finish ops (after_run lookup jt p) (clk 2) j (store_after_run ops lookup j jt p s2))"
    have "sys_step ops lookup c None ?c"
      unfolding put_work_def using Pair True assms(1) by (simp add: sys_step.claim_won)
    moreover have "sys_steps ops lookup ?c (put_work w (WAt off j jt Done) ?s ?c)"
      by (rule resolved_path [where t = "clk 1"]) (simp_all add: put_work_def v [simplified])
    moreover have "s' = ?s" using assms(2) Pair True v
      by (auto simp: process_build Let_def op_finish_def after_run_def store_after_run_def split: option.splits)
    ultimately show ?thesis
      by (intro exI [of _ "put_work w (WAt off j jt Done) ?s ?c"])
        (auto simp: same_but_work_def put_work_def intro: sys_steps_first)
  qed
qed

text \<open>A dispatcher's round: the producer's log is the topic.\<close>

definition topic_publish :: "payload list publisher" where
  "topic_publish topic key message log = (None, log @ [message])"

lemma topic_publish_all: "publish_all topic_publish topic ms log = (None, length ms, log @ map om_payload ms)"
  by (induction ms arbitrary: log) (simp_all add: topic_publish_def)

lemma dispatch_messages_path:
  assumes "sy_disp c d = DBatch ms"
    and "dispatch_messages ops topic_publish topic clk ms (sy_store c) (sy_log c) = (e, s', log')"
  shows "sys_steps ops lookup c (c\<lparr>sy_store := s', sy_log := log', sy_disp := (sy_disp c)(d := DBatch [])\<rparr>)"
  using assms
proof (induction ms arbitrary: c clk)
  case Nil
  then have same: "c\<lparr>sy_store := s', sy_log := log', sy_disp := (sy_disp c)(d := DBatch [])\<rparr> = c"
    by (simp add: fun_upd_idem)
  show ?case unfolding same by (rule sys_steps.none)
next
  case (Cons m ms)
  let ?c1 = "c\<lparr>sy_log := sy_log c @ [om_payload m], sy_disp := (sy_disp c)(d := DPublished m ms)\<rparr>"
  let ?c2 = "?c1\<lparr>sy_store := op_mark_dispatched ops (clk 0) (om_id m) (om_job_id m) (sy_store c),
     sy_disp := (sy_disp ?c1)(d := DBatch ms)\<rparr>"
  have s1: "sys_step ops lookup c None ?c1" by (rule sys_step.publish [OF Cons.prems(1)])
  have "sys_step ops lookup ?c1 None (?c1\<lparr>sy_store := op_mark_dispatched ops (clk 0) (om_id m) (om_job_id m) (sy_store ?c1),
     sy_disp := (sy_disp ?c1)(d := DBatch ms)\<rparr>)" by (rule sys_step.mark) simp
  then have s2: "sys_step ops lookup ?c1 None ?c2" by simp
  have path: "sys_steps ops lookup ?c2 (?c2\<lparr>sy_store := s', sy_log := log', sy_disp := (sy_disp ?c2)(d := DBatch [])\<rparr>)"
    by (rule Cons.IH) (use Cons.prems(2) in \<open>simp_all add: topic_publish_def Let_def\<close>)
  have eq: "?c2\<lparr>sy_store := s', sy_log := log', sy_disp := (sy_disp ?c2)(d := DBatch [])\<rparr> =
      c\<lparr>sy_store := s', sy_log := log', sy_disp := (sy_disp c)(d := DBatch [])\<rparr>" by (cases c) auto
  from sys_steps_first [OF s1 sys_steps_first [OF s2 path]] show ?case unfolding eq .
qed

lemma dispatch_once_path:
  assumes "sy_disp c d = DIdle" "0 \<le> n"
    and "dispatch_once ops topic_publish topic n clk (sy_store c) (sy_log c) = (sent, s', log')"
  shows "sys_steps ops lookup c (c\<lparr>sy_store := s', sy_log := log'\<rparr>)"
proof (cases "op_fetch_unpublished ops n (sy_store c)")
  case (Inl e)
  with assms(3) have "s' = sy_store c" "log' = sy_log c" by (simp_all add: dispatch_once_def)
  then show ?thesis by (simp add: sys_steps.none)
next
  case (Inr batch)
  let ?c1 = "c\<lparr>sy_disp := (sy_disp c)(d := DBatch batch)\<rparr>"
  let ?c2 = "?c1\<lparr>sy_store := s', sy_log := log', sy_disp := (sy_disp ?c1)(d := DBatch [])\<rparr>"
  let ?c3 = "?c2\<lparr>sy_disp := (sy_disp ?c2)(d := DIdle)\<rparr>"
  have "sys_step ops lookup c None ?c1" by (rule fetch_unlocked [OF assms(1,2) Inr])
  moreover have "sys_steps ops lookup ?c1 ?c2"
  proof -
    obtain e where "dispatch_messages ops topic_publish topic clk batch
        (sy_store ?c1) (sy_log ?c1) = (e, s', log')"
      using assms(3) by (auto simp: dispatch_once_def Inr Let_def split: prod.splits)
    then show ?thesis by (rule dispatch_messages_path [rotated]) simp
  qed
  moreover have "sys_step ops lookup ?c2 None ?c3" by (rule sys_step.round_over) simp
  ultimately have "sys_steps ops lookup c ?c3" by (blast intro: sys_steps_first sys_steps.more)
  moreover have "(sy_disp c)(d := DIdle) = sy_disp c" using assms(1) by (simp add: fun_upd_idem)
  ultimately show ?thesis by (cases c) simp
qed

text \<open>A reaper's sweep.\<close>

lemma reap_all_path:
  assumes "sy_reap c r = RSweep xs" "reap_all ops clk xs st (sy_store c) = (st', s')"
  shows "sys_steps ops lookup c (c\<lparr>sy_store := s', sy_reap := (sy_reap c)(r := RSweep [])\<rparr>)"
  using assms
proof (induction xs arbitrary: c clk st)
  case Nil
  then have same: "c\<lparr>sy_store := s', sy_reap := (sy_reap c)(r := RSweep [])\<rparr> = c" by (simp add: fun_upd_idem)
  show ?case unfolding same by (rule sys_steps.none)
next
  case (Cons x xs)
  obtain ok s1 where ok: "op_requeue_stuck ops (clk 0) (sj_job_id x) (sy_store c) = (ok, s1)" by fastforce
  let ?c1 = "c\<lparr>sy_store := s1, sy_reap := (sy_reap c)(r := if ok then RSweep xs else RDead x xs)\<rparr>"
  have s1: "sys_step ops lookup c (Some (sj_job_id x)) ?c1" by (rule sys_step.requeue [OF Cons.prems(1) ok])
  show ?case
  proof (cases ok)
    case True
    have path: "sys_steps ops lookup ?c1 (?c1\<lparr>sy_store := s', sy_reap := (sy_reap ?c1)(r := RSweep [])\<rparr>)"
      by (rule Cons.IH) (use Cons.prems(2) ok True in simp_all)
    have eq: "?c1\<lparr>sy_store := s', sy_reap := (sy_reap ?c1)(r := RSweep [])\<rparr> =
      c\<lparr>sy_store := s', sy_reap := (sy_reap c)(r := RSweep [])\<rparr>" by (cases c) auto
    from sys_steps_first [OF s1 path] show ?thesis unfolding eq .
  next
    case False
    obtain dead s2 where dead: "op_dead_letter ops (clk 1) (sj_job_id x) s1 = (dead, s2)" by fastforce
    let ?c2 = "?c1\<lparr>sy_store := s2, sy_reap := (sy_reap ?c1)(r := RSweep xs)\<rparr>"
    have s2: "sys_step ops lookup ?c1 None ?c2"
      by (rule sys_step.dead_letter [where t = "clk 1" and ok = dead]) (use dead False in simp_all)
    have path: "sys_steps ops lookup ?c2 (?c2\<lparr>sy_store := s', sy_reap := (sy_reap ?c2)(r := RSweep [])\<rparr>)"
      by (rule Cons.IH) (use Cons.prems(2) ok False dead in simp_all)
    have eq: "?c2\<lparr>sy_store := s', sy_reap := (sy_reap ?c2)(r := RSweep [])\<rparr> =
      c\<lparr>sy_store := s', sy_reap := (sy_reap c)(r := RSweep [])\<rparr>" by (cases c) auto
    from sys_steps_first [OF s1 sys_steps_first [OF s2 path]] show ?thesis unfolding eq .
  qed
qed

lemma reap_once_path:
  assumes "sy_reap c r = RIdle" "reap_once ops clk (sy_store c) = (st, s')"
  shows "sys_steps ops lookup c (c\<lparr>sy_store := s'\<rparr>)"
proof -
  let ?c1 = "c\<lparr>sy_reap := (sy_reap c)(r := RSweep (op_find_stuck ops (clk 0) (sy_store c)))\<rparr>"
  let ?c2 = "?c1\<lparr>sy_store := s', sy_reap := (sy_reap ?c1)(r := RSweep [])\<rparr>"
  let ?c3 = "?c2\<lparr>sy_reap := (sy_reap ?c2)(r := RIdle)\<rparr>"
  have "sys_step ops lookup c None ?c1" by (rule sys_step.sweep [OF assms(1)])
  moreover have "sys_steps ops lookup ?c1 ?c2"
    by (rule reap_all_path [where clk = "clk \<circ> Suc" and st' = st]) (use assms(2) in \<open>simp_all add: reap_once_def\<close>)
  moreover have "sys_step ops lookup ?c2 None ?c3" by (rule sys_step.sweep_over) simp
  ultimately have "sys_steps ops lookup c ?c3" by (blast intro: sys_steps_first sys_steps.more)
  moreover have "(sy_reap c)(r := RIdle) = sy_reap c" using assms(1) by (simp add: fun_upd_idem)
  ultimately show ?thesis by (cases c) simp
qed

end
