(* ===== verification/Progress.thy ===== *)
theory Progress
  imports Schedules
begin

text \<open>
  Progress: from which states a job can still be finished. Each lemma builds a run of the step relation out of the
  service functions of one component, after a restart of that component: a worker with a message of the job, a
  dispatcher before it, a reaper before both.
\<close>

definition can_finish :: "'s store_ops \<Rightarrow> lookup \<Rightarrow> ('s \<Rightarrow> astate) \<Rightarrow> 's system \<Rightarrow> int \<Rightarrow> bool" where
  "can_finish ops lookup ab c j \<longleftrightarrow>
     (\<exists>c' b. sys_steps ops lookup c c' \<and> a_jobs (ab (sy_store c')) j = Some b \<and> terminal_job b)"

lemma can_finish_later:
  "sys_steps ops lookup c c' \<Longrightarrow> can_finish ops lookup ab c' j \<Longrightarrow> can_finish ops lookup ab c j"
  unfolding can_finish_def by (metis sys_steps_trans)

lemma can_finish_step: "sys_step ops lookup c l c' \<Longrightarrow> can_finish ops lookup ab c' j \<Longrightarrow> can_finish ops lookup ab c j"
  by (rule can_finish_later [OF sys_steps.more [OF sys_steps.none]])

lemma finished_can_finish: "a_jobs (ab (sy_store c)) j = Some b \<Longrightarrow> terminal_job b \<Longrightarrow> can_finish ops lookup ab c j"
  unfolding can_finish_def by (intro exI conjI) (rule sys_steps.none)

context job_store
begin

lemma message_can_finish:
  assumes "inv (sy_store c)" "off < length (sy_log c)" "off \<notin> sy_committed c"
    and "sy_log c ! off = build_envelope j (j_job_type b)"
    and "a_jobs (abs (sy_store c)) j = Some b" "j_status b \<in> {QUEUED, DISPATCHED}"
  shows "can_finish ops lookup abs c j"
proof -
  let ?jt = "j_job_type b"
  let ?c1 = "c\<lparr>sy_work := (sy_work c)(0 := WIdle)\<rparr>"
  let ?c2 = "?c1\<lparr>sy_work := (sy_work ?c1)(0 := WAt off j ?jt Got)\<rparr>"
  have s1: "sys_step ops lookup c None ?c1" by (rule sys_step.work_crash)
  have s2: "sys_step ops lookup ?c1 None ?c2" by (rule sys_step.receive) (use assms(2-4) in simp_all)
  obtain r s' where run: "process (store_calls cv ops) lookup (\<lambda>_. 0) (build_envelope j ?jt) (sy_store ?c2) = (r, s')" by fastforce
  have "sy_work ?c2 0 = WAt off j ?jt Got" by simp
  from process_path [OF this run] obtain c' where c': "sys_steps ops lookup ?c2 c'" "sy_store c' = s'" by blast
  have "\<exists>b'. a_jobs (abs s') j = Some b' \<and> terminal_job b'"
    using process_claimed [of "sy_store c" j b] assms run run_outcome_terminal [of lookup "a_config (abs (sy_store c))" b]
    by fastforce
  with c' have "can_finish ops lookup abs ?c2 j" unfolding can_finish_def by blast
  then show ?thesis by (rule can_finish_step [OF s1 can_finish_step [OF s2]])
qed

lemma queued_can_finish:
  assumes "inv (sy_store c)" "\<forall>off \<in> sy_committed c. off < length (sy_log c)"
    and "a_jobs (abs (sy_store c)) j = Some b" "j_status b = QUEUED"
  shows "can_finish ops lookup abs c j"
proof -
  let ?pend = "a_pending (abs (sy_store c))"
  let ?c1 = "c\<lparr>sy_disp := (sy_disp c)(0 := DIdle)\<rparr>"
  have s1: "sys_step ops lookup c None ?c1" by (rule sys_step.disp_crash)
  obtain sent s' log where run: "dispatch_once ops topic_publish [] (int (length ?pend)) (\<lambda>_. 0) (sy_store ?c1) (sy_log ?c1) = (sent, s', log)"
    by (metis prod_cases3)
  let ?c2 = "?c1\<lparr>sy_store := s', sy_log := log\<rparr>"
  have path: "sys_steps ops lookup ?c1 ?c2" by (rule dispatch_once_path [where d = 0, OF _ _ run]) simp_all
  have inv1: "inv (sy_store ?c1)" using assms(1) by simp
  note spec = dispatch_once_spec [OF inv1 _ run topic_publish_all, simplified]
  obtain m where m: "m \<in> set ?pend" "om_job_id m = j" "om_payload m = build_envelope j (j_job_type b)"
    using a_wf_queued_pending [OF inv_wf [OF assms(1)] assms(3,4)] by blast
  from spec(8) [OF m(1)] obtain b' where b': "a_jobs (abs s') j = Some b'" "dispatched_as b b'"
    using m(2) assms(3) by auto
  from m(1) obtain i where i: "i < length ?pend" "?pend ! i = m" by (metis in_set_conv_nth)
  have log: "log = sy_log c @ map om_payload ?pend" using spec(4) by simp
  have "can_finish ops lookup abs ?c2 j"
  proof (rule message_can_finish [where off = "length (sy_log c) + i" and b = b'])
    show "length (sy_log c) + i \<notin> sy_committed ?c2" using assms(2) by auto
    show "sy_log ?c2 ! (length (sy_log c) + i) = build_envelope j (j_job_type b')"
      using i m(3) b'(2) by (auto simp: log nth_append dispatched_as_def)
    show "j_status b' \<in> {QUEUED, DISPATCHED}" using b'(2) assms(4) by (auto simp: dispatched_as_def)
  qed (use spec(2) i b'(1) in \<open>simp_all add: log\<close>)
  then show ?thesis by (rule can_finish_step [OF s1 can_finish_later [OF path]])
qed

lemma running_can_finish:
  assumes "inv (sy_store c)" "\<forall>off \<in> sy_committed c. off < length (sy_log c)"
    and "a_jobs (abs (sy_store c)) j = Some b" "j_status b = RUNNING"
  shows "can_finish ops lookup abs c j"
proof -
  let ?a = "abs (sy_store c)"
  let ?t = "j_updated_at b + timeout_of (a_config ?a) (j_job_type b) + 1"
  let ?c1 = "c\<lparr>sy_reap := (sy_reap c)(0 := RIdle)\<rparr>"
  have s1: "sys_step ops lookup c None ?c1" by (rule sys_step.reap_crash)
  obtain st s' where run: "reap_once ops (\<lambda>_. ?t) (sy_store ?c1) = (st, s')" by fastforce
  have path: "sys_steps ops lookup ?c1 (?c1\<lparr>sy_store := s'\<rparr>)" by (rule reap_once_path [where r = 0, OF _ run]) simp
  have inv1: "inv (sy_store ?c1)" using assms(1) by simp
  note spec = reap_once_spec [OF inv1 run]
  have "j \<in> a_stuck ?t ?a" using assms(3,4) by (simp add: a_stuck_def)
  with spec(2) assms(3) obtain t where "a_jobs (abs s') j = Some (reaped_row (a_config ?a) t b)"
    by (auto simp: swept_def)
  moreover have "can_finish ops lookup abs (?c1\<lparr>sy_store := s'\<rparr>) j"
  proof (cases "j_attempts b < max_attempts_of (a_config ?a) (j_job_type b)")
    case True
    with calculation spec(1) assms(2) show ?thesis
      by (intro queued_can_finish [where b = "reaped_row (a_config ?a) t b"]) (simp_all add: reaped_row_def)
  next
    case False
    with calculation have "terminal_job (reaped_row (a_config ?a) t b)" by (simp add: reaped_row_def)
    with calculation show ?thesis by (intro finished_can_finish) simp_all
  qed
  ultimately show ?thesis by (blast intro: can_finish_step [OF s1 can_finish_later [OF path]])
qed

end

end
