(* ===== verification/Http.thy ===== *)
theory Http
  imports Settings
begin

text \<open>
  The HTTP layer below the routes, for both services: requests and responses, the errors and their
  problem documents (\<open>handlerAPI/errors.py\<close>, \<open>handlerAPIv2/errors.py\<close>), the middleware that adds
  the security headers and the request id (\<open>middleware.py\<close>), and the rate limiter
  (\<open>handlerAPI/ratelimit.py\<close>).

  An application is a function of the request and of a state of any type; it returns a response or
  raises. The exceptions that leave it are the type \<open>api_exn\<close>. Starlette calls the handler that is
  registered for \<open>Exception\<close> in its outermost layer, around all middleware, and the other handlers
  in its innermost one, around the routes: these are \<open>server_error\<close> and \<open>exception_middleware\<close>.

  The names of request headers are in lower case (ASGI delivers them so). Of a response the model
  keeps the status, the decoded body and the headers in their order, less \<open>content-length\<close>.
\<close>

section \<open>Requests and responses\<close>

type_synonym headers = "(string \<times> string) list"

text \<open>
  What the framework makes of the body before a route is called: nothing, a body that is not
  announced as JSON, one that does not decode (with the text of the error), or a decoded value.
\<close>

datatype body = No_Body | Raw_Body | Bad_Json string | Json json

record request =
  rq_method :: string
  rq_path :: string
  rq_headers :: headers
  rq_client :: "string option"
  rq_body :: body

record response =
  rs_status :: int
  rs_headers :: headers
  rs_body :: json

text \<open>\<open>request.headers.get(k, d)\<close> takes the first header of the name, \<open>dict(headers).get(k, d)\<close> the last one.\<close>

definition get_header :: "headers \<Rightarrow> string \<Rightarrow> string \<Rightarrow> string" where
  "get_header hs k d = (case map_of hs k of None \<Rightarrow> d | Some v \<Rightarrow> v)"

definition last_header :: "headers \<Rightarrow> string \<Rightarrow> string \<Rightarrow> string" where
  "last_header hs k d = (case map_of (rev hs) k of None \<Rightarrow> d | Some v \<Rightarrow> v)"

text \<open>A response names its headers in lower case; the content type comes after the headers that are given.\<close>

definition json_response :: "int \<Rightarrow> json \<Rightarrow> string \<Rightarrow> headers \<Rightarrow> response" where
  "json_response status content media hs = \<lparr>rs_status = status,
     rs_headers = map (apfst py_lower) hs @
       (if ''content-type'' \<in> set (map (py_lower \<circ> fst) hs) then [] else [(''content-type'', media)]),
     rs_body = content\<rparr>"

section \<open>Problem documents\<close>

text \<open>
  \<open>Problem\<close> is the \<open>ProblemException\<close> of the services, \<open>Http_Exception\<close> Starlette's own, \<open>Circuit_Open\<close> the error of an
  open circuit breaker, \<open>Validation_Error\<close> a rejected request with the text of its errors, \<open>Unexpected\<close> every other
  exception. \<open>Untyped\<close> is no exception: it marks a token whose client id is no string, which the services pass on
  outside their declared types; what follows then is outside the model.
\<close>

datatype api_exn =
    Problem int string "string option" headers
  | Http_Exception int "string option" headers
  | Circuit_Open
  | Validation_Error string
  | Unexpected exn
  | Untyped json

type_synonym 'w asgi = "request \<Rightarrow> 'w \<Rightarrow> (api_exn + response) \<times> 'w"

definition PROBLEM_MEDIA_TYPE :: string where
  "PROBLEM_MEDIA_TYPE = ''application/problem+json''"

definition problem :: "int \<Rightarrow> string \<Rightarrow> string option \<Rightarrow> string \<Rightarrow> headers \<Rightarrow> response" where
  "problem status_code title detail path hs =
     (let body = fmap_of_list [(''type'', JStr ''about:blank''), (''title'', JStr title),
            (''status'', JInt status_code), (''instance'', JStr path)];
          body' = (case detail of None \<Rightarrow> body
            | Some d \<Rightarrow> if d = [] then body else fmupd ''detail'' (JStr d) body)
      in json_response status_code (JObj body') PROBLEM_MEDIA_TYPE hs)"

text \<open>The handlers of the first service and of the second one; an exception without a handler stays one.\<close>

definition handle_v1 :: "string \<Rightarrow> api_exn \<Rightarrow> api_exn + response" where
  "handle_v1 path e = (case e of
      Problem status title detail hs \<Rightarrow> Inr (problem status title detail path hs)
    | Http_Exception status detail hs \<Rightarrow> Inr (problem status ''HTTP error'' detail path hs)
    | Validation_Error errors \<Rightarrow> Inr (problem 422 ''Request validation failed'' (Some errors) path [])
    | _ \<Rightarrow> Inl e)"

definition problem_v2 :: "int \<Rightarrow> string \<Rightarrow> string option \<Rightarrow> string \<Rightarrow> headers \<Rightarrow> response" where
  "problem_v2 status_code title detail path hs =
     (let body = fmap_of_list [(''type'', JStr ''about:blank''), (''title'', JStr title),
            (''status'', JInt status_code), (''instance'', JStr path)];
          body' = (case detail of None \<Rightarrow> body
            | Some d \<Rightarrow> if d = [] then body else fmupd ''detail'' (JStr d) body)
      in json_response status_code (JObj body') ''application/problem+json'' hs)"

definition handle_v2 :: "string \<Rightarrow> api_exn \<Rightarrow> api_exn + response" where
  "handle_v2 path e = (case e of
      Problem status title detail hs \<Rightarrow> Inr (problem_v2 status title detail path hs)
    | Http_Exception status detail hs \<Rightarrow> Inr (problem_v2 status ''HTTP error'' detail path hs)
    | Circuit_Open \<Rightarrow> Inr (problem_v2 503 ''Service Unavailable'' (Some ''datastore temporarily unavailable'') path
        [(''Retry-After'', ''30'')])
    | Validation_Error errors \<Rightarrow> Inr (problem_v2 422 ''Request validation failed'' (Some errors) path [])
    | _ \<Rightarrow> Inl e)"

definition handle_unexpected :: "string \<Rightarrow> api_exn \<Rightarrow> api_exn + response" where
  "handle_unexpected path e = (case e of
      Untyped v \<Rightarrow> Inl (Untyped v)
    | _ \<Rightarrow> Inr (problem 500 ''Internal server error'' None path []))"

definition exception_middleware :: "(string \<Rightarrow> api_exn \<Rightarrow> api_exn + response) \<Rightarrow> 'w asgi \<Rightarrow> 'w asgi" where
  "exception_middleware handle app rq w = (case app rq w of
      (Inl e, w') \<Rightarrow> (handle (rq_path rq) e, w')
    | (Inr r, w') \<Rightarrow> (Inr r, w'))"

definition server_error :: "'w asgi \<Rightarrow> 'w asgi" where
  "server_error = exception_middleware handle_unexpected"

definition handle_unexpected_v2 :: "string \<Rightarrow> api_exn \<Rightarrow> api_exn + response" where
  "handle_unexpected_v2 path e = (case e of
      Untyped v \<Rightarrow> Inl (Untyped v)
    | _ \<Rightarrow> Inr (problem_v2 500 ''Internal server error'' None path []))"

definition server_error_v2 :: "'w asgi \<Rightarrow> 'w asgi" where
  "server_error_v2 = exception_middleware handle_unexpected_v2"

section \<open>Security headers and request ids\<close>

definition SECURITY_HEADERS :: headers where
  "SECURITY_HEADERS = [(''x-content-type-options'', ''nosniff''), (''x-frame-options'', ''DENY''),
     (''referrer-policy'', ''no-referrer''),
     (''content-security-policy'', ''default-src '' @ [char_of (39 :: nat)] @ ''none'' @ [char_of (39 :: nat)] @
        ''; frame-ancestors '' @ [char_of (39 :: nat)] @ ''none'' @ [char_of (39 :: nat)]),
     (''strict-transport-security'', ''max-age=63072000; includeSubDomains'')]"

definition REQUEST_ID_HEADER :: string where
  "REQUEST_ID_HEADER = ''x-request-id''"

text \<open>What \<open>send_wrapper\<close> does to the start of a response.\<close>

definition send_wrapper :: "string \<Rightarrow> response \<Rightarrow> response" where
  "send_wrapper request_id r =
     (let existing = set (map (py_lower \<circ> fst) (rs_headers r))
      in r\<lparr>rs_headers := rs_headers r @ filter (\<lambda>(k, _). k \<notin> existing) SECURITY_HEADERS @
            [(REQUEST_ID_HEADER, request_id)]\<rparr>)"

text \<open>\<open>fresh\<close> is the hexadecimal form of the random UUID that the middleware draws for each request.\<close>

definition security_middleware :: "string \<Rightarrow> 'w asgi \<Rightarrow> 'w asgi" where
  "security_middleware fresh app rq w =
     (let request_id = last_header (rq_headers rq) REQUEST_ID_HEADER fresh;
          (res, w') = app rq w
      in (map_sum id (send_wrapper request_id) res, w'))"

text \<open>The second service has the same module once more.\<close>

definition SECURITY_HEADERS_v2 :: headers where
  "SECURITY_HEADERS_v2 = [(''x-content-type-options'', ''nosniff''), (''x-frame-options'', ''DENY''),
     (''referrer-policy'', ''no-referrer''),
     (''content-security-policy'', ''default-src '' @ [char_of (39 :: nat)] @ ''none'' @ [char_of (39 :: nat)] @
        ''; frame-ancestors '' @ [char_of (39 :: nat)] @ ''none'' @ [char_of (39 :: nat)]),
     (''strict-transport-security'', ''max-age=63072000; includeSubDomains'')]"

definition send_wrapper_v2 :: "string \<Rightarrow> response \<Rightarrow> response" where
  "send_wrapper_v2 request_id r =
     (let existing = set (map (py_lower \<circ> fst) (rs_headers r))
      in r\<lparr>rs_headers := rs_headers r @ filter (\<lambda>(k, _). k \<notin> existing) SECURITY_HEADERS_v2 @
            [(''x-request-id'', request_id)]\<rparr>)"

definition security_middleware_v2 :: "string \<Rightarrow> 'w asgi \<Rightarrow> 'w asgi" where
  "security_middleware_v2 fresh app rq w =
     (let request_id = last_header (rq_headers rq) ''x-request-id'' fresh;
          (res, w') = app rq w
      in (map_sum id (send_wrapper_v2 request_id) res, w'))"

section \<open>Rate limiting\<close>

text \<open>
  The bearer token of an \<open>Authorization\<close> header, as the limiter and the routes both read it: the
  scheme up to the first space in any case, the rest stripped and not empty.
\<close>

definition bearer_token :: "headers \<Rightarrow> string option" where
  "bearer_token hs =
     (let (scheme, token) = py_partition CHR '' '' (get_header hs ''authorization'' [])
      in if py_lower scheme \<noteq> ''bearer'' \<or> py_strip token = [] then None else Some (py_strip token))"

text \<open>\<open>sha\<close> gives the hexadecimal digits of the SHA-256 digest of a token.\<close>

definition limit_key :: "(string \<Rightarrow> string) \<Rightarrow> request \<Rightarrow> string" where
  "limit_key sha rq = (case bearer_token (rq_headers rq) of
      Some token \<Rightarrow> ''tok:'' @ take 32 (sha token)
    | None \<Rightarrow> (case rq_client rq of Some host \<Rightarrow> host | None \<Rightarrow> ''anonymous''))"

text \<open>
  The limiter is the package \<open>limits\<close>: \<open>hit\<close> counts a request of a key and says whether it is within the
  limit, acting on a component of the state through \<open>put\<close>; \<open>item\<close> is the parsed limit as it prints.
\<close>

definition rate_limit_middleware ::
  "bool \<Rightarrow> string \<Rightarrow> (string \<Rightarrow> 'w \<Rightarrow> bool \<times> 'w) \<Rightarrow> (string \<Rightarrow> string) \<Rightarrow> 'w asgi \<Rightarrow> 'w asgi" where
  "rate_limit_middleware enabled item hit sha app rq w =
     (if \<not> enabled then app rq w
      else let (ok, w') = hit (limit_key sha rq) w
        in if \<not> ok then (Inr (json_response 429 (JObj (fmap_of_list
              [(''type'', JStr ''about:blank''), (''title'', JStr ''Too Many Requests''), (''status'', JInt 429),
               (''detail'', JStr (''rate limit exceeded: '' @ item)), (''instance'', JStr (rq_path rq))]))
              PROBLEM_MEDIA_TYPE []), w')
           else app rq w')"

section \<open>The second copy\<close>

text \<open>What \<open>handlerAPIv2\<close> repeats of \<open>handlerAPI\<close> has not drifted from it: each copy is the same function.\<close>

lemma http_copies [simp]:
  "problem_v2 = problem" "handle_unexpected_v2 = handle_unexpected" "server_error_v2 = (server_error :: 'w asgi \<Rightarrow> 'w asgi)"
  "SECURITY_HEADERS_v2 = SECURITY_HEADERS" "send_wrapper_v2 = send_wrapper"
  "security_middleware_v2 = (security_middleware :: string \<Rightarrow> 'w asgi \<Rightarrow> 'w asgi)"
proof -
  show problem: "problem_v2 = problem" unfolding fun_eq_iff problem_v2_def problem_def PROBLEM_MEDIA_TYPE_def by simp
  show unexpected: "handle_unexpected_v2 = handle_unexpected"
    unfolding fun_eq_iff handle_unexpected_v2_def handle_unexpected_def problem by simp
  show "server_error_v2 = (server_error :: 'w asgi \<Rightarrow> 'w asgi)" by (simp add: server_error_v2_def server_error_def unexpected)
  show headers: "SECURITY_HEADERS_v2 = SECURITY_HEADERS" by (simp add: SECURITY_HEADERS_v2_def SECURITY_HEADERS_def)
  show wrapper: "send_wrapper_v2 = send_wrapper"
    unfolding fun_eq_iff send_wrapper_v2_def send_wrapper_def headers REQUEST_ID_HEADER_def by simp
  show "security_middleware_v2 = (security_middleware :: string \<Rightarrow> 'w asgi \<Rightarrow> 'w asgi)"
    unfolding fun_eq_iff security_middleware_v2_def security_middleware_def wrapper REQUEST_ID_HEADER_def by simp
qed

section \<open>Problem responses\<close>

text \<open>A response in the form of RFC 7807: the media type, and a body that repeats the status and names the path.\<close>

definition is_problem :: "string \<Rightarrow> response \<Rightarrow> bool" where
  "is_problem path r \<longleftrightarrow> (''content-type'', PROBLEM_MEDIA_TYPE) \<in> set (rs_headers r) \<and>
     (\<exists>d. rs_body r = JObj d \<and> fmlookup d ''type'' = Some (JStr ''about:blank'') \<and>
        fmlookup d ''status'' = Some (JInt (rs_status r)) \<and> fmlookup d ''instance'' = Some (JStr path) \<and>
        (\<exists>title. fmlookup d ''title'' = Some (JStr title)) \<and>
        fset (fmdom d) \<subseteq> {''type'', ''title'', ''status'', ''instance'', ''detail''})"

text \<open>The detail of a problem document, \<open>None\<close> when it has none.\<close>

definition detail_of :: "response \<Rightarrow> string option" where
  "detail_of r = (case rs_body r of JObj d \<Rightarrow>
       (case fmlookup d ''detail'' of Some (JStr s) \<Rightarrow> Some s | _ \<Rightarrow> None) | _ \<Rightarrow> None)"

lemma problem_status [simp]: "rs_status (problem st title detail path hs) = st"
  by (simp add: problem_def json_response_def Let_def)

lemma problem_headers:
  "rs_headers (problem st title detail path hs) = map (apfst py_lower) hs @
     (if ''content-type'' \<in> set (map (py_lower \<circ> fst) hs) then [] else [(''content-type'', PROBLEM_MEDIA_TYPE)])"
  by (simp add: problem_def json_response_def Let_def)

lemma problem_is_problem:
  assumes "''content-type'' \<notin> set (map (py_lower \<circ> fst) hs)"
  shows "is_problem path (problem st title detail path hs)"
  using assms unfolding is_problem_def
  by (cases detail)
     (auto simp: problem_def json_response_def Let_def fmlookup_of_list fmdom_fmap_of_list fset_of_list_elem)

lemma problem_detail:
  "detail_of (problem st title detail path hs) = (if detail = Some [] then None else detail)"
  by (cases detail)
     (auto simp: detail_of_def problem_def json_response_def Let_def fmlookup_of_list)

lemma send_wrapper_simps [simp]:
  "rs_status (send_wrapper i r) = rs_status r" "rs_body (send_wrapper i r) = rs_body r"
  by (simp_all add: send_wrapper_def Let_def)

lemma send_wrapper_keeps: "h \<in> set (rs_headers r) \<Longrightarrow> h \<in> set (rs_headers (send_wrapper i r))"
  by (simp add: send_wrapper_def Let_def)

lemma send_wrapper_is_problem: "is_problem path r \<Longrightarrow> is_problem path (send_wrapper i r)"
  unfolding is_problem_def by (auto intro: send_wrapper_keeps)

lemma send_wrapper_detail [simp]: "detail_of (send_wrapper i r) = detail_of r"
  by (simp add: detail_of_def)

end
