(* ===== verification/Auth.thy ===== *)
theory Auth
  imports Http Models
begin

text \<open>
  Authentication (\<open>handlerAPI/auth.py\<close>, \<open>handlerAPIv2/auth.py\<close>) and the authenticated caller (\<open>principal.py\<close>): the cache
  of the issuer's signing keys, the verification of a token, and the reading of its claims.

  The key cache and the verification are the same code in both services, modelled twice and proved equal;
  what the services make of the claims differs. The HTTP client and PyJWT are not part of the
  repository: they are the record \<open>idp\<close>, whose operations act on a network state of any type.

  The critical section of \<open>get_key\<close> is guarded by a lock and is one step of the model.
\<close>

section \<open>The caller\<close>

text \<open>The principal of the second service, which the first one extends by the kind of caller and its groups.\<close>

record principal =
  pr_subject :: string
  pr_client_id :: "string option"
  pr_scopes :: "string set"

record principal_v1 = principal +
  pr_type :: string
  pr_groups :: "json list"

definition is_service :: "principal_v1 \<Rightarrow> bool" where
  "is_service p = (pr_type p = ''service'')"

definition has_scope :: "'a principal_scheme \<Rightarrow> string \<Rightarrow> bool" where
  "has_scope p scope = (scope \<in> pr_scopes p)"

definition in_group :: "principal_v1 \<Rightarrow> string \<Rightarrow> bool" where
  "in_group p grp = (JStr grp \<in> set (pr_groups p))"

definition to_creator_v1 :: "principal_v1 \<Rightarrow> creator" where
  "to_creator_v1 p = \<lparr>cr_sub = Some (pr_subject p), cr_type = Some (pr_type p), cr_client_id = pr_client_id p\<rparr>"

definition to_creator_v2 :: "principal \<Rightarrow> creator" where
  "to_creator_v2 p = \<lparr>cr_sub = Some (pr_subject p), cr_type = Some ''service'', cr_client_id = pr_client_id p\<rparr>"

section \<open>Libraries\<close>

text \<open>
  \<open>http_get\<close> fetches a document and decodes it, raising when the fetch fails, the status is an error or the body is
  no JSON. \<open>jwk_set\<close> reads a key set, each key with its id. \<open>unverified_header\<close> decodes the header of a
  token, whose \<open>kid\<close> is absent or a string; \<open>jwt_decode\<close> checks a token against a key at an instant: algorithms,
  audience, issuer, leeway and required claims, in this order. Both give \<open>None\<close> when they raise \<open>PyJWTError\<close>.
  \<open>py_repr\<close> prints floats and containers, which only a claim of an unusual type needs.
\<close>

record ('k, 'n) idp =
  http_get :: "string \<Rightarrow> 'n \<Rightarrow> (exn + json) \<times> 'n"
  jwk_set :: "json \<Rightarrow> exn + (string option \<times> 'k) list"
  unverified_header :: "string \<Rightarrow> payload option"
  jwt_decode :: "time \<Rightarrow> string \<Rightarrow> 'k \<Rightarrow> string list \<Rightarrow> string \<Rightarrow> string \<Rightarrow> int \<Rightarrow> string list \<Rightarrow> payload option"
  py_repr :: "json \<Rightarrow> string"

section \<open>The key cache\<close>

record 'k jwks =
  jw_url :: string
  jw_ttl :: interval
  jw_keys :: "string option \<rightharpoonup> 'k"
  jw_fetched_at :: time

definition jwks_init :: "string \<Rightarrow> interval \<Rightarrow> 'k jwks" where
  "jwks_init url ttl = \<lparr>jw_url = url, jw_ttl = ttl, jw_keys = Map.empty, jw_fetched_at = 0\<rparr>"

definition refresh :: "('k, 'n) idp \<Rightarrow> time \<Rightarrow> 'k jwks \<times> 'n \<Rightarrow> (api_exn + unit) \<times> ('k jwks \<times> 'n)" where
  "refresh L now st = (let (jw, n) = st in case http_get L (jw_url jw) n of
      (Inl e, n') \<Rightarrow> (Inl (Unexpected e), (jw, n'))
    | (Inr doc, n') \<Rightarrow> (case jwk_set L doc of
          Inl e \<Rightarrow> (Inl (Unexpected e), (jw, n'))
        | Inr keys \<Rightarrow> (Inr (), (jw\<lparr>jw_keys := map_of (rev keys), jw_fetched_at := now\<rparr>, n'))))"

definition BEARER_CHALLENGE :: headers where
  "BEARER_CHALLENGE = [(''WWW-Authenticate'', ''Bearer'')]"

definition unauthorized :: "string \<Rightarrow> api_exn" where
  "unauthorized detail = Problem 401 ''Unauthorized'' (Some detail) BEARER_CHALLENGE"

text \<open>The monotonic clock is read for the age of the keys and at the end of each refresh.\<close>

definition get_key ::
  "('k, 'n) idp \<Rightarrow> clock \<Rightarrow> string option \<Rightarrow> 'k jwks \<times> 'n \<Rightarrow> (api_exn + 'k) \<times> ('k jwks \<times> 'n)" where
  "get_key L clk kid st =
     (let jw = fst st; stale = (clk 0 - jw_fetched_at jw > jw_ttl jw);
          (r1, st1) = (if jw_keys jw kid = None \<or> stale then refresh L (clk 1) st else (Inr (), st))
      in case r1 of Inl e \<Rightarrow> (Inl e, st1)
       | Inr _ \<Rightarrow>
          (let (r2, st2) = (if jw_keys (fst st1) kid = None then refresh L (clk 2) st1 else (Inr (), st1))
           in case r2 of Inl e \<Rightarrow> (Inl e, st2)
            | Inr _ \<Rightarrow> (case jw_keys (fst st2) kid of
                 None \<Rightarrow> (Inl (unauthorized ''no matching signing key''), st2)
               | Some key \<Rightarrow> (Inr key, st2))))"

text \<open>The same class in the second service.\<close>

definition jwks_init_v2 :: "string \<Rightarrow> interval \<Rightarrow> 'k jwks" where
  "jwks_init_v2 url ttl = \<lparr>jw_url = url, jw_ttl = ttl, jw_keys = Map.empty, jw_fetched_at = 0\<rparr>"

definition refresh_v2 :: "('k, 'n) idp \<Rightarrow> time \<Rightarrow> 'k jwks \<times> 'n \<Rightarrow> (api_exn + unit) \<times> ('k jwks \<times> 'n)" where
  "refresh_v2 L now st = (let (jw, n) = st in case http_get L (jw_url jw) n of
      (Inl e, n') \<Rightarrow> (Inl (Unexpected e), (jw, n'))
    | (Inr doc, n') \<Rightarrow> (case jwk_set L doc of
          Inl e \<Rightarrow> (Inl (Unexpected e), (jw, n'))
        | Inr keys \<Rightarrow> (Inr (), (jw\<lparr>jw_keys := map_of (rev keys), jw_fetched_at := now\<rparr>, n'))))"

definition BEARER_CHALLENGE_v2 :: headers where
  "BEARER_CHALLENGE_v2 = [(''WWW-Authenticate'', ''Bearer'')]"

definition unauthorized_v2 :: "string \<Rightarrow> api_exn" where
  "unauthorized_v2 detail = Problem 401 ''Unauthorized'' (Some detail) BEARER_CHALLENGE_v2"

definition get_key_v2 ::
  "('k, 'n) idp \<Rightarrow> clock \<Rightarrow> string option \<Rightarrow> 'k jwks \<times> 'n \<Rightarrow> (api_exn + 'k) \<times> ('k jwks \<times> 'n)" where
  "get_key_v2 L clk kid st =
     (let jw = fst st; stale = (clk 0 - jw_fetched_at jw > jw_ttl jw);
          (r1, st1) = (if jw_keys jw kid = None \<or> stale then refresh_v2 L (clk 1) st else (Inr (), st))
      in case r1 of Inl e \<Rightarrow> (Inl e, st1)
       | Inr _ \<Rightarrow>
          (let (r2, st2) = (if jw_keys (fst st1) kid = None then refresh_v2 L (clk 2) st1 else (Inr (), st1))
           in case r2 of Inl e \<Rightarrow> (Inl e, st2)
            | Inr _ \<Rightarrow> (case jw_keys (fst st2) kid of
                 None \<Rightarrow> (Inl (unauthorized_v2 ''no matching signing key''), st2)
               | Some key \<Rightarrow> (Inr key, st2))))"

section \<open>Verification\<close>

definition key_id :: "payload \<Rightarrow> string option" where
  "key_id header = (case fmlookup header ''kid'' of Some (JStr k) \<Rightarrow> Some k | _ \<Rightarrow> None)"

definition verify ::
  "(payload \<Rightarrow> api_exn + 'p) \<Rightarrow> ('k, 'n) idp \<Rightarrow> 'a settings_scheme \<Rightarrow> clock \<Rightarrow> time \<Rightarrow> string \<Rightarrow> 'k jwks \<times> 'n \<Rightarrow>
   (api_exn + 'p) \<times> ('k jwks \<times> 'n)" where
  "verify to_principal L cfg clk now token st = (case unverified_header L token of
      None \<Rightarrow> (Inl (unauthorized ''malformed token''), st)
    | Some header \<Rightarrow> (case get_key L clk (key_id header) st of
          (Inl e, st') \<Rightarrow> (Inl e, st')
        | (Inr key, st') \<Rightarrow> (case jwt_decode L now token key (st_algorithms cfg) (st_audience cfg) (st_issuer cfg)
              (st_leeway cfg) [''exp'', ''iss'', ''aud''] of
              None \<Rightarrow> (Inl (unauthorized ''invalid token''), st')
            | Some claims \<Rightarrow> (to_principal claims, st'))))"

section \<open>Reading the claims\<close>

fun truthy :: "json \<Rightarrow> bool" where
  "truthy JNull = False"
| "truthy (JBool b) = b"
| "truthy (JInt i) = (i \<noteq> 0)"
| "truthy (JFloat m e) = (m \<noteq> 0)"
| "truthy (JStr s) = (s \<noteq> [])"
| "truthy (JArr xs) = (xs \<noteq> [])"
| "truthy (JObj d) = (d \<noteq> fmempty)"

text \<open>\<open>a or b\<close> for the result of \<open>claims.get\<close>: \<open>None\<close> and every false value give the second.\<close>

definition json_or :: "json option \<Rightarrow> json option \<Rightarrow> json option" where
  "json_or a b = (case a of None \<Rightarrow> b | Some v \<Rightarrow> if truthy v then a else b)"

fun py_str :: "(json \<Rightarrow> string) \<Rightarrow> json \<Rightarrow> string" where
  "py_str repr (JStr s) = s"
| "py_str repr (JInt i) = int_str i"
| "py_str repr (JBool b) = (if b then ''True'' else ''False'')"
| "py_str repr JNull = ''None''"
| "py_str repr v = repr v"

definition extract_scopes :: "(json \<Rightarrow> string) \<Rightarrow> payload \<Rightarrow> string set" where
  "extract_scopes repr claims = (case fmlookup claims ''scope'' of
      Some (JStr s) \<Rightarrow> set (py_split s)
    | _ \<Rightarrow> (case fmlookup claims ''scp'' of
          Some (JArr xs) \<Rightarrow> set (map (py_str repr) xs)
        | _ \<Rightarrow> {}))"

text \<open>A client id of the declared type, \<open>str | None\<close>.\<close>

definition typed_client :: "json option \<Rightarrow> api_exn + string option" where
  "typed_client v = (case v of None \<Rightarrow> Inr None | Some JNull \<Rightarrow> Inr None | Some (JStr s) \<Rightarrow> Inr (Some s)
     | Some w \<Rightarrow> Inl (Untyped w))"

definition claim_client :: "payload \<Rightarrow> json option" where
  "claim_client claims = json_or (fmlookup claims ''client_id'') (fmlookup claims ''azp'')"

definition claim_subject :: "payload \<Rightarrow> json" where
  "claim_subject claims = the (json_or (json_or (fmlookup claims ''sub'') (claim_client claims)) (Some (JStr ''unknown'')))"

definition to_principal_v1 :: "(json \<Rightarrow> string) \<Rightarrow> settings_v1 \<Rightarrow> payload \<Rightarrow> api_exn + principal_v1" where
  "to_principal_v1 repr cfg claims =
     and_then (typed_client (claim_client claims)) (\<lambda>client_id.
       let subject = claim_subject claims;
           groups_raw = the (json_or (fmlookup claims (v1_groups_claim cfg)) (Some (JArr [])));
           groups = (case groups_raw of JArr xs \<Rightarrow> xs | v \<Rightarrow> [JStr (py_str repr v)]);
           has_user_claim = list_ex (\<lambda>c. fmlookup claims c \<noteq> None) (v1_user_claims cfg);
           is_user = (has_user_claim \<or> (case client_id of None \<Rightarrow> False | Some c \<Rightarrow> subject \<noteq> JStr c))
       in Inr \<lparr>pr_subject = py_str repr subject, pr_client_id = client_id, pr_scopes = extract_scopes repr claims,
            pr_type = (if is_user then ''user'' else ''service''), pr_groups = groups\<rparr>)"

definition extract_scopes_v2 :: "(json \<Rightarrow> string) \<Rightarrow> payload \<Rightarrow> string set" where
  "extract_scopes_v2 repr claims = (case fmlookup claims ''scope'' of
      Some (JStr s) \<Rightarrow> set (py_split s)
    | _ \<Rightarrow> (case fmlookup claims ''scp'' of
          Some (JArr xs) \<Rightarrow> set (map (py_str repr) xs)
        | _ \<Rightarrow> {}))"

definition to_principal_v2 :: "(json \<Rightarrow> string) \<Rightarrow> payload \<Rightarrow> api_exn + principal" where
  "to_principal_v2 repr claims =
     and_then (typed_client (claim_client claims)) (\<lambda>client_id.
       Inr \<lparr>pr_subject = py_str repr (claim_subject claims), pr_client_id = client_id,
         pr_scopes = extract_scopes_v2 repr claims\<rparr>)"

definition verify_v1 ::
  "('k, 'n) idp \<Rightarrow> settings_v1 \<Rightarrow> clock \<Rightarrow> time \<Rightarrow> string \<Rightarrow> 'k jwks \<times> 'n \<Rightarrow> (api_exn + principal_v1) \<times> ('k jwks \<times> 'n)" where
  "verify_v1 L cfg = verify (to_principal_v1 (py_repr L) cfg) L cfg"

definition verify_v2 ::
  "('k, 'n) idp \<Rightarrow> settings_v2 \<Rightarrow> clock \<Rightarrow> time \<Rightarrow> string \<Rightarrow> 'k jwks \<times> 'n \<Rightarrow> (api_exn + principal) \<times> ('k jwks \<times> 'n)" where
  "verify_v2 L cfg clk now token st = (case unverified_header L token of
      None \<Rightarrow> (Inl (unauthorized_v2 ''malformed token''), st)
    | Some header \<Rightarrow> (case get_key_v2 L clk (key_id header) st of
          (Inl e, st') \<Rightarrow> (Inl e, st')
        | (Inr key, st') \<Rightarrow> (case jwt_decode L now token key (st_algorithms cfg) (st_audience cfg) (st_issuer cfg)
              (st_leeway cfg) [''exp'', ''iss'', ''aud''] of
              None \<Rightarrow> (Inl (unauthorized_v2 ''invalid token''), st')
            | Some claims \<Rightarrow> (to_principal_v2 (py_repr L) claims, st'))))"

section \<open>Start-up\<close>

definition discover_jwks_url :: "('k, 'n) idp \<Rightarrow> 'a settings_scheme \<Rightarrow> 'n \<Rightarrow> (exn + json) \<times> 'n" where
  "discover_jwks_url L cfg n =
     (let well_known = py_rstrip CHR ''/'' (st_issuer cfg) @ ''/.well-known/openid-configuration''
      in case http_get L well_known n of
          (Inl e, n') \<Rightarrow> (Inl e, n')
        | (Inr (JObj d), n') \<Rightarrow> (case fmlookup d ''jwks_uri'' of
              None \<Rightarrow> (Inl (RuntimeError (''issuer discovery at '' @ well_known @ '' has no jwks_uri'')), n')
            | Some v \<Rightarrow> if truthy v then (Inr v, n')
                else (Inl (RuntimeError (''issuer discovery at '' @ well_known @ '' has no jwks_uri'')), n'))
        | (Inr _, n') \<Rightarrow> (Inl AttributeError, n'))"

text \<open>A discovered location that is no string is outside the declared types, and outside the model (\<open>Inl v\<close>).\<close>

definition build_verifier :: "('k, 'n) idp \<Rightarrow> 'a settings_scheme \<Rightarrow> 'n \<Rightarrow> (exn + (json + 'k jwks)) \<times> 'n" where
  "build_verifier L cfg n =
     (if st_jwks_url cfg \<noteq> [] then (Inr (Inr (jwks_init (st_jwks_url cfg) (st_jwks_ttl cfg))), n)
      else case discover_jwks_url L cfg n of
          (Inl e, n') \<Rightarrow> (Inl e, n')
        | (Inr (JStr url), n') \<Rightarrow> (Inr (Inr (jwks_init url (st_jwks_ttl cfg))), n')
        | (Inr v, n') \<Rightarrow> (Inr (Inl v), n'))"

definition discover_jwks_url_v2 :: "('k, 'n) idp \<Rightarrow> settings_v2 \<Rightarrow> 'n \<Rightarrow> (exn + json) \<times> 'n" where
  "discover_jwks_url_v2 L cfg n =
     (let well_known = py_rstrip CHR ''/'' (st_issuer cfg) @ ''/.well-known/openid-configuration''
      in case http_get L well_known n of
          (Inl e, n') \<Rightarrow> (Inl e, n')
        | (Inr (JObj d), n') \<Rightarrow> (case fmlookup d ''jwks_uri'' of
              None \<Rightarrow> (Inl (RuntimeError (''issuer discovery at '' @ well_known @ '' has no jwks_uri'')), n')
            | Some v \<Rightarrow> if truthy v then (Inr v, n')
                else (Inl (RuntimeError (''issuer discovery at '' @ well_known @ '' has no jwks_uri'')), n'))
        | (Inr _, n') \<Rightarrow> (Inl AttributeError, n'))"

definition build_verifier_v2 :: "('k, 'n) idp \<Rightarrow> settings_v2 \<Rightarrow> 'n \<Rightarrow> (exn + (json + 'k jwks)) \<times> 'n" where
  "build_verifier_v2 L cfg n =
     (if st_jwks_url cfg \<noteq> [] then (Inr (Inr (jwks_init_v2 (st_jwks_url cfg) (st_jwks_ttl cfg))), n)
      else case discover_jwks_url_v2 L cfg n of
          (Inl e, n') \<Rightarrow> (Inl e, n')
        | (Inr (JStr url), n') \<Rightarrow> (Inr (Inr (jwks_init_v2 url (st_jwks_ttl cfg))), n')
        | (Inr v, n') \<Rightarrow> (Inr (Inl v), n'))"

section \<open>The second copy\<close>

lemma auth_copies [simp]:
  "jwks_init_v2 = jwks_init" "refresh_v2 = refresh" "BEARER_CHALLENGE_v2 = BEARER_CHALLENGE" "unauthorized_v2 = unauthorized"
  "get_key_v2 = get_key" "extract_scopes_v2 = extract_scopes"
  "discover_jwks_url_v2 = discover_jwks_url" "build_verifier_v2 = build_verifier"
proof -
  show init: "jwks_init_v2 = jwks_init" unfolding fun_eq_iff jwks_init_v2_def jwks_init_def by simp
  show fresh: "refresh_v2 = refresh" unfolding fun_eq_iff refresh_v2_def refresh_def by simp
  show chal: "BEARER_CHALLENGE_v2 = BEARER_CHALLENGE" by (simp add: BEARER_CHALLENGE_v2_def BEARER_CHALLENGE_def)
  show unauth: "unauthorized_v2 = unauthorized" unfolding fun_eq_iff unauthorized_v2_def unauthorized_def chal by simp
  show "get_key_v2 = get_key" unfolding fun_eq_iff get_key_v2_def get_key_def fresh unauth by simp
  show "extract_scopes_v2 = extract_scopes" unfolding fun_eq_iff extract_scopes_v2_def extract_scopes_def by simp
  show disc: "discover_jwks_url_v2 = discover_jwks_url"
    unfolding fun_eq_iff discover_jwks_url_v2_def discover_jwks_url_def by simp
  show "build_verifier_v2 = build_verifier" unfolding fun_eq_iff build_verifier_v2_def build_verifier_def disc init by simp
qed

lemma verify_v2_copy: "verify_v2 L cfg = verify (to_principal_v2 (py_repr L)) L cfg"
  unfolding fun_eq_iff verify_v2_def verify_def auth_copies by simp

section \<open>Laws of the key cache\<close>

text \<open>What the issuer's document at the cache's location gives, and the network afterwards.\<close>

definition fetched :: "('k, 'n) idp \<Rightarrow> string \<Rightarrow> 'n \<Rightarrow> (exn + (string option \<rightharpoonup> 'k)) \<times> 'n" where
  "fetched L url n = (let (r, n') = http_get L url n
     in (and_then r (\<lambda>doc. map_sum id (\<lambda>keys. map_of (rev keys)) (jwk_set L doc)), n'))"

lemma refresh_fetched:
  "refresh L now (jw, n) = (case fetched L (jw_url jw) n of
      (Inl e, n') \<Rightarrow> (Inl (Unexpected e), (jw, n'))
    | (Inr ks, n') \<Rightarrow> (Inr (), (jw\<lparr>jw_keys := ks, jw_fetched_at := now\<rparr>, n')))"
  by (auto simp: refresh_def fetched_def and_then_def split: prod.split sum.split)

lemma get_key_cached:
  assumes "jw_keys jw kid = Some key" "clk 0 - jw_fetched_at jw \<le> jw_ttl jw"
  shows "get_key L clk kid (jw, n) = (Inr key, (jw, n))"
  using assms by (simp add: get_key_def)

lemma get_key_fetch_fails:
  assumes "jw_keys jw kid = None \<or> clk 0 - jw_fetched_at jw > jw_ttl jw" "fetched L (jw_url jw) n = (Inl e, n')"
  shows "get_key L clk kid (jw, n) = (Inl (Unexpected e), (jw, n'))"
  using assms by (auto simp: get_key_def refresh_fetched Let_def)

lemma get_key_fetched:
  assumes "jw_keys jw kid = None \<or> clk 0 - jw_fetched_at jw > jw_ttl jw"
    "fetched L (jw_url jw) n = (Inr ks, n')" "ks kid = Some key"
  shows "get_key L clk kid (jw, n) = (Inr key, (jw\<lparr>jw_keys := ks, jw_fetched_at := clk 1\<rparr>, n'))"
  using assms by (auto simp: get_key_def refresh_fetched Let_def)

text \<open>A key id that the first document does not list is looked up in a second one.\<close>

lemma get_key_twice:
  assumes "jw_keys jw kid = None \<or> clk 0 - jw_fetched_at jw > jw_ttl jw"
    "fetched L (jw_url jw) n = (Inr ks, n')" "ks kid = None"
  shows "get_key L clk kid (jw, n) = (case fetched L (jw_url jw) n' of
      (Inl e, n'') \<Rightarrow> (Inl (Unexpected e), (jw\<lparr>jw_keys := ks, jw_fetched_at := clk 1\<rparr>, n''))
    | (Inr ks', n'') \<Rightarrow> (case ks' kid of
          None \<Rightarrow> Inl (unauthorized ''no matching signing key'') | Some key \<Rightarrow> Inr key,
        (jw\<lparr>jw_keys := ks', jw_fetched_at := clk 2\<rparr>, n'')))"
  using assms by (auto simp: get_key_def refresh_fetched Let_def split: prod.split sum.split option.split)

lemma get_key_from_cache:
  assumes "get_key L clk kid st = (Inr key, st')"
  shows "jw_keys (fst st') kid = Some key"
  using assms by (auto simp: get_key_def Let_def split: prod.splits sum.splits option.splits)

lemma refresh_errors: "refresh L now st = (Inl e, st') \<Longrightarrow> \<exists>x. e = Unexpected x"
  by (cases st) (auto simp: refresh_fetched split: prod.splits sum.splits)

lemma get_key_errors:
  assumes "get_key L clk kid st = (Inl e, st')"
  shows "e = unauthorized ''no matching signing key'' \<or> (\<exists>x. e = Unexpected x)"
  using assms
  by (auto simp: get_key_def Let_def split: prod.splits sum.splits option.splits if_splits dest: refresh_errors)

section \<open>Laws of verification\<close>

lemma verify_Inr:
  assumes "verify tp L cfg clk now token st = (Inr p, st')"
  obtains header key claims where "unverified_header L token = Some header"
    "jw_keys (fst st') (key_id header) = Some key"
    "jwt_decode L now token key (st_algorithms cfg) (st_audience cfg) (st_issuer cfg) (st_leeway cfg)
       [''exp'', ''iss'', ''aud''] = Some claims"
    "tp claims = Inr p"
proof -
  obtain header where h: "unverified_header L token = Some header"
    using assms by (cases "unverified_header L token") (auto simp: verify_def)
  obtain key where k: "get_key L clk (key_id header) st = (Inr key, st')"
    using assms h by (auto simp: verify_def split: prod.splits sum.splits option.splits)
  from assms h k obtain claims where
    "jwt_decode L now token key (st_algorithms cfg) (st_audience cfg) (st_issuer cfg) (st_leeway cfg)
       [''exp'', ''iss'', ''aud''] = Some claims" "tp claims = Inr p"
    by (auto simp: verify_def split: option.splits)
  with that h get_key_from_cache [OF k] show thesis by blast
qed

text \<open>Refusals and failures of the verification.\<close>

definition auth_failure :: "api_exn \<Rightarrow> bool" where
  "auth_failure e \<longleftrightarrow> (\<exists>d. e = unauthorized d) \<or> (\<exists>x. e = Unexpected x) \<or> (\<exists>v. e = Untyped v)"

lemma auth_failure_simps [simp]:
  "auth_failure (unauthorized d)" "auth_failure (Unexpected x)" "auth_failure (Untyped v)"
  by (auto simp: auth_failure_def)

text \<open>A reading of claims that fails in these ways only.\<close>

definition claims_reader :: "(payload \<Rightarrow> api_exn + 'p) \<Rightarrow> bool" where
  "claims_reader tp \<longleftrightarrow> (\<forall>claims x. tp claims = Inl x \<longrightarrow> auth_failure x)"

lemma verify_Inl:
  assumes "verify tp L cfg clk now token st = (Inl e, st')" "claims_reader tp"
  shows "auth_failure e"
  using assms by (auto simp: verify_def claims_reader_def split: prod.splits sum.splits option.splits dest: get_key_errors)

lemma typed_client_Inl: "typed_client v = Inl e \<Longrightarrow> auth_failure e"
  by (auto simp: typed_client_def split: option.splits json.splits)

lemma to_principal_reader: "claims_reader (to_principal_v1 repr cfg)" "claims_reader (to_principal_v2 repr)"
  by (auto simp: claims_reader_def to_principal_v1_def to_principal_v2_def and_then_Inl_iff Let_def dest: typed_client_Inl)

section \<open>The cache as a whole\<close>

text \<open>
  C37. Looking a signing key up. A key that is returned is in the cache afterwards, and the cache is either untouched and within its
  time to live, or holds the document of the last of at most two fetches from the issuer, stamped with the instant of that
  fetch. A failure is either that of the last fetch, passed on, or the refusal of a key id that two documents in a row do not list.
\<close>

theorem get_key_outcome:
  assumes "get_key L clk kid (jw, n) = (r, (jw', n'))"
  shows "case r of
      Inr key \<Rightarrow> jw_keys jw' kid = Some key \<and>
        ((jw', n') = (jw, n) \<and> clk 0 - jw_fetched_at jw \<le> jw_ttl jw \<or>
         (\<exists>m \<in> {n, snd (fetched L (jw_url jw) n)}. fetched L (jw_url jw) m = (Inr (jw_keys jw'), n')) \<and>
           jw_fetched_at jw' \<in> {clk 1, clk 2})
    | Inl e \<Rightarrow>
        (\<exists>x. e = Unexpected x \<and> (\<exists>m \<in> {n, snd (fetched L (jw_url jw) n)}. fetched L (jw_url jw) m = (Inl x, n'))) \<or>
        e = unauthorized ''no matching signing key'' \<and> jw_keys jw' kid = None \<and>
          (\<exists>ks m. fetched L (jw_url jw) n = (Inr ks, m) \<and> ks kid = None \<and> fetched L (jw_url jw) m = (Inr (jw_keys jw'), n'))"
proof (cases "\<exists>key. jw_keys jw kid = Some key \<and> clk 0 - jw_fetched_at jw \<le> jw_ttl jw")
  case True
  then obtain key where "jw_keys jw kid = Some key" "clk 0 - jw_fetched_at jw \<le> jw_ttl jw" by blast
  with get_key_cached [of jw kid key clk L n] assms show ?thesis by auto
next
  case False
  then have old: "jw_keys jw kid = None \<or> clk 0 - jw_fetched_at jw > jw_ttl jw" by (cases "jw_keys jw kid") auto
  obtain f m where first: "fetched L (jw_url jw) n = (f, m)" by force
  show ?thesis
  proof (cases f)
    case (Inl e)
    with get_key_fetch_fails [of jw kid clk L n e m] old first assms show ?thesis by auto
  next
    case (Inr ks)
    show ?thesis
    proof (cases "ks kid")
      case None
      obtain g m' where second: "fetched L (jw_url jw) m = (g, m')" by force
      with get_key_twice [of jw kid clk L n ks m] old None Inr first assms show ?thesis
        by (cases g) (auto split: option.splits)
    next
      case (Some key)
      with get_key_fetched [of jw kid clk L n ks m key] old Inr first assms show ?thesis by auto
    qed
  qed
qed

text \<open>An issuer with one key whose tokens are the names of their bearers; the network counts the fetches.\<close>

definition demo_claims :: "string \<Rightarrow> payload option" where
  "demo_claims token =
     (if token = ''svc'' then Some (fmap_of_list [(''sub'', JStr ''svc''), (''client_id'', JStr ''svc''),
         (''scope'', JStr ''jobs.read jobs.write'')])
      else if token = ''ann'' then Some (fmap_of_list [(''sub'', JStr ''ann''), (''azp'', JStr ''web''),
         (''email'', JStr ''ann@example.org''), (''scope'', JStr ''jobs.read'')])
      else None)"

definition demo_idp :: "(unit, nat) idp" where
  "demo_idp = \<lparr>http_get = (\<lambda>_ n. (Inr JNull, Suc n)), jwk_set = (\<lambda>_. Inr [(Some ''k1'', ())]),
     unverified_header = (\<lambda>_. Some (fmap_of_list [(''kid'', JStr ''k1'')])),
     jwt_decode = (\<lambda>_ token _ _ _ _ _ _. demo_claims token), py_repr = (\<lambda>_. [])\<rparr>"

theorem get_key_outcome_witness:
  "fst (get_key demo_idp int (Some ''k2'') (jwks_init ''jwks'' 3600, 0)) = Inl (unauthorized ''no matching signing key'') \<and>
   (\<exists>ks m. fetched demo_idp ''jwks'' 0 = (Inr ks, m) \<and> ks (Some ''k2'') = None)"
proof -
  let ?r = "get_key demo_idp int (Some ''k2'') (jwks_init ''jwks'' 3600, 0)"
  have eq: "?r = (fst ?r, (fst (snd ?r), snd (snd ?r)))" by simp
  have out: "fst ?r = Inl (unauthorized ''no matching signing key'')"
    by (simp add: get_key_def refresh_def demo_idp_def jwks_init_def Let_def)
  from get_key_outcome [OF eq] show ?thesis unfolding out by (auto simp: unauthorized_def jwks_init_def)
qed

end
