(* ===== verification/Circuit_Breaker.thy ===== *)
theory Circuit_Breaker
  imports Http Memory_Store Postgres_Store
begin

text \<open>
  The store as the HTTP services see it. They call two of its methods, \<open>enqueue\<close> and \<open>get_job\<close>, and
  either may raise: the record \<open>api_store\<close>. A store of the library becomes one by \<open>reliable\<close>; \<open>failing\<close> adds the failures of
  the database, which roll the transaction back; \<open>circuit_breaker_store\<close> is the decorator of
  \<open>handlerAPIv2/circuit_breaker.py\<close>.

  The locale \<open>fallible_store\<close> states what the routes rely on: a failure leaves the tables as they were,
  and an answer is the one of the abstract store. Every \<open>job_store\<close> gives one, and the two decorators
  turn one into another.

  The breaker itself is the package \<open>pybreaker\<close>: its state is of any type and its decisions are the
  record \<open>breaker\<close>.
\<close>

section \<open>Stores that may raise\<close>

record 's api_store =
  as_enqueue :: "time \<Rightarrow> time \<Rightarrow> string \<Rightarrow> payload option \<Rightarrow> creator option \<Rightarrow> 's \<Rightarrow> (api_exn + int option) \<times> 's"
  as_get_job :: "int \<Rightarrow> 's \<Rightarrow> (api_exn + job option) \<times> 's"

definition reliable :: "'s store_ops \<Rightarrow> 's api_store" where
  "reliable ops = \<lparr>as_enqueue = (\<lambda>t u jt p c s. apfst Inr (op_enqueue ops t u jt p c s)),
     as_get_job = (\<lambda>j s. (Inr (op_get_job ops j s), s))\<rparr>"

text \<open>A call on a pair of states whose first component decides whether the second is reached.\<close>

definition failing_call ::
  "('f \<Rightarrow> exn option \<times> 'f) \<Rightarrow> ('s \<Rightarrow> (api_exn + 'a) \<times> 's) \<Rightarrow> 'f \<times> 's \<Rightarrow> (api_exn + 'a) \<times> 'f \<times> 's" where
  "failing_call fault f fs = (let (e, f') = fault (fst fs) in case e of
      Some x \<Rightarrow> (Inl (Unexpected x), (f', snd fs))
    | None \<Rightarrow> apsnd (Pair f') (f (snd fs)))"

definition failing :: "('f \<Rightarrow> exn option \<times> 'f) \<Rightarrow> 's api_store \<Rightarrow> ('f \<times> 's) api_store" where
  "failing fault A = \<lparr>as_enqueue = (\<lambda>t u jt p c. failing_call fault (as_enqueue A t u jt p c)),
     as_get_job = (\<lambda>j. failing_call fault (as_get_job A j))\<rparr>"

section \<open>The circuit breaker\<close>

text \<open>
  Of \<open>pybreaker\<close>: whether a call is let through, what a success and a failure change, and whether the failure opened the
  circuit, in which case the caller sees the breaker's error instead of the failure.
\<close>

record 'b breaker =
  br_admit :: "'b \<Rightarrow> bool \<times> 'b"
  br_success :: "'b \<Rightarrow> 'b"
  br_failure :: "'b \<Rightarrow> bool \<times> 'b"
  br_current_state :: "'b \<Rightarrow> string"

definition breaker_call ::
  "'b breaker \<Rightarrow> ('s \<Rightarrow> (api_exn + 'a) \<times> 's) \<Rightarrow> 'b \<times> 's \<Rightarrow> (api_exn + 'a) \<times> 'b \<times> 's" where
  "breaker_call lib f bs = (case br_admit lib (fst bs) of
      (False, b) \<Rightarrow> (Inl Circuit_Open, (b, snd bs))
    | (True, b) \<Rightarrow> (case f (snd bs) of
          (Inr x, s) \<Rightarrow> (Inr x, (br_success lib b, s))
        | (Inl e, s) \<Rightarrow> (let (opened, b') = br_failure lib b in (Inl (if opened then Circuit_Open else e), (b', s)))))"

definition circuit_breaker_store :: "'b breaker \<Rightarrow> 's api_store \<Rightarrow> ('b \<times> 's) api_store" where
  "circuit_breaker_store lib inner = \<lparr>as_enqueue = (\<lambda>t u jt p c. breaker_call lib (as_enqueue inner t u jt p c)),
     as_get_job = (\<lambda>j. breaker_call lib (as_get_job inner j))\<rparr>"

definition breaker_state :: "'b breaker \<Rightarrow> 'b \<times> 's \<Rightarrow> string" where
  "breaker_state lib bs = br_current_state lib (fst bs)"

text \<open>
  The construction of the breaker, with \<open>new\<close> for the constructor of \<open>pybreaker.CircuitBreaker\<close>, and \<open>close\<close>, which calls the
  method of the wrapped store where that has one: \<open>inner_close\<close> is its attribute \<open>close\<close>.
\<close>

definition build_breaker :: "(int \<Rightarrow> interval \<Rightarrow> string \<Rightarrow> 'b) \<Rightarrow> int \<Rightarrow> interval \<Rightarrow> 'b" where
  "build_breaker new failure_threshold reset_timeout = new failure_threshold reset_timeout ''postgres-store''"

definition breaker_store_close :: "('r \<Rightarrow> 'r) option \<Rightarrow> 'r \<Rightarrow> 'r" where
  "breaker_store_close inner_close r = (case inner_close of Some close \<Rightarrow> close r | None \<Rightarrow> r)"

section \<open>The contract\<close>

definition store_failure :: "api_exn \<Rightarrow> bool" where
  "store_failure e \<longleftrightarrow> e = Circuit_Open \<or> (\<exists>x. e = Unexpected x)"

lemma store_failure_simps [simp]: "store_failure Circuit_Open" "store_failure (Unexpected x)"
  by (simp_all add: store_failure_def)

text \<open>What \<open>enqueue\<close> may answer on the tables \<open>a\<close>, with the tables \<open>a'\<close> afterwards.\<close>

definition enqueue_answer ::
  "time \<Rightarrow> time \<Rightarrow> string \<Rightarrow> payload option \<Rightarrow> creator option \<Rightarrow> astate \<Rightarrow> api_exn + int option \<Rightarrow> astate \<Rightarrow> bool" where
  "enqueue_answer t u jt p c a r a' = (case r of
      Inl e \<Rightarrow> store_failure e \<and> a' = a
    | Inr None \<Rightarrow> a_active a jt \<and> a' = a
    | Inr (Some jid) \<Rightarrow> \<not> a_active a jt \<and> a_jobs a jid = None \<and>
        (\<exists>k v. v \<in> {t, u} \<and> (\<forall>k' \<in> dom (a_outbox a). k' < k) \<and> a' = spec_enqueue jid k t v jt p c a))"

definition get_job_answer :: "int \<Rightarrow> astate \<Rightarrow> api_exn + job option \<Rightarrow> bool" where
  "get_job_answer j a r = (case r of Inl e \<Rightarrow> store_failure e | Inr b \<Rightarrow> map_option with_creator b = a_jobs a j)"

locale fallible_store =
  fixes A :: "'s api_store"
    and view :: "'s \<Rightarrow> astate"
    and valid :: "'s \<Rightarrow> bool"
  assumes valid_wf: "valid s \<Longrightarrow> a_wf (view s)"
    and enqueue_law: "valid s \<Longrightarrow> as_enqueue A t u jt p c s = (r, s') \<Longrightarrow>
      valid s' \<and> enqueue_answer t u jt p c (view s) r (view s')"
    and get_job_law: "valid s \<Longrightarrow> as_get_job A j s = (b, s') \<Longrightarrow>
      valid s' \<and> view s' = view s \<and> get_job_answer j (view s) b"

sublocale job_store \<subseteq> api: fallible_store "reliable ops" abs inv
proof unfold_locales
  show "a_wf (abs s)" if "inv s" for s using that by (rule inv_wf)
next
  fix s t u jt p c r s'
  assume s: "inv s" and call: "as_enqueue (reliable ops) t u jt p c s = (r, s')"
  show "inv s' \<and> enqueue_answer t u jt p c (abs s) r (abs s')"
  proof (cases "a_active (abs s) jt")
    case True
    with enqueue_dup [OF s this, of t u p c] call show ?thesis by (auto simp: reliable_def enqueue_answer_def)
  next
    case False
    with enqueue_new [OF s this, of t u p c] call show ?thesis
      by (fastforce simp: reliable_def enqueue_answer_def)
  qed
next
  fix s j r s'
  assume "inv s" "as_get_job (reliable ops) j s = (r, s')"
  then show "inv s' \<and> abs s' = abs s \<and> get_job_answer j (abs s) r"
    using get_job [of s j] by (auto simp: reliable_def get_job_answer_def)
qed

text \<open>Both decorators answer as the store they wrap, or fail and leave it alone or as the failing call left it.\<close>

lemma failing_call_cases:
  assumes "failing_call fault f fs = (r, fs')"
  obtains x where "r = Inl (Unexpected x)" "snd fs' = snd fs" | "f (snd fs) = (r, snd fs')"
  using assms by (cases "f (snd fs)") (auto simp: failing_call_def Let_def split: prod.splits option.splits)

lemma breaker_call_cases:
  assumes "breaker_call lib f bs = (r, bs')"
  obtains "r = Inl Circuit_Open" "snd bs' = snd bs" | "f (snd bs) = (r, snd bs')"
    | e where "r = Inl Circuit_Open" "f (snd bs) = (Inl e, snd bs')"
  using assms
  by (cases "f (snd bs)") (auto simp: breaker_call_def Let_def split: prod.splits sum.splits bool.splits if_splits)

context fallible_store
begin

lemma enqueue_fails: "valid s \<Longrightarrow> as_enqueue A t u jt p c s = (Inl e, s') \<Longrightarrow>
    valid s' \<and> view s' = view s \<and> store_failure e"
  using enqueue_law [of s t u jt p c "Inl e" s'] by (simp add: enqueue_answer_def)

lemma get_job_fails: "valid s \<Longrightarrow> as_get_job A j s = (Inl e, s') \<Longrightarrow>
    valid s' \<and> view s' = view s \<and> store_failure e"
  using get_job_law [of s j "Inl e" s'] by (simp add: get_job_answer_def)

lemma failing_fallible: "fallible_store (failing fault A) (view \<circ> snd) (valid \<circ> snd)"
proof (unfold_locales, goal_cases)
  case (1 fs)
  then show ?case by (simp add: valid_wf)
next
  case (2 fs t u jt p c r fs')
  then have "failing_call fault (as_enqueue A t u jt p c) fs = (r, fs')" by (simp add: failing_def)
  then show ?case
  proof (cases rule: failing_call_cases)
    case 2
    then show ?thesis using enqueue_law \<open>(valid \<circ> snd) fs\<close> by simp
  qed (use 2(1) in \<open>simp add: enqueue_answer_def\<close>)
next
  case (3 fs j b fs')
  then have "failing_call fault (as_get_job A j) fs = (b, fs')" by (simp add: failing_def)
  then show ?case
  proof (cases rule: failing_call_cases)
    case 2
    then show ?thesis using get_job_law 3(1) by simp
  qed (use 3(1) in \<open>simp add: get_job_answer_def\<close>)
qed

lemma breaker_fallible: "fallible_store (circuit_breaker_store lib A) (view \<circ> snd) (valid \<circ> snd)"
proof (unfold_locales, goal_cases)
  case (1 bs)
  then show ?case by (simp add: valid_wf)
next
  case (2 bs t u jt p c r bs')
  then have "breaker_call lib (as_enqueue A t u jt p c) bs = (r, bs')" by (simp add: circuit_breaker_store_def)
  then show ?case
  proof (cases rule: breaker_call_cases)
    case 2
    then show ?thesis using enqueue_law \<open>(valid \<circ> snd) bs\<close> by simp
  next
    case (3 e)
    then show ?thesis using enqueue_fails \<open>(valid \<circ> snd) bs\<close> by (simp add: enqueue_answer_def)
  qed (use 2(1) in \<open>simp add: enqueue_answer_def\<close>)
next
  case (3 bs j b bs')
  then have "breaker_call lib (as_get_job A j) bs = (b, bs')" by (simp add: circuit_breaker_store_def)
  then show ?case
  proof (cases rule: breaker_call_cases)
    case 2
    then show ?thesis using get_job_law 3(1) by simp
  next
    case (3 e)
    then show ?thesis using get_job_fails \<open>(valid \<circ> snd) bs\<close> by (simp add: get_job_answer_def)
  qed (use 3(1) in \<open>simp add: get_job_answer_def\<close>)
qed

end

section \<open>The stores of the two services\<close>

text \<open>The first service runs on Postgres; the second on Postgres behind the breaker, or in memory.\<close>

definition pg_api_store :: "('f \<Rightarrow> exn option \<times> 'f) \<Rightarrow> ('f \<times> pg_db) api_store" where
  "pg_api_store fault = failing fault (reliable pg_ops)"

definition guarded_api_store :: "'b breaker \<Rightarrow> ('f \<Rightarrow> exn option \<times> 'f) \<Rightarrow> ('b \<times> 'f \<times> pg_db) api_store" where
  "guarded_api_store lib fault = circuit_breaker_store lib (pg_api_store fault)"

interpretation pg_api: fallible_store "pg_api_store fault" "pg_abs \<circ> snd" "pg_inv \<circ> snd" for fault
  unfolding pg_api_store_def by (rule pg.api.failing_fallible)

interpretation guarded_api: fallible_store "guarded_api_store lib fault" "pg_abs \<circ> snd \<circ> snd" "pg_inv \<circ> snd \<circ> snd"
  for lib fault
  unfolding guarded_api_store_def by (rule pg_api.breaker_fallible)

end
