(* ===== verification/Api.thy ===== *)
theory Api
  imports Auth Circuit_Breaker
begin

text \<open>
  The routes of the two HTTP services and what stands around them: request validation
  (\<open>schemas.py\<close>), the dependencies that authenticate and authorize (\<open>deps.py\<close>), the routes
  (\<open>routes.py\<close>) and the composition of the layers (\<open>app.py\<close>).

  The state of an application is the record \<open>world\<close>: the store, the key cache, the network and the
  limiter. A dependency or a route is a state transformer that returns a value or raises; \<open>try_bind\<close>
  runs one after the other. FastAPI decodes the body first, then runs the dependencies, then validates
  the path parameters and the decoded body, then calls the route.

  Parameters: \<open>fw\<close> is what FastAPI and pydantic do of their own (requests that match no route of the
  service, texts of validation errors, the reading of an integer in a path, the printing of an instant), \<open>cors\<close> the
  CORS middleware, \<open>lm\<close> the limiter, \<open>L\<close> the HTTP client and PyJWT, \<open>A\<close> the store.
\<close>

section \<open>Requests to create a job\<close>

definition is_lower :: "char \<Rightarrow> bool" where
  "is_lower c = (let n = of_char c :: nat in 97 \<le> n \<and> n \<le> 122)"

definition type_char :: "char \<Rightarrow> bool" where
  "type_char c = (is_lower c \<or> is_digit c \<or> c \<in> {CHR ''_'', CHR ''.'', CHR ''-''})"

text \<open>
  \<open>^[a-z][a-z0-9_.-]{0,63}$\<close> as \<open>re.match\<close> tries it: after the first character up to \<open>n\<close> more, as many
  as possible first, then \<open>$\<close>, which holds at the end and before a newline that ends the string.
\<close>

definition at_dollar :: "string \<Rightarrow> bool" where
  "at_dollar s = (s = [] \<or> s = [char_of (10 :: nat)])"

fun match_rest :: "nat \<Rightarrow> string \<Rightarrow> bool" where
  "match_rest 0 s = at_dollar s"
| "match_rest (Suc n) [] = at_dollar []"
| "match_rest (Suc n) (c # cs) = (type_char c \<and> match_rest n cs \<or> at_dollar (c # cs))"

fun job_type_match :: "string \<Rightarrow> bool" where
  "job_type_match [] = False"
| "job_type_match (c # cs) = (is_lower c \<and> match_rest 63 cs)"

record create_job_request =
  cq_job_type :: string
  cq_payload :: "payload option"

record framework =
  fw_fallback :: "request \<Rightarrow> api_exn + response"
  fw_explain :: "body \<Rightarrow> string"
  fw_parse_id :: "string \<Rightarrow> string + int"
  fw_isoformat :: "time \<Rightarrow> string"

definition valid_payload :: "json option \<Rightarrow> payload option option" where
  "valid_payload v = (case v of None \<Rightarrow> Some None | Some JNull \<Rightarrow> Some None | Some (JObj p) \<Rightarrow> Some (Some p) | _ \<Rightarrow> None)"

definition create_request :: "body \<Rightarrow> create_job_request option" where
  "create_request b = (case b of
      Json (JObj d) \<Rightarrow>
        if fmdom d |\<subseteq>| {|''job_type'', ''payload''|}
        then (case (fmlookup d ''job_type'', valid_payload (fmlookup d ''payload'')) of
            (Some (JStr t), Some p) \<Rightarrow>
              if job_type_match t then Some \<lparr>cq_job_type = t, cq_payload = p\<rparr> else None
          | _ \<Rightarrow> None)
        else None
    | _ \<Rightarrow> None)"

definition validate :: "framework \<Rightarrow> body \<Rightarrow> api_exn + create_job_request" where
  "validate fw b = (case create_request b of
      None \<Rightarrow> Inl (Validation_Error (fw_explain fw b)) | Some r \<Rightarrow> Inr r)"

text \<open>The schemas of the second service.\<close>

fun job_type_match_v2 :: "string \<Rightarrow> bool" where
  "job_type_match_v2 [] = False"
| "job_type_match_v2 (c # cs) = (is_lower c \<and> match_rest 63 cs)"

definition create_request_v2 :: "body \<Rightarrow> create_job_request option" where
  "create_request_v2 b = (case b of
      Json (JObj d) \<Rightarrow>
        if fmdom d |\<subseteq>| {|''job_type'', ''payload''|}
        then (case (fmlookup d ''job_type'', valid_payload (fmlookup d ''payload'')) of
            (Some (JStr t), Some p) \<Rightarrow>
              if job_type_match_v2 t then Some \<lparr>cq_job_type = t, cq_payload = p\<rparr> else None
          | _ \<Rightarrow> None)
        else None
    | _ \<Rightarrow> None)"

definition validate_v2 :: "framework \<Rightarrow> body \<Rightarrow> api_exn + create_job_request" where
  "validate_v2 fw b = (case create_request_v2 b of
      None \<Rightarrow> Inl (Validation_Error (fw_explain fw b)) | Some r \<Rightarrow> Inr r)"

section \<open>State\<close>

record ('s, 'k, 'n, 'l) world =
  w_store :: 's
  w_jwks :: "'k jwks"
  w_net :: 'n
  w_limiter :: 'l

text \<open>What one request reads of the clocks, and the random id that is drawn for it.\<close>

record moment =
  mo_mono :: clock
  mo_wall :: time
  mo_created :: time
  mo_updated :: time
  mo_uuid :: string

type_synonym ('w, 'a) api_action = "'w \<Rightarrow> (api_exn + 'a) \<times> 'w"

definition try_bind :: "('w, 'a) api_action \<Rightarrow> ('a \<Rightarrow> ('w, 'b) api_action) \<Rightarrow> ('w, 'b) api_action" where
  "try_bind m f w = (case m w of (Inl e, w') \<Rightarrow> (Inl e, w') | (Inr x, w') \<Rightarrow> f x w')"

definition on_store :: "('s \<Rightarrow> (api_exn + 'a) \<times> 's) \<Rightarrow> (('s, 'k, 'n, 'l) world, 'a) api_action" where
  "on_store f w = (let (r, s) = f (w_store w) in (r, w\<lparr>w_store := s\<rparr>))"

section \<open>Dependencies\<close>

definition get_principal ::
  "(string \<Rightarrow> 'k jwks \<times> 'n \<Rightarrow> (api_exn + 'p) \<times> ('k jwks \<times> 'n)) \<Rightarrow> request \<Rightarrow> (('s, 'k, 'n, 'l) world, 'p) api_action" where
  "get_principal ver rq w = (case bearer_token (rq_headers rq) of
      None \<Rightarrow> (Inl (unauthorized ''missing bearer token''), w)
    | Some token \<Rightarrow> (let (r, (jw, n)) = ver token (w_jwks w, w_net w) in (r, w\<lparr>w_jwks := jw, w_net := n\<rparr>)))"

definition forbidden :: "string \<Rightarrow> api_exn" where
  "forbidden scope = Problem 403 ''Forbidden'' (Some (''requires scope: '' @ scope)) []"

definition require_write ::
  "(string \<Rightarrow> 'k jwks \<times> 'n \<Rightarrow> (api_exn + 'p principal_scheme) \<times> ('k jwks \<times> 'n)) \<Rightarrow> 'c settings_scheme \<Rightarrow> request \<Rightarrow>
   (('s, 'k, 'n, 'l) world, 'p principal_scheme) api_action" where
  "require_write ver cfg rq = try_bind (get_principal ver rq) (\<lambda>p w.
     if \<not> has_scope p (st_scope_write cfg) then (Inl (forbidden (st_scope_write cfg)), w) else (Inr p, w))"

definition require_read ::
  "(string \<Rightarrow> 'k jwks \<times> 'n \<Rightarrow> (api_exn + 'p principal_scheme) \<times> ('k jwks \<times> 'n)) \<Rightarrow> 'c settings_scheme \<Rightarrow> request \<Rightarrow>
   (('s, 'k, 'n, 'l) world, 'p principal_scheme) api_action" where
  "require_read ver cfg rq = try_bind (get_principal ver rq) (\<lambda>p w.
     if \<not> has_scope p (st_scope_read cfg) then (Inl (forbidden (st_scope_read cfg)), w) else (Inr p, w))"

definition can_read_job_created_by :: "principal_v1 \<Rightarrow> settings_v1 \<Rightarrow> string option \<Rightarrow> bool" where
  "can_read_job_created_by p cfg creator_sub =
     (if is_service p \<or> has_scope p (v1_scope_read_all cfg) then True
      else creator_sub \<noteq> None \<and> creator_sub = Some (pr_subject p))"

text \<open>The dependencies of the second service.\<close>

definition get_principal_v2 ::
  "(string \<Rightarrow> 'k jwks \<times> 'n \<Rightarrow> (api_exn + 'p) \<times> ('k jwks \<times> 'n)) \<Rightarrow> request \<Rightarrow> (('s, 'k, 'n, 'l) world, 'p) api_action" where
  "get_principal_v2 ver rq w = (case bearer_token (rq_headers rq) of
      None \<Rightarrow> (Inl (unauthorized_v2 ''missing bearer token''), w)
    | Some token \<Rightarrow> (let (r, (jw, n)) = ver token (w_jwks w, w_net w) in (r, w\<lparr>w_jwks := jw, w_net := n\<rparr>)))"

definition require_write_v2 ::
  "(string \<Rightarrow> 'k jwks \<times> 'n \<Rightarrow> (api_exn + principal) \<times> ('k jwks \<times> 'n)) \<Rightarrow> settings_v2 \<Rightarrow> request \<Rightarrow>
   (('s, 'k, 'n, 'l) world, principal) api_action" where
  "require_write_v2 ver cfg rq = try_bind (get_principal_v2 ver rq) (\<lambda>p w.
     if \<not> has_scope p (st_scope_write cfg) then (Inl (Problem 403 ''Forbidden'' (Some (''requires scope: '' @ st_scope_write cfg)) []), w) else (Inr p, w))"

definition require_read_v2 ::
  "(string \<Rightarrow> 'k jwks \<times> 'n \<Rightarrow> (api_exn + principal) \<times> ('k jwks \<times> 'n)) \<Rightarrow> settings_v2 \<Rightarrow> request \<Rightarrow>
   (('s, 'k, 'n, 'l) world, principal) api_action" where
  "require_read_v2 ver cfg rq = try_bind (get_principal_v2 ver rq) (\<lambda>p w.
     if \<not> has_scope p (st_scope_read cfg) then (Inl (Problem 403 ''Forbidden'' (Some (''requires scope: '' @ st_scope_read cfg)) []), w) else (Inr p, w))"

section \<open>Routes\<close>

definition quote :: string where
  "quote = [char_of (39 :: nat)]"

definition conflict :: "string \<Rightarrow> api_exn" where
  "conflict job_type =
     Problem 409 ''Conflict'' (Some (''an active job of type '' @ quote @ job_type @ quote @ '' already exists'')) []"

text \<open>The response models: the fields, and the document that FastAPI makes of them.\<close>

record create_job_response =
  rc_job_id :: int
  rc_status :: string

definition create_job_response_json :: "create_job_response \<Rightarrow> json" where
  "create_job_response_json r = JObj (fmap_of_list [(''job_id'', JInt (rc_job_id r)), (''status'', JStr (rc_status r))])"

record created_by =
  cb_sub :: "string option"
  cb_type :: "string option"
  cb_client_id :: "string option"

record job_response =
  jr_id :: int
  jr_job_type :: string
  jr_status :: string
  jr_input_payload :: payload
  jr_payload :: payload
  jr_attempts :: int
  jr_created_at :: time
  jr_updated_at :: time
  jr_created_by :: created_by

definition json_opt :: "string option \<Rightarrow> json" where
  "json_opt v = (case v of None \<Rightarrow> JNull | Some s \<Rightarrow> JStr s)"

definition created_by_json :: "created_by \<Rightarrow> json" where
  "created_by_json c = JObj (fmap_of_list
     [(''sub'', json_opt (cb_sub c)), (''type'', json_opt (cb_type c)), (''client_id'', json_opt (cb_client_id c))])"

definition job_response_json :: "framework \<Rightarrow> job_response \<Rightarrow> json" where
  "job_response_json fw r = JObj (fmap_of_list
     [(''id'', JInt (jr_id r)), (''job_type'', JStr (jr_job_type r)), (''status'', JStr (jr_status r)),
      (''input_payload'', JObj (jr_input_payload r)), (''payload'', JObj (jr_payload r)),
      (''attempts'', JInt (jr_attempts r)),
      (''created_at'', JStr (fw_isoformat fw (jr_created_at r))), (''updated_at'', JStr (fw_isoformat fw (jr_updated_at r))),
      (''created_by'', created_by_json (jr_created_by r))])"

definition created :: "int \<Rightarrow> response" where
  "created job_id = \<lparr>rs_status = 201,
     rs_headers = [(''content-type'', ''application/json''), (''location'', ''/v1/jobs/'' @ int_str job_id)],
     rs_body = create_job_response_json \<lparr>rc_job_id = job_id, rc_status = ''queued''\<rparr>\<rparr>"

definition create_job_v1 ::
  "'s api_store \<Rightarrow> moment \<Rightarrow> principal_v1 \<Rightarrow> create_job_request \<Rightarrow> (('s, 'k, 'n, 'l) world, response) api_action" where
  "create_job_v1 A mo p req =
     try_bind (on_store (as_enqueue A (mo_created mo) (mo_updated mo) (cq_job_type req)
         (Some (or_empty (cq_payload req))) (Some (to_creator_v1 p))))
       (\<lambda>job_id w. case job_id of
            None \<Rightarrow> (Inl (conflict (cq_job_type req)), w)
          | Some jid \<Rightarrow> (Inr (created jid), w))"

definition conflict_v2 :: "string \<Rightarrow> api_exn" where
  "conflict_v2 job_type =
     Problem 409 ''Conflict'' (Some (''an active job of type '' @ quote @ job_type @ quote @ '' already exists'')) []"

definition create_job_response_json_v2 :: "create_job_response \<Rightarrow> json" where
  "create_job_response_json_v2 r = JObj (fmap_of_list [(''job_id'', JInt (rc_job_id r)), (''status'', JStr (rc_status r))])"

definition created_v2 :: "int \<Rightarrow> response" where
  "created_v2 job_id = \<lparr>rs_status = 201,
     rs_headers = [(''content-type'', ''application/json''), (''location'', ''/v1/jobs/'' @ int_str job_id)],
     rs_body = create_job_response_json_v2 \<lparr>rc_job_id = job_id, rc_status = ''queued''\<rparr>\<rparr>"

definition create_job_v2 ::
  "'s api_store \<Rightarrow> moment \<Rightarrow> principal \<Rightarrow> create_job_request \<Rightarrow> (('s, 'k, 'n, 'l) world, response) api_action" where
  "create_job_v2 A mo p req =
     try_bind (on_store (as_enqueue A (mo_created mo) (mo_updated mo) (cq_job_type req)
         (Some (or_empty (cq_payload req))) (Some (to_creator_v2 p))))
       (\<lambda>job_id w. case job_id of
            None \<Rightarrow> (Inl (conflict_v2 (cq_job_type req)), w)
          | Some jid \<Rightarrow> (Inr (created_v2 jid), w))"

definition job_response_of :: "job \<Rightarrow> job_response" where
  "job_response_of b = (let created_by = j_created_by b in
     \<lparr>jr_id = j_id b, jr_job_type = j_job_type b, jr_status = status_str (j_status b),
      jr_input_payload = j_input_payload b, jr_payload = j_payload b, jr_attempts = j_attempts b,
      jr_created_at = j_created_at b, jr_updated_at = j_updated_at b,
      jr_created_by = \<lparr>cb_sub = (case created_by of None \<Rightarrow> None | Some c \<Rightarrow> cr_sub c),
        cb_type = (case created_by of None \<Rightarrow> None | Some c \<Rightarrow> cr_type c),
        cb_client_id = (case created_by of None \<Rightarrow> None | Some c \<Rightarrow> cr_client_id c)\<rparr>\<rparr>)"

definition to_response :: "framework \<Rightarrow> job \<Rightarrow> json" where
  "to_response fw b = job_response_json fw (job_response_of b)"

definition ok_json :: "json \<Rightarrow> response" where
  "ok_json v = json_response 200 v ''application/json'' []"

definition not_found :: "int \<Rightarrow> api_exn" where
  "not_found job_id = Problem 404 ''Not Found'' (Some (''job '' @ int_str job_id @ '' not found'')) []"

definition get_job_v1 ::
  "framework \<Rightarrow> 's api_store \<Rightarrow> settings_v1 \<Rightarrow> principal_v1 \<Rightarrow> int \<Rightarrow> (('s, 'k, 'n, 'l) world, response) api_action" where
  "get_job_v1 fw A cfg p job_id = try_bind (on_store (as_get_job A job_id)) (\<lambda>job w.
     let creator_sub = (case job of None \<Rightarrow> None
           | Some b \<Rightarrow> (case j_created_by b of None \<Rightarrow> None | Some c \<Rightarrow> cr_sub c))
     in case job of
         None \<Rightarrow> (Inl (not_found job_id), w)
       | Some b \<Rightarrow> if \<not> can_read_job_created_by p cfg creator_sub then (Inl (not_found job_id), w)
           else (Inr (ok_json (to_response fw b)), w))"

definition not_found_v2 :: "int \<Rightarrow> api_exn" where
  "not_found_v2 job_id = Problem 404 ''Not Found'' (Some (''job '' @ int_str job_id @ '' not found'')) []"

definition created_by_json_v2 :: "created_by \<Rightarrow> json" where
  "created_by_json_v2 c = JObj (fmap_of_list
     [(''sub'', json_opt (cb_sub c)), (''type'', json_opt (cb_type c)), (''client_id'', json_opt (cb_client_id c))])"

definition job_response_json_v2 :: "framework \<Rightarrow> job_response \<Rightarrow> json" where
  "job_response_json_v2 fw r = JObj (fmap_of_list
     [(''id'', JInt (jr_id r)), (''job_type'', JStr (jr_job_type r)), (''status'', JStr (jr_status r)),
      (''input_payload'', JObj (jr_input_payload r)), (''payload'', JObj (jr_payload r)),
      (''attempts'', JInt (jr_attempts r)),
      (''created_at'', JStr (fw_isoformat fw (jr_created_at r))), (''updated_at'', JStr (fw_isoformat fw (jr_updated_at r))),
      (''created_by'', created_by_json_v2 (jr_created_by r))])"

definition job_response_of_v2 :: "job \<Rightarrow> job_response" where
  "job_response_of_v2 b = (let created_by = j_created_by b in
     \<lparr>jr_id = j_id b, jr_job_type = j_job_type b, jr_status = status_str (j_status b),
      jr_input_payload = j_input_payload b, jr_payload = j_payload b, jr_attempts = j_attempts b,
      jr_created_at = j_created_at b, jr_updated_at = j_updated_at b,
      jr_created_by = \<lparr>cb_sub = (case created_by of None \<Rightarrow> None | Some c \<Rightarrow> cr_sub c),
        cb_type = (case created_by of None \<Rightarrow> None | Some c \<Rightarrow> cr_type c),
        cb_client_id = (case created_by of None \<Rightarrow> None | Some c \<Rightarrow> cr_client_id c)\<rparr>\<rparr>)"

definition to_response_v2 :: "framework \<Rightarrow> job \<Rightarrow> json" where
  "to_response_v2 fw b = job_response_json_v2 fw (job_response_of_v2 b)"

definition get_job_v2 :: "framework \<Rightarrow> 's api_store \<Rightarrow> int \<Rightarrow> (('s, 'k, 'n, 'l) world, response) api_action" where
  "get_job_v2 fw A job_id = try_bind (on_store (as_get_job A job_id)) (\<lambda>job w. case job of
      None \<Rightarrow> (Inl (not_found_v2 job_id), w)
    | Some b \<Rightarrow> (Inr (ok_json (to_response_v2 fw b)), w))"

definition healthz :: response where
  "healthz = ok_json (JObj (fmap_of_list [(''status'', JStr ''ok'')]))"

definition readyz :: "'s api_store \<Rightarrow> (('s, 'k, 'n, 'l) world, response) api_action" where
  "readyz A w = (case on_store (as_get_job A 0) w of
      (Inl _, w') \<Rightarrow> (Inl (Problem 503 ''Service Unavailable'' (Some ''datastore not reachable'') []), w')
    | (Inr _, w') \<Rightarrow> (Inr (ok_json (JObj (fmap_of_list [(''status'', JStr ''ready'')]))), w'))"

definition healthz_v2 :: response where
  "healthz_v2 = ok_json (JObj (fmap_of_list [(''status'', JStr ''ok'')]))"

definition readyz_v2 :: "'s api_store \<Rightarrow> (('s, 'k, 'n, 'l) world, response) api_action" where
  "readyz_v2 A w = (case on_store (as_get_job A 0) w of
      (Inl _, w') \<Rightarrow> (Inl (Problem 503 ''Service Unavailable'' (Some ''datastore not reachable'') []), w')
    | (Inr _, w') \<Rightarrow> (Inr (ok_json (JObj (fmap_of_list [(''status'', JStr ''ready'')]))), w'))"

section \<open>Routing\<close>

text \<open>The routes of a service: what a decorator names, with the path parameter still a string.\<close>

datatype target = Create_Job | Get_Job string | Healthz | Readyz | Elsewhere

text \<open>
  A path is matched with \<open>re.match\<close> against \<open>^...$\<close>, so one newline at its end does no harm. The parameter is \<open>[^/]+\<close>, which takes the
  newline along.
\<close>

definition path_is :: "string \<Rightarrow> string \<Rightarrow> bool" where
  "path_is p s = (take (length p) s = p \<and> at_dollar (drop (length p) s))"

definition route :: "request \<Rightarrow> target" where
  "route rq =
     (let jobs = ''/v1/jobs/''; rest = drop (length jobs) (rq_path rq)
      in if rq_method rq = ''POST'' \<and> path_is ''/v1/jobs'' (rq_path rq) then Create_Job
         else if rq_method rq = ''GET'' \<and> take (length jobs) (rq_path rq) = jobs \<and> rest \<noteq> [] \<and> CHR ''/'' \<notin> set rest
           then Get_Job rest
         else if rq_method rq = ''GET'' \<and> path_is ''/healthz'' (rq_path rq) then Healthz
         else if rq_method rq = ''GET'' \<and> path_is ''/readyz'' (rq_path rq) then Readyz
         else Elsewhere)"

definition create_endpoint ::
  "framework \<Rightarrow> request \<Rightarrow> ('w, 'p) api_action \<Rightarrow> ('p \<Rightarrow> create_job_request \<Rightarrow> ('w, response) api_action) \<Rightarrow> ('w, response) api_action" where
  "create_endpoint fw rq auth create w = (case rq_body rq of
      Bad_Json text \<Rightarrow> (Inl (Validation_Error text), w)
    | b \<Rightarrow> try_bind auth (\<lambda>p. try_bind (Pair (validate fw b)) (create p)) w)"

definition create_endpoint_v2 ::
  "framework \<Rightarrow> request \<Rightarrow> ('w, 'p) api_action \<Rightarrow> ('p \<Rightarrow> create_job_request \<Rightarrow> ('w, response) api_action) \<Rightarrow> ('w, response) api_action" where
  "create_endpoint_v2 fw rq auth create w = (case rq_body rq of
      Bad_Json text \<Rightarrow> (Inl (Validation_Error text), w)
    | b \<Rightarrow> try_bind auth (\<lambda>p. try_bind (Pair (validate_v2 fw b)) (create p)) w)"

definition get_endpoint ::
  "framework \<Rightarrow> string \<Rightarrow> ('w, 'p) api_action \<Rightarrow> ('p \<Rightarrow> int \<Rightarrow> ('w, response) api_action) \<Rightarrow> ('w, response) api_action" where
  "get_endpoint fw s auth get = try_bind auth (\<lambda>p. case fw_parse_id fw s of
      Inl text \<Rightarrow> Pair (Inl (Validation_Error text))
    | Inr job_id \<Rightarrow> get p job_id)"

text \<open>The routes with the verifier \<open>ver\<close> of the application, and with the one that is built from its settings.\<close>

definition endpoints_v1 ::
  "framework \<Rightarrow> (string \<Rightarrow> 'k jwks \<times> 'n \<Rightarrow> (api_exn + principal_v1) \<times> ('k jwks \<times> 'n)) \<Rightarrow> 's api_store \<Rightarrow> settings_v1 \<Rightarrow>
   moment \<Rightarrow> ('s, 'k, 'n, 'l) world asgi" where
  "endpoints_v1 fw ver A cfg mo rq = (case route rq of
      Create_Job \<Rightarrow> create_endpoint fw rq (require_write ver cfg rq) (create_job_v1 A mo)
    | Get_Job s \<Rightarrow> get_endpoint fw s (require_read ver cfg rq) (get_job_v1 fw A cfg)
    | Healthz \<Rightarrow> Pair (Inr healthz)
    | Readyz \<Rightarrow> readyz A
    | Elsewhere \<Rightarrow> Pair (fw_fallback fw rq))"

definition router_v1 ::
  "framework \<Rightarrow> ('k, 'n) idp \<Rightarrow> 's api_store \<Rightarrow> settings_v1 \<Rightarrow> moment \<Rightarrow> ('s, 'k, 'n, 'l) world asgi" where
  "router_v1 fw L A cfg mo = endpoints_v1 fw (verify_v1 L cfg (mo_mono mo) (mo_wall mo)) A cfg mo"

definition endpoints_v2 ::
  "framework \<Rightarrow> (string \<Rightarrow> 'k jwks \<times> 'n \<Rightarrow> (api_exn + principal) \<times> ('k jwks \<times> 'n)) \<Rightarrow> 's api_store \<Rightarrow> settings_v2 \<Rightarrow>
   moment \<Rightarrow> ('s, 'k, 'n, 'l) world asgi" where
  "endpoints_v2 fw ver A cfg mo rq = (case route rq of
      Create_Job \<Rightarrow> create_endpoint_v2 fw rq (require_write_v2 ver cfg rq) (create_job_v2 A mo)
    | Get_Job s \<Rightarrow> get_endpoint fw s (require_read_v2 ver cfg rq) (\<lambda>_. get_job_v2 fw A)
    | Healthz \<Rightarrow> Pair (Inr healthz_v2)
    | Readyz \<Rightarrow> readyz_v2 A
    | Elsewhere \<Rightarrow> Pair (fw_fallback fw rq))"

definition router_v2 ::
  "framework \<Rightarrow> ('k, 'n) idp \<Rightarrow> 's api_store \<Rightarrow> settings_v2 \<Rightarrow> moment \<Rightarrow> ('s, 'k, 'n, 'l) world asgi" where
  "router_v2 fw L A cfg mo = endpoints_v2 fw (verify_v2 L cfg (mo_mono mo) (mo_wall mo)) A cfg mo"

section \<open>The applications\<close>

record 'l limiter =
  lm_show :: "string \<Rightarrow> string"
  lm_hit :: "string \<Rightarrow> string \<Rightarrow> 'l \<Rightarrow> bool \<times> 'l"
  lm_sha256 :: "string \<Rightarrow> string"

definition hit_limiter :: "'l limiter \<Rightarrow> string \<Rightarrow> string \<Rightarrow> ('s, 'k, 'n, 'l) world \<Rightarrow> bool \<times> ('s, 'k, 'n, 'l) world" where
  "hit_limiter lm item key w = (let (ok, l) = lm_hit lm item key (w_limiter w) in (ok, w\<lparr>w_limiter := l\<rparr>))"

text \<open>Middleware that is added later is further out.\<close>

definition app_v1 ::
  "framework \<Rightarrow> ('k, 'n) idp \<Rightarrow> 'l limiter \<Rightarrow> (string list \<Rightarrow> ('s, 'k, 'n, 'l) world asgi \<Rightarrow> ('s, 'k, 'n, 'l) world asgi) \<Rightarrow>
   's api_store \<Rightarrow> settings_v1 \<Rightarrow> moment \<Rightarrow> ('s, 'k, 'n, 'l) world asgi" where
  "app_v1 fw L lm cors A cfg mo =
     (let routes = exception_middleware handle_v1 (router_v1 fw L A cfg mo);
          inner = (if v1_cors_allow_origins cfg \<noteq> [] then cors (v1_cors_allow_origins cfg) routes else routes);
          limited = rate_limit_middleware (v1_rate_limit_enabled cfg) (lm_show lm (v1_rate_limit cfg))
            (hit_limiter lm (v1_rate_limit cfg)) (lm_sha256 lm) inner
      in server_error (security_middleware (mo_uuid mo) limited))"

definition app_v2 ::
  "framework \<Rightarrow> ('k, 'n) idp \<Rightarrow> 's api_store \<Rightarrow> settings_v2 \<Rightarrow> moment \<Rightarrow> ('s, 'k, 'n, 'l) world asgi" where
  "app_v2 fw L A cfg mo =
     server_error_v2 (security_middleware_v2 (mo_uuid mo) (exception_middleware handle_v2 (router_v2 fw L A cfg mo)))"

section \<open>The second copy\<close>

lemma job_type_match_copy: "job_type_match_v2 s = job_type_match s"
  by (cases s) simp_all

lemma api_copies [simp]:
  "job_type_match_v2 = job_type_match" "create_request_v2 = create_request" "validate_v2 = validate"
  "get_principal_v2 = get_principal" "require_write_v2 = require_write" "require_read_v2 = require_read"
  "conflict_v2 = conflict" "created_v2 = created" "not_found_v2 = not_found" "to_response_v2 = to_response"
  "healthz_v2 = healthz" "readyz_v2 = readyz" "create_endpoint_v2 = create_endpoint"
proof -
  show jt: "job_type_match_v2 = job_type_match" by (simp add: fun_eq_iff job_type_match_copy)
  show req: "create_request_v2 = create_request" unfolding fun_eq_iff create_request_v2_def create_request_def jt by simp
  show val: "validate_v2 = validate" unfolding fun_eq_iff validate_v2_def validate_def req by simp
  show pr: "get_principal_v2 = get_principal" unfolding fun_eq_iff get_principal_v2_def get_principal_def auth_copies by simp
  show "require_write_v2 = require_write" unfolding fun_eq_iff require_write_v2_def require_write_def pr forbidden_def by simp
  show "require_read_v2 = require_read" unfolding fun_eq_iff require_read_v2_def require_read_def pr forbidden_def by simp
  show "conflict_v2 = conflict" unfolding fun_eq_iff conflict_v2_def conflict_def by simp
  show "created_v2 = created"
    unfolding fun_eq_iff created_v2_def created_def create_job_response_json_v2_def create_job_response_json_def by simp
  show "not_found_v2 = not_found" unfolding fun_eq_iff not_found_v2_def not_found_def by simp
  show "to_response_v2 = to_response"
    unfolding fun_eq_iff to_response_v2_def to_response_def job_response_json_v2_def job_response_json_def
      created_by_json_v2_def created_by_json_def job_response_of_v2_def job_response_of_def by simp
  show "healthz_v2 = healthz" unfolding healthz_v2_def healthz_def by simp
  show "readyz_v2 = readyz" unfolding fun_eq_iff readyz_v2_def readyz_def by simp
  show "create_endpoint_v2 = create_endpoint"
    unfolding fun_eq_iff create_endpoint_v2_def create_endpoint_def val by (simp split: body.split)
qed

text \<open>So the second service consists of the parts of the first, with its own reading of claims, its own reads, and its own handlers.\<close>

lemma create_job_v2_parts:
  "create_job_v2 A mo p req =
     try_bind (on_store (as_enqueue A (mo_created mo) (mo_updated mo) (cq_job_type req)
         (Some (or_empty (cq_payload req))) (Some (to_creator_v2 p))))
       (\<lambda>job_id w. case job_id of
            None \<Rightarrow> (Inl (conflict (cq_job_type req)), w)
          | Some jid \<Rightarrow> (Inr (created jid), w))"
  unfolding create_job_v2_def api_copies by simp

lemma get_job_v2_parts:
  "get_job_v2 fw A job_id = try_bind (on_store (as_get_job A job_id)) (\<lambda>job w. case job of
      None \<Rightarrow> (Inl (not_found job_id), w)
    | Some b \<Rightarrow> (Inr (ok_json (to_response fw b)), w))"
  unfolding get_job_v2_def api_copies by simp

lemma router_v2_parts:
  "router_v2 fw L A cfg mo rq =
     (let ver = verify_v2 L cfg (mo_mono mo) (mo_wall mo)
      in case route rq of
          Create_Job \<Rightarrow> create_endpoint fw rq (require_write ver cfg rq) (create_job_v2 A mo)
        | Get_Job s \<Rightarrow> get_endpoint fw s (require_read ver cfg rq) (\<lambda>_. get_job_v2 fw A)
        | Healthz \<Rightarrow> Pair (Inr healthz)
        | Readyz \<Rightarrow> readyz A
        | Elsewhere \<Rightarrow> Pair (fw_fallback fw rq))"
  unfolding router_v2_def endpoints_v2_def api_copies Let_def by simp

lemma app_v2_parts:
  "app_v2 fw L A cfg mo =
     server_error (security_middleware (mo_uuid mo) (exception_middleware handle_v2 (router_v2 fw L A cfg mo)))"
  unfolding app_v2_def http_copies by simp

end
