(* ===== verification/Api_Laws.thy ===== *)
theory Api_Laws
  imports Api
begin

text \<open>
  Laws of the HTTP services: what the layers around the routes make of a result, what the
  dependencies let through, and what the routes do to the store, proved once from the contract
  \<open>fallible_store\<close> for every store the services run on.
\<close>

section \<open>The layers around the routes\<close>

text \<open>What becomes of the result of a route on its way out.\<close>

definition answer ::
  "(string \<Rightarrow> api_exn \<Rightarrow> api_exn + response) \<Rightarrow> moment \<Rightarrow> request \<Rightarrow> api_exn + response \<Rightarrow> api_exn + response" where
  "answer handle mo rq raw =
     (case (case raw of Inl e \<Rightarrow> handle (rq_path rq) e | Inr r \<Rightarrow> Inr r) of
        Inl e \<Rightarrow> handle_unexpected (rq_path rq) e
      | Inr r \<Rightarrow> Inr (send_wrapper (last_header (rq_headers rq) REQUEST_ID_HEADER (mo_uuid mo)) r))"

lemma layers_answer:
  "server_error (security_middleware (mo_uuid mo) (exception_middleware handle app)) rq w =
     apfst (answer handle mo rq) (app rq w)"
  by (simp add: server_error_def exception_middleware_def security_middleware_def answer_def Let_def
      split: prod.split sum.split)

lemma app_v2_answer: "app_v2 fw L A cfg mo rq w = apfst (answer handle_v2 mo rq) (router_v2 fw L A cfg mo rq w)"
  unfolding app_v2_parts by (rule layers_answer)

definition too_many :: "string \<Rightarrow> string \<Rightarrow> response" where
  "too_many item path = json_response 429 (JObj (fmap_of_list
     [(''type'', JStr ''about:blank''), (''title'', JStr ''Too Many Requests''), (''status'', JInt 429),
      (''detail'', JStr (''rate limit exceeded: '' @ item)), (''instance'', JStr path)])) PROBLEM_MEDIA_TYPE []"

text \<open>The limiter's verdict on a request, and the state after it.\<close>

definition admitted :: "'l limiter \<Rightarrow> settings_v1 \<Rightarrow> request \<Rightarrow> ('s, 'k, 'n, 'l) world \<Rightarrow> bool \<times> ('s, 'k, 'n, 'l) world" where
  "admitted lm cfg rq w = (if v1_rate_limit_enabled cfg
     then hit_limiter lm (v1_rate_limit cfg) (limit_key (lm_sha256 lm) rq) w else (True, w))"

lemma admitted_world:
  "admitted lm cfg rq w = (ok, w1) \<Longrightarrow> w_store w1 = w_store w \<and> w_jwks w1 = w_jwks w \<and> w_net w1 = w_net w"
  by (auto simp: admitted_def hit_limiter_def Let_def split: if_splits prod.splits)

lemma rate_limit_admitted:
  assumes "admitted lm cfg rq w = (ok, w1)"
  shows "rate_limit_middleware (v1_rate_limit_enabled cfg) item (hit_limiter lm (v1_rate_limit cfg)) (lm_sha256 lm) app rq w =
    (if ok then app rq w1 else (Inr (too_many item (rq_path rq)), w1))"
proof (cases "v1_rate_limit_enabled cfg")
  case True
  with assms have "hit_limiter lm (v1_rate_limit cfg) (limit_key (lm_sha256 lm) rq) w = (ok, w1)"
    by (simp add: admitted_def)
  with True show ?thesis by (simp add: rate_limit_middleware_def too_many_def)
next
  case False
  with assms have "ok" "w1 = w" by (simp_all add: admitted_def)
  with False show ?thesis by (simp add: rate_limit_middleware_def)
qed

text \<open>A request over the limit stops there; one within it reaches the routes when no CORS middleware is configured.\<close>

lemma app_v1_limited:
  assumes "admitted lm cfg rq w = (False, w1)"
  shows "app_v1 fw L lm cors A cfg mo rq w =
    (Inr (send_wrapper (last_header (rq_headers rq) REQUEST_ID_HEADER (mo_uuid mo))
        (too_many (lm_show lm (v1_rate_limit cfg)) (rq_path rq))), w1)"
  by (simp add: app_v1_def server_error_def exception_middleware_def security_middleware_def
      rate_limit_admitted [OF assms] Let_def)

lemma app_v1_routed:
  assumes "v1_cors_allow_origins cfg = []" "admitted lm cfg rq w = (True, w1)"
  shows "app_v1 fw L lm cors A cfg mo rq w = apfst (answer handle_v1 mo rq) (router_v1 fw L A cfg mo rq w1)"
  unfolding layers_answer [symmetric]
  by (simp add: app_v1_def assms(1) server_error_def exception_middleware_def security_middleware_def
      rate_limit_admitted [OF assms(2)] Let_def)

lemma app_v1_cases:
  assumes "v1_cors_allow_origins cfg = []" "app_v1 fw L lm cors A cfg mo rq w = (res, w')"
  obtains (over_limit) "admitted lm cfg rq w = (False, w')" "res = Inr (send_wrapper
        (last_header (rq_headers rq) REQUEST_ID_HEADER (mo_uuid mo)) (too_many (lm_show lm (v1_rate_limit cfg)) (rq_path rq)))"
    | (routed) w1 raw where "admitted lm cfg rq w = (True, w1)" "router_v1 fw L A cfg mo rq w1 = (raw, w')"
        "res = answer handle_v1 mo rq raw"
proof -
  obtain ok w1 where adm: "admitted lm cfg rq w = (ok, w1)" by force
  show thesis
  proof (cases ok)
    case True
    obtain raw u where run: "router_v1 fw L A cfg mo rq w1 = (raw, u)" by force
    have "app_v1 fw L lm cors A cfg mo rq w = apfst (answer handle_v1 mo rq) (router_v1 fw L A cfg mo rq w1)"
      using adm True by (intro app_v1_routed [OF assms(1)]) simp
    with assms(2) run adm True that(2) show thesis by simp
  next
    case False
    with adm have "admitted lm cfg rq w = (False, w1)" by simp
    from app_v1_limited [OF this, of fw L cors A mo] assms(2) this that(1) show thesis by simp
  qed
qed

section \<open>Actions\<close>

lemma try_bind_cases:
  assumes "try_bind m f w = (r, w')"
  obtains e where "m w = (Inl e, w')" "r = Inl e" | x w1 where "m w = (Inr x, w1)" "f x w1 = (r, w')"
  using assms by (auto simp: try_bind_def split: prod.splits sum.splits)

lemma try_bind_Inr: "m w = (Inr x, w1) \<Longrightarrow> try_bind m f w = f x w1"
  by (simp add: try_bind_def)

lemma try_bind_Inl: "m w = (Inl e, w1) \<Longrightarrow> try_bind m f w = (Inl e, w1)"
  by (simp add: try_bind_def)

lemma on_store_eq: "on_store f w = (r, w') \<longleftrightarrow> (\<exists>s. f (w_store w) = (r, s) \<and> w' = w\<lparr>w_store := s\<rparr>)"
  by (auto simp: on_store_def split: prod.splits)

section \<open>Authentication\<close>

text \<open>The bearer token of a request is one that PyJWT accepts with a key of the cache, giving the claims.\<close>

definition token_accepted ::
  "('k, 'n) idp \<Rightarrow> 'c settings_scheme \<Rightarrow> time \<Rightarrow> 'k jwks \<Rightarrow> request \<Rightarrow> payload \<Rightarrow> bool" where
  "token_accepted L cfg now jw rq claims \<longleftrightarrow> (\<exists>token header key.
     bearer_token (rq_headers rq) = Some token \<and> unverified_header L token = Some header \<and>
     jw_keys jw (key_id header) = Some key \<and>
     jwt_decode L now token key (st_algorithms cfg) (st_audience cfg) (st_issuer cfg) (st_leeway cfg)
       [''exp'', ''iss'', ''aud''] = Some claims)"

text \<open>Authentication touches neither the store nor the limiter.\<close>

lemma get_principal_world:
  "get_principal ver rq w = (r, w') \<Longrightarrow> w_store w' = w_store w \<and> w_limiter w' = w_limiter w"
  by (auto simp: get_principal_def Let_def split: option.splits prod.splits)

lemma get_principal_Inr:
  assumes "get_principal (verify tp L cfg clk now) rq w = (Inr p, w')"
  shows "\<exists>claims. token_accepted L cfg now (w_jwks w') rq claims \<and> tp claims = Inr p"
proof -
  from assms obtain token jw n where "bearer_token (rq_headers rq) = Some token"
    and ver: "verify tp L cfg clk now token (w_jwks w, w_net w) = (Inr p, (jw, n))" and "w_jwks w' = jw"
    by (auto simp: get_principal_def Let_def split: option.splits prod.splits)
  with verify_Inr [OF ver] show ?thesis unfolding token_accepted_def by (metis fst_conv)
qed

lemma get_principal_Inl:
  assumes "get_principal ver rq w = (Inl e, w')" "\<And>token st x st'. ver token st = (Inl x, st') \<Longrightarrow> auth_failure x"
  shows "auth_failure e"
  using assms by (auto simp: get_principal_def Let_def split: option.splits prod.splits)

text \<open>A scope guard: it lets through exactly the callers that are authenticated and hold the scope.\<close>

definition scope_guard ::
  "(string \<Rightarrow> 'k jwks \<times> 'n \<Rightarrow> (api_exn + 'p principal_scheme) \<times> ('k jwks \<times> 'n)) \<Rightarrow> string \<Rightarrow> request \<Rightarrow>
   (('s, 'k, 'n, 'l) world, 'p principal_scheme) api_action" where
  "scope_guard ver scope rq = try_bind (get_principal ver rq) (\<lambda>p w.
     if \<not> has_scope p scope then (Inl (forbidden scope), w) else (Inr p, w))"

lemma require_is_guard:
  "require_write ver cfg rq = scope_guard ver (st_scope_write cfg) rq"
  "require_read ver cfg rq = scope_guard ver (st_scope_read cfg) rq"
  by (simp_all add: require_write_def require_read_def scope_guard_def)

lemma scope_guard_Inr:
  "scope_guard ver scope rq w = (Inr p, w') \<longleftrightarrow> get_principal ver rq w = (Inr p, w') \<and> has_scope p scope"
  by (auto simp: scope_guard_def try_bind_def split: prod.splits sum.splits if_splits)

lemma scope_guard_world:
  "scope_guard ver scope rq w = (r, w') \<Longrightarrow> w_store w' = w_store w \<and> w_limiter w' = w_limiter w"
  by (auto simp: scope_guard_def elim!: try_bind_cases dest: get_principal_world split: if_splits)

definition guard_failure :: "string \<Rightarrow> api_exn \<Rightarrow> bool" where
  "guard_failure scope e \<longleftrightarrow> auth_failure e \<or> e = forbidden scope"

lemma scope_guard_Inl:
  assumes "scope_guard ver scope rq w = (Inl e, w')" "\<And>token st x st'. ver token st = (Inl x, st') \<Longrightarrow> auth_failure x"
  shows "guard_failure scope e"
  using assms by (auto simp: scope_guard_def guard_failure_def elim!: try_bind_cases dest: get_principal_Inl split: if_splits)

section \<open>Creating a job\<close>

text \<open>The two services create a job in the same way, with the creator that each makes of its principal.\<close>

definition submit ::
  "'s api_store \<Rightarrow> moment \<Rightarrow> creator \<Rightarrow> create_job_request \<Rightarrow> (('s, 'k, 'n, 'l) world, response) api_action" where
  "submit A mo c req =
     try_bind (on_store (as_enqueue A (mo_created mo) (mo_updated mo) (cq_job_type req)
         (Some (or_empty (cq_payload req))) (Some c)))
       (\<lambda>job_id w. case job_id of
            None \<Rightarrow> (Inl (conflict (cq_job_type req)), w)
          | Some jid \<Rightarrow> (Inr (created jid), w))"

lemma create_job_submit:
  "create_job_v1 A mo = (\<lambda>p. submit A mo (to_creator_v1 p))"
  "create_job_v2 A mo = (\<lambda>q. submit A mo (to_creator_v2 q))"
  by (simp_all add: create_job_v1_def create_job_v2_parts submit_def fun_eq_iff)

text \<open>The tables after a request that was answered by 201: the job and its message are new, the rest is as it was.\<close>

definition created_in :: "moment \<Rightarrow> creator \<Rightarrow> create_job_request \<Rightarrow> int \<Rightarrow> astate \<Rightarrow> astate \<Rightarrow> bool" where
  "created_in mo c req jid a a' \<longleftrightarrow> \<not> a_active a (cq_job_type req) \<and> a_jobs a jid = None \<and>
     (\<exists>k v. v \<in> {mo_created mo, mo_updated mo} \<and> (\<forall>k' \<in> dom (a_outbox a). k' < k) \<and>
        a' = spec_enqueue jid k (mo_created mo) v (cq_job_type req) (Some (or_empty (cq_payload req))) (Some c) a)"

context fallible_store
begin

lemma submit_cases:
  assumes "valid (w_store w)" "submit A mo c req w = (res, w')"
  shows "valid (w_store w') \<and> w_jwks w' = w_jwks w \<and>
    (case res of
       Inr r \<Rightarrow> \<exists>jid. r = created jid \<and> created_in mo c req jid (view (w_store w)) (view (w_store w'))
     | Inl e \<Rightarrow> view (w_store w') = view (w_store w) \<and>
         (store_failure e \<or> e = conflict (cq_job_type req) \<and> a_active (view (w_store w)) (cq_job_type req)))"
proof -
  let ?call = "as_enqueue A (mo_created mo) (mo_updated mo) (cq_job_type req) (Some (or_empty (cq_payload req))) (Some c)"
  obtain r s where call: "?call (w_store w) = (r, s)" by force
  note law = enqueue_law [OF assms(1) call]
  show ?thesis
  proof (cases r)
    case (Inl e)
    with call have "submit A mo c req w = (Inl e, w\<lparr>w_store := s\<rparr>)"
      by (simp add: submit_def try_bind_def on_store_def)
    with assms(2) law Inl show ?thesis by (auto simp: enqueue_answer_def)
  next
    case (Inr j)
    show ?thesis
    proof (cases j)
      case None
      with call Inr have "submit A mo c req w = (Inl (conflict (cq_job_type req)), w\<lparr>w_store := s\<rparr>)"
        by (simp add: submit_def try_bind_def on_store_def)
      with assms(2) law Inr None show ?thesis by (auto simp: enqueue_answer_def)
    next
      case (Some jid)
      with call Inr have "submit A mo c req w = (Inr (created jid), w\<lparr>w_store := s\<rparr>)"
        by (simp add: submit_def try_bind_def on_store_def)
      moreover have "created_in mo c req jid (view (w_store w)) (view s)"
        using law Inr Some by (simp add: enqueue_answer_def created_in_def)
      ultimately show ?thesis using assms(2) law by auto
    qed
  qed
qed

end

section \<open>Refusals\<close>

definition unreachable :: api_exn where
  "unreachable = Problem 503 ''Service Unavailable'' (Some ''datastore not reachable'') []"

text \<open>What the routes of the services raise.\<close>

definition refusal :: "api_exn \<Rightarrow> bool" where
  "refusal e \<longleftrightarrow> auth_failure e \<or> store_failure e \<or> (\<exists>t. e = Validation_Error t) \<or> (\<exists>scope. e = forbidden scope) \<or>
     (\<exists>jt. e = conflict jt) \<or> (\<exists>j. e = not_found j) \<or> e = unreachable"

lemma refusal_intros [intro, simp]:
  "auth_failure e \<Longrightarrow> refusal e" "store_failure e \<Longrightarrow> refusal e" "guard_failure scope e \<Longrightarrow> refusal e"
  "refusal (Validation_Error t)" "refusal (forbidden scope)" "refusal (conflict jt)" "refusal (not_found j)"
  "refusal unreachable"
  by (auto simp: refusal_def guard_failure_def)

lemmas refusal_forms = unauthorized_def forbidden_def conflict_def not_found_def unreachable_def BEARER_CHALLENGE_def

lemma lower_names [simp]:
  "py_lower ''WWW-Authenticate'' = ''www-authenticate''" "py_lower ''Retry-After'' = ''retry-after''"
  by code_simp+

lemma refusal_cases:
  assumes "refusal e"
  obtains st title d hs where "e = Problem st title d hs" "400 \<le> st" "st < 600"
      "''content-type'' \<notin> set (map (py_lower \<circ> fst) hs)"
    | t where "e = Validation_Error t" | "e = Circuit_Open" | x where "e = Unexpected x" | v where "e = Untyped v"
proof -
  have "(\<exists>st title d hs. e = Problem st title d hs \<and> 400 \<le> st \<and> st < 600 \<and>
      ''content-type'' \<notin> set (map (py_lower \<circ> fst) hs)) \<or> (\<exists>t. e = Validation_Error t) \<or> e = Circuit_Open \<or>
    (\<exists>x. e = Unexpected x) \<or> (\<exists>v. e = Untyped v)"
    using assms unfolding refusal_def auth_failure_def store_failure_def refusal_forms by fastforce
  with that show thesis by blast
qed

text \<open>A refusal reaches the client as a problem document, in either service.\<close>

lemma refusal_answer:
  assumes "refusal e" "handle = handle_v1 \<or> handle = handle_v2"
  shows "(\<exists>v. e = Untyped v \<and> answer handle mo rq (Inl e) = Inl e) \<or>
    (\<exists>r. answer handle mo rq (Inl e) = Inr r \<and> is_problem (rq_path rq) r \<and> 400 \<le> rs_status r \<and> rs_status r < 600)"
  using assms(1)
proof (cases rule: refusal_cases)
  case (1 st title d hs)
  then show ?thesis using assms(2)
    by (auto simp: answer_def handle_v1_def handle_v2_def intro!: send_wrapper_is_problem problem_is_problem)
next
  case 3
  then show ?thesis using assms(2)
    by (auto simp: answer_def handle_v1_def handle_v2_def handle_unexpected_def
        intro!: send_wrapper_is_problem problem_is_problem)
qed (use assms(2) in \<open>auto simp: answer_def handle_v1_def handle_v2_def handle_unexpected_def
        intro!: send_wrapper_is_problem problem_is_problem\<close>)

section \<open>Requests\<close>

text \<open>The creators that a request may record: those of an accepted token with the scope for writing.\<close>

definition may_create_v1 ::
  "('k, 'n) idp \<Rightarrow> settings_v1 \<Rightarrow> time \<Rightarrow> 'k jwks \<Rightarrow> request \<Rightarrow> creator \<Rightarrow> bool" where
  "may_create_v1 L cfg now jw rq c \<longleftrightarrow> (\<exists>claims p. token_accepted L cfg now jw rq claims \<and>
     to_principal_v1 (py_repr L) cfg claims = Inr p \<and> has_scope p (st_scope_write cfg) \<and> c = to_creator_v1 p)"

definition may_create_v2 ::
  "('k, 'n) idp \<Rightarrow> settings_v2 \<Rightarrow> time \<Rightarrow> 'k jwks \<Rightarrow> request \<Rightarrow> creator \<Rightarrow> bool" where
  "may_create_v2 L cfg now jw rq c \<longleftrightarrow> (\<exists>claims p. token_accepted L cfg now jw rq claims \<and>
     to_principal_v2 (py_repr L) claims = Inr p \<and> has_scope p (st_scope_write cfg) \<and> c = to_creator_v2 p)"

text \<open>The outcome of a request at the routes: only a request to create a job that is answered by 201 changes the tables.\<close>

definition routed ::
  "framework \<Rightarrow> moment \<Rightarrow> request \<Rightarrow> (creator \<Rightarrow> bool) \<Rightarrow> astate \<Rightarrow> astate \<Rightarrow> api_exn + response \<Rightarrow> bool" where
  "routed fw mo rq may a a' res \<longleftrightarrow>
     (if route rq = Elsewhere then res = fw_fallback fw rq \<and> a' = a
      else case res of
          Inl e \<Rightarrow> refusal e \<and> a' = a
        | Inr r \<Rightarrow> if route rq = Create_Job
            then \<exists>c req jid. may c \<and> create_request (rq_body rq) = Some req \<and> r = created jid \<and> created_in mo c req jid a a'
            else rs_status r = 200 \<and> a' = a)"

lemma guarded_refusal:
  assumes "scope_guard (verify tp L cfg clk now) scope rq w = (Inl e, w')"
    and "claims_reader tp"
  shows "refusal e"
  by (rule refusal_intros(3), rule scope_guard_Inl [OF assms(1)]) (erule verify_Inl, rule assms(2))

lemma ok_json_status [simp]: "rs_status (ok_json v) = 200"
  by (simp add: ok_json_def json_response_def)

context fallible_store
begin

lemma create_endpoint_law:
  assumes s: "valid (w_store w)"
    and run: "create_endpoint fw rq (scope_guard (verify tp L cfg clk now) scope rq) (\<lambda>p. submit A mo (cr p)) w = (res, w')"
    and tp: "claims_reader tp"
  shows "valid (w_store w') \<and> (case res of
      Inl e \<Rightarrow> refusal e \<and> view (w_store w') = view (w_store w)
    | Inr r \<Rightarrow> \<exists>claims p req jid. token_accepted L cfg now (w_jwks w') rq claims \<and> tp claims = Inr p \<and> has_scope p scope \<and>
        create_request (rq_body rq) = Some req \<and> r = created jid \<and>
        created_in mo (cr p) req jid (view (w_store w)) (view (w_store w')))"
proof (cases "\<exists>msg. rq_body rq = Bad_Json msg")
  case True
  with run s show ?thesis by (auto simp: create_endpoint_def)
next
  case False
  let ?auth = "scope_guard (verify tp L cfg clk now) scope rq"
  let ?run = "\<lambda>p. try_bind (Pair (validate fw (rq_body rq))) (submit A mo (cr p))"
  from run False have "try_bind ?auth ?run w = (res, w')" by (cases "rq_body rq") (auto simp: create_endpoint_def)
  then show ?thesis
  proof (cases rule: try_bind_cases)
    case (1 e)
    with s scope_guard_world [OF 1(1)] guarded_refusal [OF 1(1) tp] show ?thesis by simp
  next
    case (2 p w1)
    note world = scope_guard_world [OF 2(1)]
    have gp: "get_principal (verify tp L cfg clk now) rq w = (Inr p, w1)" and "has_scope p scope"
      using 2(1) by (simp_all add: scope_guard_Inr)
    with get_principal_Inr [OF gp] obtain claims where
      p: "token_accepted L cfg now (w_jwks w1) rq claims" "tp claims = Inr p" "has_scope p scope" by blast
    show ?thesis
    proof (cases "create_request (rq_body rq)")
      case None
      with 2(2) have "res = Inl (Validation_Error (fw_explain fw (rq_body rq)))" "w' = w1"
        by (simp_all add: validate_def try_bind_def)
      then show ?thesis using s world by simp
    next
      case (Some req)
      with 2(2) have sub: "submit A mo (cr p) req w1 = (res, w')" by (simp add: validate_def try_bind_def)
      have "valid (w_store w1)" using s world by simp
      from submit_cases [OF this sub] world p Some show ?thesis by (cases res) auto
    qed
  qed
qed

text \<open>Reading leaves the tables alone.\<close>

lemma read_law:
  assumes "valid (w_store w)" "try_bind (on_store (as_get_job A j)) f w = (res, w')"
    and "\<And>b u. case f b u of (Inl e, u') \<Rightarrow> refusal e \<and> u' = u | (Inr r, u') \<Rightarrow> rs_status r = 200 \<and> u' = u"
  shows "valid (w_store w') \<and> view (w_store w') = view (w_store w) \<and>
    (case res of Inl e \<Rightarrow> refusal e | Inr r \<Rightarrow> rs_status r = 200)"
  using assms(2)
proof (cases rule: try_bind_cases)
  case (1 e)
  then obtain s where "as_get_job A j (w_store w) = (Inl e, s)" "w' = w\<lparr>w_store := s\<rparr>" by (auto simp: on_store_eq)
  with get_job_fails [OF assms(1)] 1(2) show ?thesis by auto
next
  case (2 b w1)
  then obtain s where "as_get_job A j (w_store w) = (Inr b, s)" "w1 = w\<lparr>w_store := s\<rparr>" by (auto simp: on_store_eq)
  with get_job_law [OF assms(1), of j "Inr b" s] assms(3) [where b = b and u = w1] 2(2) show ?thesis
    by (auto split: sum.splits)
qed

lemma get_endpoint_law:
  assumes s: "valid (w_store w)"
    and run: "get_endpoint fw str (scope_guard (verify tp L cfg clk now) scope rq) get w = (res, w')"
    and tp: "claims_reader tp"
    and get: "\<And>p j u r u'. valid (w_store u) \<Longrightarrow> get p j u = (r, u') \<Longrightarrow> valid (w_store u') \<and>
      view (w_store u') = view (w_store u) \<and> (case r of Inl e \<Rightarrow> refusal e | Inr r \<Rightarrow> rs_status r = 200)"
  shows "valid (w_store w') \<and> view (w_store w') = view (w_store w) \<and>
    (case res of Inl e \<Rightarrow> refusal e | Inr r \<Rightarrow> rs_status r = 200)"
  using run unfolding get_endpoint_def
proof (cases rule: try_bind_cases)
  case (1 e)
  with s scope_guard_world [OF 1(1)] guarded_refusal [OF 1(1) tp] show ?thesis by simp
next
  case (2 p w1)
  note world = scope_guard_world [OF 2(1)]
  show ?thesis
  proof (cases "fw_parse_id fw str")
    case (Inl msg)
    with 2(2) s world show ?thesis by auto
  next
    case (Inr j)
    with 2(2) get [of w1 p j res w'] s world show ?thesis by simp
  qed
qed

lemma readyz_law:
  assumes s: "valid (w_store w)" and run: "readyz A w = (res, w')"
  shows "valid (w_store w') \<and> view (w_store w') = view (w_store w) \<and>
    (case res of Inl e \<Rightarrow> refusal e | Inr r \<Rightarrow> rs_status r = 200)"
proof -
  obtain r s' where call: "as_get_job A 0 (w_store w) = (r, s')" by force
  note law = get_job_law [OF s call]
  show ?thesis
  proof (cases r)
    case (Inl e)
    with run call have "res = Inl unreachable" "w' = w\<lparr>w_store := s'\<rparr>"
      by (auto simp: readyz_def on_store_def unreachable_def)
    with law show ?thesis by simp
  next
    case (Inr b)
    with run call have "rs_status (projr res) = 200" "isl res = False" "w' = w\<lparr>w_store := s'\<rparr>"
      by (auto simp: readyz_def on_store_def)
    with law show ?thesis by (auto split: sum.split)
  qed
qed

lemma get_job_routes_law:
  assumes "valid (w_store w)"
  shows "get_job_v1 fw A cfg p j w = (res, w') \<Longrightarrow> valid (w_store w') \<and> view (w_store w') = view (w_store w) \<and>
      (case res of Inl e \<Rightarrow> refusal e | Inr r \<Rightarrow> rs_status r = 200)"
    and "get_job_v2 fw A j w = (res, w') \<Longrightarrow> valid (w_store w') \<and> view (w_store w') = view (w_store w) \<and>
      (case res of Inl e \<Rightarrow> refusal e | Inr r \<Rightarrow> rs_status r = 200)"
  unfolding get_job_v1_def get_job_v2_parts
  by (erule read_law [OF assms]; simp add: Let_def split: option.split)+

end

section \<open>Job types\<close>

text \<open>What the message of the validator asks for: 1 to 64 characters, a lower-case letter first.\<close>

definition job_type_ok :: "string \<Rightarrow> bool" where
  "job_type_ok s \<longleftrightarrow> s \<noteq> [] \<and> is_lower (hd s) \<and> list_all type_char s \<and> length s \<le> 64"

lemma newline_no_type_char: "\<not> type_char (char_of (10 :: nat))"
  by code_simp

lemma lower_type_char: "is_lower c \<Longrightarrow> type_char c"
  by (simp add: type_char_def)

lemma match_rest_iff:
  "match_rest n s \<longleftrightarrow> list_all type_char s \<and> length s \<le> n \<or>
     (\<exists>u. s = u @ [char_of (10 :: nat)] \<and> list_all type_char u \<and> length u \<le> n)"
proof (induction n s rule: match_rest.induct)
  case (3 n c cs)
  have *: "(\<exists>u. c # cs = u @ [char_of (10 :: nat)] \<and> list_all type_char u \<and> length u \<le> Suc n) \<longleftrightarrow>
    c # cs = [char_of (10 :: nat)] \<or>
    type_char c \<and> (\<exists>u. cs = u @ [char_of (10 :: nat)] \<and> list_all type_char u \<and> length u \<le> n)"
    by (auto simp: Cons_eq_append_conv)
  show ?case unfolding * using 3 newline_no_type_char by (auto simp: at_dollar_def)
qed (auto simp: at_dollar_def)

text \<open>
  C36. The check of a job type, in both services, accepts exactly the well-formed types and, since \<open>$\<close> also holds before a final newline,
  each of them with one newline after it.
\<close>

theorem job_type_match_exact:
  "(job_type_match v \<longleftrightarrow> job_type_ok v \<or> (\<exists>u. v = u @ [char_of (10 :: nat)] \<and> job_type_ok u)) \<and>
   (job_type_match_v2 v \<longleftrightarrow> job_type_ok v \<or> (\<exists>u. v = u @ [char_of (10 :: nat)] \<and> job_type_ok u))"
proof (cases v)
  case (Cons c cs)
  have nl: "\<not> is_lower (char_of (10 :: nat))" using newline_no_type_char lower_type_char by blast
  have "(\<exists>u. c # cs = u @ [char_of (10 :: nat)] \<and> job_type_ok u) \<longleftrightarrow>
    is_lower c \<and> (\<exists>u. cs = u @ [char_of (10 :: nat)] \<and> list_all type_char u \<and> length u \<le> 63)"
    using lower_type_char by (auto simp: Cons_eq_append_conv job_type_ok_def)
  with Cons lower_type_char show ?thesis by (auto simp: match_rest_iff job_type_ok_def)
qed (simp add: job_type_ok_def)

end
