(* ===== verification/Front_Door.thy ===== *)
theory Front_Door
  imports Api_Laws
begin

text \<open>
  The properties of the HTTP services as a whole: who may write, who may read what, what errors and
  headers look like, how the two services relate.
\<close>

section \<open>Every request\<close>

text \<open>The routes of either service, with its guards, its way to create a job and its way to read one.\<close>

definition routes ::
  "framework \<Rightarrow> 's api_store \<Rightarrow> request \<Rightarrow> (('s, 'k, 'n, 'l) world, 'p) api_action \<Rightarrow> (('s, 'k, 'n, 'l) world, 'p) api_action \<Rightarrow>
   ('p \<Rightarrow> create_job_request \<Rightarrow> (('s, 'k, 'n, 'l) world, response) api_action) \<Rightarrow>
   ('p \<Rightarrow> int \<Rightarrow> (('s, 'k, 'n, 'l) world, response) api_action) \<Rightarrow> (('s, 'k, 'n, 'l) world, response) api_action" where
  "routes fw A rq writer reader create get = (case route rq of
      Create_Job \<Rightarrow> create_endpoint fw rq writer create
    | Get_Job s \<Rightarrow> get_endpoint fw s reader get
    | Healthz \<Rightarrow> Pair (Inr healthz)
    | Readyz \<Rightarrow> readyz A
    | Elsewhere \<Rightarrow> Pair (fw_fallback fw rq))"

abbreviation "verify_of_v1 L cfg mo \<equiv> verify (to_principal_v1 (py_repr L) cfg) L cfg (mo_mono mo) (mo_wall mo)"
abbreviation "verify_of_v2 L cfg mo \<equiv> verify (to_principal_v2 (py_repr L)) L cfg (mo_mono mo) (mo_wall mo)"

lemma router_routes:
  "router_v1 fw L A cfg mo rq = routes fw A rq (scope_guard (verify_of_v1 L cfg mo) (st_scope_write cfg) rq)
     (scope_guard (verify_of_v1 L cfg mo) (st_scope_read cfg) rq) (\<lambda>p. submit A mo (to_creator_v1 p)) (get_job_v1 fw A cfg)"
  "router_v2 fw L A cfg' mo rq = routes fw A rq (scope_guard (verify_of_v2 L cfg' mo) (st_scope_write cfg') rq)
     (scope_guard (verify_of_v2 L cfg' mo) (st_scope_read cfg') rq) (\<lambda>p. submit A mo (to_creator_v2 p))
     (\<lambda>_. get_job_v2 fw A)"
  by (simp_all add: router_v1_def endpoints_v1_def router_v2_parts routes_def require_is_guard verify_v1_def verify_v2_copy
      create_job_submit Let_def split: target.split)

context fallible_store
begin

lemma routes_law:
  assumes s: "valid (w_store w)"
    and run: "routes fw A rq (scope_guard (verify tp L cfg clk now) scw rq) (scope_guard (verify tp L cfg clk now) scr rq)
      (\<lambda>p. submit A mo (cr p)) get w = (res, w')"
    and tp: "claims_reader tp"
    and get: "\<And>p j u r u'. valid (w_store u) \<Longrightarrow> get p j u = (r, u') \<Longrightarrow> valid (w_store u') \<and>
      view (w_store u') = view (w_store u) \<and> (case r of Inl e \<Rightarrow> refusal e | Inr r \<Rightarrow> rs_status r = 200)"
  shows "valid (w_store w') \<and> routed fw mo rq
    (\<lambda>c. \<exists>claims p. token_accepted L cfg now (w_jwks w') rq claims \<and> tp claims = Inr p \<and> has_scope p scw \<and> c = cr p)
    (view (w_store w)) (view (w_store w')) res"
proof (cases "route rq")
  case Create_Job
  with run have "create_endpoint fw rq (scope_guard (verify tp L cfg clk now) scw rq) (\<lambda>p. submit A mo (cr p)) w = (res, w')"
    by (simp add: routes_def)
  from create_endpoint_law [OF s this tp] Create_Job show ?thesis unfolding routed_def by (cases res) (auto 0 4)
next
  case (Get_Job str)
  with run have "get_endpoint fw str (scope_guard (verify tp L cfg clk now) scr rq) get w = (res, w')"
    by (simp add: routes_def)
  from get_endpoint_law [OF s this tp get] Get_Job show ?thesis unfolding routed_def by (cases res) auto
next
  case Readyz
  with run have "readyz A w = (res, w')" by (simp add: routes_def)
  from readyz_law [OF s this] Readyz show ?thesis unfolding routed_def by (cases res) auto
qed (use run s in \<open>auto simp: routes_def routed_def healthz_def\<close>)

lemma router_v1_law:
  assumes "valid (w_store w)" "router_v1 fw L A cfg mo rq w = (res, w')"
  shows "valid (w_store w') \<and> routed fw mo rq (may_create_v1 L cfg (mo_wall mo) (w_jwks w') rq)
    (view (w_store w)) (view (w_store w')) res"
  using routes_law [OF assms(1) assms(2) [unfolded router_routes] to_principal_reader(1) get_job_routes_law(1)]
  unfolding may_create_v1_def .

lemma router_v2_law:
  assumes "valid (w_store w)" "router_v2 fw L A cfg mo rq w = (res, w')"
  shows "valid (w_store w') \<and> routed fw mo rq (may_create_v2 L cfg (mo_wall mo) (w_jwks w') rq)
    (view (w_store w)) (view (w_store w')) res"
  using routes_law [OF assms(1) assms(2) [unfolded router_routes] to_principal_reader(2) get_job_routes_law(2)]
  unfolding may_create_v2_def .

end

section \<open>A concrete deployment\<close>

text \<open>
  Instances of the parameters for the witnesses, beside the issuer of the authentication: a framework that answers
  unknown requests with 404, and a limiter that counts.
\<close>

definition demo_fw :: framework where
  "demo_fw = \<lparr>fw_fallback = (\<lambda>_. Inl (Http_Exception 404 (Some ''Not Found'') [])), fw_explain = (\<lambda>_. ''invalid''),
     fw_parse_id = (\<lambda>s. map_sum (\<lambda>_. ''no integer'') id (py_int s)), fw_isoformat = int_str\<rparr>"

definition demo_limiter :: "nat limiter" where
  "demo_limiter = \<lparr>lm_show = id, lm_hit = (\<lambda>_ _ n. (n < 60, Suc n)), lm_sha256 = id\<rparr>"

definition demo_v1 :: settings_v1 where
  "demo_v1 = projr (settings_v1_from_env (\<lambda>_. Inr 3600) [''PORT'' \<mapsto> ''80''])"

definition demo_v2 :: settings_v2 where
  "demo_v2 = projr (settings_v2_from_env (\<lambda>_. Inr 3600) [''PORT'' \<mapsto> ''80''])"

definition demo_moment :: moment where
  "demo_moment = \<lparr>mo_mono = int, mo_wall = 5, mo_created = 7, mo_updated = 7, mo_uuid = ''0123abcd''\<rparr>"

definition demo_world :: "'s \<Rightarrow> ('s, unit, nat, nat) world" where
  "demo_world s = \<lparr>w_store = s, w_jwks = jwks_init ''jwks'' 3600, w_net = 0, w_limiter = 0\<rparr>"

definition demo_post :: "string \<Rightarrow> string \<Rightarrow> request" where
  "demo_post token job_type = \<lparr>rq_method = ''POST'', rq_path = ''/v1/jobs'',
     rq_headers = [(''authorization'', ''Bearer '' @ token)], rq_client = None,
     rq_body = Json (JObj (fmap_of_list [(''job_type'', JStr job_type)]))\<rparr>"

definition demo_get :: "string \<Rightarrow> string \<Rightarrow> request" where
  "demo_get token path = \<lparr>rq_method = ''GET'', rq_path = path, rq_headers = [(''authorization'', ''Bearer '' @ token)],
     rq_client = None, rq_body = No_Body\<rparr>"

definition no_cors :: "string list \<Rightarrow> 'w asgi \<Rightarrow> 'w asgi" where
  "no_cors origins app = app"

definition no_fault :: "unit \<Rightarrow> exn option \<times> unit" where
  "no_fault f = (None, f)"

abbreviation "demo_app_v1 \<equiv> app_v1 demo_fw demo_idp demo_limiter no_cors (pg_api_store no_fault) demo_v1 demo_moment"

section \<open>Writing\<close>

text \<open>What a request did to the tables, seen from the response that the client gets.\<close>

definition accounted ::
  "moment \<Rightarrow> request \<Rightarrow> (creator \<Rightarrow> bool) \<Rightarrow> astate \<Rightarrow> astate \<Rightarrow> api_exn + response \<Rightarrow> bool" where
  "accounted mo rq may a a' res \<longleftrightarrow>
     a' = a \<and> (route rq = Create_Job \<longrightarrow> (\<forall>r. res = Inr r \<longrightarrow> 400 \<le> rs_status r)) \<or>
     (\<exists>c req jid r. route rq = Create_Job \<and> may c \<and> create_request (rq_body rq) = Some req \<and>
        created_in mo c req jid a a' \<and> res = Inr r \<and> rs_status r = 201 \<and> rs_body r = rs_body (created jid) \<and>
        (''location'', ''/v1/jobs/'' @ int_str jid) \<in> set (rs_headers r))"

lemma accounted_unchanged: "400 \<le> rs_status r \<Longrightarrow> accounted mo rq may a a (Inr r)"
  by (simp add: accounted_def)

lemma accounted_rejected:
  "accounted mo rq may a a' res \<Longrightarrow> (\<And>r. res = Inr r \<Longrightarrow> rs_status r \<noteq> 201) \<Longrightarrow> a' = a"
  by (auto simp: accounted_def)

lemma routed_accounted:
  assumes "routed fw mo rq may a a' raw" "handle = handle_v1 \<or> handle = handle_v2"
  shows "accounted mo rq may a a' (answer handle mo rq raw)"
proof (cases "route rq = Create_Job")
  case False
  then have "a' = a" using assms(1) by (auto simp: routed_def split: if_splits sum.splits)
  with False show ?thesis by (simp add: accounted_def)
next
  case create: True
  show ?thesis
  proof (cases raw)
    case (Inl e)
    with assms(1) create have "refusal e" "a' = a" by (simp_all add: routed_def)
    with refusal_answer [OF this(1) assms(2), of mo rq] Inl show ?thesis by (auto simp: accounted_def)
  next
    case (Inr r)
    with assms(1) create obtain c req jid where new: "may c" "create_request (rq_body rq) = Some req" "r = created jid"
      "created_in mo c req jid a a'" by (auto simp: routed_def)
    let ?r = "send_wrapper (last_header (rq_headers rq) REQUEST_ID_HEADER (mo_uuid mo)) r"
    have "answer handle mo rq raw = Inr ?r" by (simp add: answer_def Inr)
    moreover have "rs_status ?r = 201" "rs_body ?r = rs_body (created jid)" using new(3) by (simp_all add: created_def)
    moreover have "(''location'', ''/v1/jobs/'' @ int_str jid) \<in> set (rs_headers ?r)"
      by (rule send_wrapper_keeps) (simp add: new(3) created_def)
    ultimately show ?thesis unfolding accounted_def using create new by blast
  qed
qed

context fallible_store
begin

lemma app_v1_accounted:
  assumes "valid (w_store w)" "v1_cors_allow_origins cfg = []" "app_v1 fw L lm cors A cfg mo rq w = (res, w')"
  shows "valid (w_store w') \<and> accounted mo rq (may_create_v1 L cfg (mo_wall mo) (w_jwks w') rq)
    (view (w_store w)) (view (w_store w')) res"
proof -
  from assms(2,3) show ?thesis
  proof (cases rule: app_v1_cases)
    case over_limit
    with admitted_world [OF over_limit(1)] assms(1) show ?thesis
      by (auto simp: too_many_def json_response_def intro!: accounted_unchanged)
  next
    case (routed w1 raw)
    from router_v1_law [OF _ routed(2)] assms(1) admitted_world [OF routed(1)]
    have "valid (w_store w')" "routed fw mo rq (may_create_v1 L cfg (mo_wall mo) (w_jwks w') rq)
      (view (w_store w)) (view (w_store w')) raw" by simp_all
    with routed_accounted [of fw mo rq _ _ _ raw handle_v1] show ?thesis unfolding routed(3) by blast
  qed
qed

lemma app_v2_accounted:
  assumes "valid (w_store w)" "app_v2 fw L A cfg mo rq w = (res, w')"
  shows "valid (w_store w') \<and> accounted mo rq (may_create_v2 L cfg (mo_wall mo) (w_jwks w') rq)
    (view (w_store w)) (view (w_store w')) res"
proof -
  obtain raw u where run: "router_v2 fw L A cfg mo rq w = (raw, u)" by force
  with assms(2) have out: "res = answer handle_v2 mo rq raw" "w' = u" by (simp_all add: app_v2_answer)
  from router_v2_law [OF assms(1) run] routed_accounted [of fw mo rq _ _ _ raw handle_v2]
  show ?thesis unfolding out by blast
qed

end

text \<open>
  C30. Nothing is written through the first service (without CORS origins, the default) without authority. Whatever the request, the limiter, the
  identity provider and the failures of the database: either the tables are as before, and a request to create a
  job was then answered by an error, or the request was one to create a job, its bearer token was accepted with a key
  of the cache, its claims carry the scope for writing, its body is valid, and the answer 201 with the location of the job
  stands for exactly one new queued job with its message, recorded with the creator that the token names.
\<close>

theorem v1_writes_need_authority:
  assumes "pg_inv (snd (w_store w))" "v1_cors_allow_origins cfg = []"
    and "app_v1 fw L lm cors (pg_api_store fault) cfg mo rq w = (res, w')"
  shows "pg_inv (snd (w_store w')) \<and> accounted mo rq (may_create_v1 L cfg (mo_wall mo) (w_jwks w') rq)
    (pg_abs (snd (w_store w))) (pg_abs (snd (w_store w'))) res"
  using pg_api.app_v1_accounted [OF _ assms(2,3)] assms(1) by simp

theorem v1_writes_need_authority_witness:
  "\<exists>c req jid. may_create_v1 demo_idp demo_v1 5
      (w_jwks (snd (demo_app_v1 (demo_post ''svc'' ''boom'') (demo_world ((), demo_db))))) (demo_post ''svc'' ''boom'') c \<and>
    created_in demo_moment c req jid (pg_abs demo_db)
      (pg_abs (snd (w_store (snd (demo_app_v1 (demo_post ''svc'' ''boom'') (demo_world ((), demo_db)))))))"
proof -
  let ?w = "demo_world ((), demo_db)" and ?rq = "demo_post ''svc'' ''boom''"
  let ?r = "demo_app_v1 ?rq ?w"
  have eq: "?r = (fst ?r, snd ?r)" by simp
  have inv: "pg_inv (snd (w_store ?w))" by (simp add: demo_world_def pg_inv_demo)
  have "v1_cors_allow_origins demo_v1 = []" by code_simp
  note applied = v1_writes_need_authority [OF inv this eq]
  have "route ?rq = Create_Job" "\<not> isl (fst ?r)" "rs_status (projr (fst ?r)) = 201" by code_simp+
  then have "\<not> (route ?rq = Create_Job \<longrightarrow> (\<forall>r. fst ?r = Inr r \<longrightarrow> 400 \<le> rs_status r))"
    by (cases "fst ?r") simp_all
  with applied show ?thesis unfolding accounted_def by (auto simp: demo_world_def demo_moment_def)
qed

text \<open>A breaker for the witnesses: it counts failures and lets nothing through from the third one on.\<close>

definition demo_breaker :: "nat breaker" where
  "demo_breaker = \<lparr>br_admit = (\<lambda>n. (n < 3, n)), br_success = (\<lambda>_. 0), br_failure = (\<lambda>n. (n = 2, Suc n)),
     br_current_state = (\<lambda>n. if n < 3 then ''closed'' else ''open'')\<rparr>"

abbreviation "demo_app_v2 \<equiv> app_v2 demo_fw demo_idp (guarded_api_store demo_breaker no_fault) demo_v2 demo_moment"

text \<open>
  C31. The same holds for the second service on Postgres behind the circuit breaker, for every breaker and every
  failure of the database: in particular a call that the breaker refuses and a call that fails and opens it leave the tables
  alone and are answered by an error.
\<close>

theorem v2_writes_need_authority:
  assumes "pg_inv (snd (snd (w_store w)))"
    and "app_v2 fw L (guarded_api_store lib fault) cfg mo rq w = (res, w')"
  shows "pg_inv (snd (snd (w_store w'))) \<and> accounted mo rq (may_create_v2 L cfg (mo_wall mo) (w_jwks w') rq)
    (pg_abs (snd (snd (w_store w)))) (pg_abs (snd (snd (w_store w')))) res"
  using guarded_api.app_v2_accounted [OF _ assms(2)] assms(1) by simp

theorem v2_writes_need_authority_witness:
  "pg_abs (snd (snd (w_store (snd (demo_app_v2 (demo_post ''ann'' ''boom'') (demo_world (0, (), demo_db))))))) = pg_abs demo_db \<and>
   map_sum id rs_status (fst (demo_app_v2 (demo_post ''ann'' ''boom'') (demo_world (0, (), demo_db)))) = Inr 403"
proof -
  let ?w = "demo_world (0 :: nat, (), demo_db)" and ?rq = "demo_post ''ann'' ''boom''"
  let ?r = "demo_app_v2 ?rq ?w"
  have eq: "?r = (fst ?r, snd ?r)" by simp
  have inv: "pg_inv (snd (snd (w_store ?w)))" by (simp add: demo_world_def pg_inv_demo)
  have st: "map_sum id rs_status (fst ?r) = Inr 403" by code_simp
  have "pg_abs (snd (snd (w_store (snd ?r)))) = pg_abs (snd (snd (w_store ?w)))"
    by (rule accounted_rejected [OF conjunct2 [OF v2_writes_need_authority [OF inv eq]]]) (use st in auto)
  with st show ?thesis by (simp add: demo_world_def)
qed

section \<open>The open circuit\<close>

text \<open>
  C38. An open circuit sheds load. When the breaker admits no call, a request to the second service that reaches the store
  (an authorized, valid request to create a job, or an authorized one to read one) is answered by 503 with the header \<open>Retry-After\<close>,
  and neither the database nor the source of its failures is touched: only the breaker, the key cache and the
  network may have changed.
\<close>

theorem open_circuit_sheds_load:
  assumes "br_admit lib (fst (w_store w)) = (False, b)"
    and "app_v2 fw L (guarded_api_store lib fault) cfg mo rq w = (res, w')"
    and "route rq = Create_Job \<and> require_write (verify_v2 L cfg (mo_mono mo) (mo_wall mo)) cfg rq w = (Inr p, w1) \<and>
          create_request (rq_body rq) = Some req \<or>
        route rq = Get_Job s \<and> require_read (verify_v2 L cfg (mo_mono mo) (mo_wall mo)) cfg rq w = (Inr p, w1) \<and>
          fw_parse_id fw s = Inr j"
  shows "w' = w1\<lparr>w_store := (b, snd (w_store w))\<rparr> \<and> (\<exists>r. res = Inr r \<and> rs_status r = 503 \<and> is_problem (rq_path rq) r \<and>
    (''retry-after'', ''30'') \<in> set (rs_headers r))"
proof -
  let ?A = "guarded_api_store lib fault"
  have st: "w_store w1 = w_store w"
    using assms(3) scope_guard_world unfolding require_is_guard by blast
  have call: "breaker_call lib f (w_store w1) = (Inl Circuit_Open, (b, snd (w_store w)))" for f :: "_ \<Rightarrow> (api_exn + 'z) \<times> _"
    using assms(1) by (simp add: breaker_call_def st)
  have "router_v2 fw L ?A cfg mo rq w = (Inl Circuit_Open, w1\<lparr>w_store := (b, snd (w_store w))\<rparr>)"
    using assms(3)
  proof (elim disjE conjE)
    assume *: "route rq = Create_Job" "require_write (verify_v2 L cfg (mo_mono mo) (mo_wall mo)) cfg rq w = (Inr p, w1)"
      "create_request (rq_body rq) = Some req"
    then have "router_v2 fw L ?A cfg mo rq w = create_job_v2 ?A mo p req w1"
      by (cases "rq_body rq") (auto simp: router_v2_parts create_endpoint_def try_bind_def validate_def create_request_def)
    then show ?thesis
      by (simp add: create_job_v2_parts try_bind_def on_store_def call guarded_api_store_def circuit_breaker_store_def)
  next
    assume *: "route rq = Get_Job s" "require_read (verify_v2 L cfg (mo_mono mo) (mo_wall mo)) cfg rq w = (Inr p, w1)"
      "fw_parse_id fw s = Inr j"
    then have "router_v2 fw L ?A cfg mo rq w = get_job_v2 fw ?A j w1"
      by (simp add: router_v2_parts get_endpoint_def try_bind_def)
    then show ?thesis
      by (simp add: get_job_v2_parts try_bind_def on_store_def call guarded_api_store_def circuit_breaker_store_def)
  qed
  with assms(2) have out: "w' = w1\<lparr>w_store := (b, snd (w_store w))\<rparr>" "res = answer handle_v2 mo rq (Inl Circuit_Open)"
    by (simp_all add: app_v2_answer)
  show ?thesis unfolding out
    by (auto simp: answer_def handle_v2_def problem_headers
        intro!: send_wrapper_keeps send_wrapper_is_problem problem_is_problem)
qed

theorem open_circuit_sheds_load_witness:
  "\<exists>r. fst (demo_app_v2 (demo_post ''svc'' ''boom'') (demo_world (3, (), demo_db))) = Inr r \<and> rs_status r = 503"
proof -
  let ?w = "demo_world (3 :: nat, (), demo_db)" and ?rq = "demo_post ''svc'' ''boom''"
  let ?r = "demo_app_v2 ?rq ?w"
  let ?g = "require_write (verify_v2 demo_idp demo_v2 (mo_mono demo_moment) (mo_wall demo_moment)) demo_v2 ?rq ?w"
  have open_circuit: "br_admit demo_breaker (fst (w_store ?w)) = (False, 3)"
    by (simp add: demo_breaker_def demo_world_def)
  have eq: "?r = (fst ?r, snd ?r)" by simp
  have "\<not> isl (fst ?g)" by code_simp
  then have "?g = (Inr (projr (fst ?g)), snd ?g)" by (cases "fst ?g") (simp_all add: prod_eq_iff)
  moreover have "route ?rq = Create_Job" "create_request (rq_body ?rq) = Some \<lparr>cq_job_type = ''boom'', cq_payload = None\<rparr>"
    by code_simp+
  ultimately show ?thesis using open_circuit_sheds_load [OF open_circuit eq] by blast
qed

section \<open>Responses\<close>

text \<open>The headers that the middleware owes to a response: every security header, and the request id last.\<close>

definition secured :: "moment \<Rightarrow> request \<Rightarrow> response \<Rightarrow> bool" where
  "secured mo rq r \<longleftrightarrow> (\<forall>(k, _) \<in> set SECURITY_HEADERS. \<exists>(k', _) \<in> set (rs_headers r). py_lower k' = k) \<and>
     last (rs_headers r) = (REQUEST_ID_HEADER, last_header (rq_headers rq) REQUEST_ID_HEADER (mo_uuid mo))"

lemma security_names_lower: "(k, v) \<in> set SECURITY_HEADERS \<Longrightarrow> py_lower k = k"
proof -
  have "list_all (\<lambda>(k, _). py_lower k = k) SECURITY_HEADERS" by code_simp
  then show "(k, v) \<in> set SECURITY_HEADERS \<Longrightarrow> py_lower k = k" by (auto simp: list_all_iff)
qed

lemma send_wrapper_secured:
  "secured mo rq (send_wrapper (last_header (rq_headers rq) REQUEST_ID_HEADER (mo_uuid mo)) r)"
proof -
  let ?r = "send_wrapper (last_header (rq_headers rq) REQUEST_ID_HEADER (mo_uuid mo)) r"
  have "\<exists>(k', _) \<in> set (rs_headers ?r). py_lower k' = k" if kv: "(k, v) \<in> set SECURITY_HEADERS" for k v
  proof (cases "k \<in> set (map (py_lower \<circ> fst) (rs_headers r))")
    case True
    then show ?thesis by (auto simp: send_wrapper_def Let_def)
  next
    case False
    with kv have "(k, v) \<in> set (rs_headers ?r)" by (auto simp: send_wrapper_def Let_def)
    then show ?thesis using security_names_lower [OF kv] by blast
  qed
  then show ?thesis unfolding secured_def by (auto simp: send_wrapper_def Let_def)
qed

abbreviation "internal_error path \<equiv> problem 500 ''Internal server error'' None path []"

lemma internal_error_not_secured: "\<not> secured mo rq (internal_error path)"
  by (simp add: secured_def problem_headers REQUEST_ID_HEADER_def)

lemma answer_secured:
  assumes "answer handle mo rq raw = Inr r"
  shows "secured mo rq r \<longleftrightarrow> r \<noteq> internal_error (rq_path rq)"
proof -
  have "secured mo rq r \<or> r = internal_error (rq_path rq)"
    using assms by (auto simp: answer_def handle_unexpected_def send_wrapper_secured split: sum.splits api_exn.splits)
  with internal_error_not_secured show ?thesis by blast
qed

text \<open>What a client may receive: a problem document, an answer of a route, or a page of the framework.\<close>

definition well_formed :: "framework \<Rightarrow> request \<Rightarrow> response \<Rightarrow> bool" where
  "well_formed fw rq r \<longleftrightarrow> is_problem (rq_path rq) r \<or> rs_status r \<in> {200, 201} \<and> route rq \<noteq> Elsewhere \<or>
     (\<exists>r'. fw_fallback fw rq = Inr r' \<and> rs_status r = rs_status r' \<and> rs_body r = rs_body r')"

text \<open>The framework raises nothing but its own exceptions, and they do not set the content type.\<close>

definition fallback_ok :: "framework \<Rightarrow> request \<Rightarrow> bool" where
  "fallback_ok fw rq = (case fw_fallback fw rq of
      Inl (Http_Exception st d hs) \<Rightarrow> ''content-type'' \<notin> set (map (py_lower \<circ> fst) hs)
    | Inl _ \<Rightarrow> False | Inr _ \<Rightarrow> True)"

lemma routed_well_formed:
  assumes "routed fw mo rq may a a' raw" "fallback_ok fw rq" "handle = handle_v1 \<or> handle = handle_v2"
  shows "case answer handle mo rq raw of Inl e \<Rightarrow> \<exists>v. e = Untyped v | Inr r \<Rightarrow> well_formed fw rq r"
proof (cases "route rq = Elsewhere")
  case True
  with assms(1) have raw: "raw = fw_fallback fw rq" by (simp add: routed_def)
  show ?thesis
  proof (cases raw)
    case (Inl e)
    with raw have "fw_fallback fw rq = Inl e" by simp
    with assms(2) obtain st d hs where "e = Http_Exception st d hs" "''content-type'' \<notin> set (map (py_lower \<circ> fst) hs)"
      by (cases e) (auto simp: fallback_ok_def)
    with Inl assms(3) show ?thesis
      by (auto simp: answer_def handle_v1_def handle_v2_def well_formed_def intro!: send_wrapper_is_problem problem_is_problem)
  next
    case (Inr r)
    with raw have "fw_fallback fw rq = Inr r" by simp
    then show ?thesis by (auto simp: Inr answer_def well_formed_def)
  qed
next
  case False
  show ?thesis
  proof (cases raw)
    case (Inl e)
    with assms(1) False have "refusal e" by (simp add: routed_def)
    from refusal_answer [OF this assms(3), of mo rq] Inl show ?thesis by (auto simp: well_formed_def)
  next
    case (Inr r)
    with assms(1) False have "rs_status r \<in> {200, 201}"
      by (auto simp: routed_def created_def split: if_splits)
    with Inr False show ?thesis by (auto simp: answer_def well_formed_def)
  qed
qed

lemma too_many_problem: "is_problem path (too_many item path)"
  by (auto simp: is_problem_def too_many_def json_response_def fmlookup_of_list fmdom_fmap_of_list fset_of_list_elem)

text \<open>
  C34. The shape of every answer, of either service (the first without CORS origins, the default) and for every store state, breaker and failure of the database. An
  answer is a problem document whose status is the status of the response and whose instance is the path, an answer of a
  route with status 200 or 201, or a page of the framework. It carries every security header and the request id, the one that the
  client sent or the fresh one, as its last header, with exactly one exception: the answer to an unexpected error lacks
  them. That answer is the same for all such errors, so it shows nothing of them.
\<close>

theorem responses_are_well_formed:
  assumes "pg_inv (snd (snd (w_store w)))" "v1_cors_allow_origins cfg = []" "fallback_ok fw rq"
    and "app_v1 fw L lm cors (guarded_api_store lib fault) cfg mo rq w = (res, w') \<or>
      app_v2 fw L (guarded_api_store lib fault) cfg' mo rq w = (res, w')"
  shows "case res of Inl e \<Rightarrow> \<exists>v. e = Untyped v
    | Inr r \<Rightarrow> well_formed fw rq r \<and> (secured mo rq r \<longleftrightarrow> r \<noteq> internal_error (rq_path rq))"
  using assms(4)
proof
  assume v2: "app_v2 fw L (guarded_api_store lib fault) cfg' mo rq w = (res, w')"
  obtain raw u where run: "router_v2 fw L (guarded_api_store lib fault) cfg' mo rq w = (raw, u)" by force
  with v2 have "res = answer handle_v2 mo rq raw" by (simp add: app_v2_answer)
  with routed_well_formed [OF conjunct2 [OF guarded_api.router_v2_law [OF _ run]] assms(3)] answer_secured assms(1)
  show ?thesis by (fastforce split: sum.splits)
next
  assume v1: "app_v1 fw L lm cors (guarded_api_store lib fault) cfg mo rq w = (res, w')"
  from assms(2) v1 show ?thesis
  proof (cases rule: app_v1_cases)
    case over_limit
    let ?r = "send_wrapper (last_header (rq_headers rq) REQUEST_ID_HEADER (mo_uuid mo))
      (too_many (lm_show lm (v1_rate_limit cfg)) (rq_path rq))"
    have "well_formed fw rq ?r" by (simp add: well_formed_def send_wrapper_is_problem too_many_problem)
    moreover have "secured mo rq ?r" by (rule send_wrapper_secured)
    ultimately show ?thesis using over_limit(2) internal_error_not_secured by auto
  next
    case (routed w1 raw)
    with routed_well_formed [OF conjunct2 [OF guarded_api.router_v1_law [OF _ routed(2)]] assms(3)] answer_secured
      assms(1) admitted_world [OF routed(1)] show ?thesis by (fastforce split: sum.splits)
  qed
qed

theorem responses_are_well_formed_witness:
  "\<exists>r. fst (demo_app_v2 (demo_get ''svc'' ''/nowhere'') (demo_world (0, (), demo_db))) = Inr r \<and> rs_status r = 404 \<and>
     is_problem ''/nowhere'' r \<and> secured demo_moment (demo_get ''svc'' ''/nowhere'') r"
proof -
  let ?w = "demo_world (0 :: nat, (), demo_db)" and ?rq = "demo_get ''svc'' ''/nowhere''"
  let ?r = "demo_app_v2 ?rq ?w"
  have inv: "pg_inv (snd (snd (w_store ?w)))" by (simp add: demo_world_def pg_inv_demo)
  have cors: "v1_cors_allow_origins demo_v1 = []" by code_simp
  have fb: "fallback_ok demo_fw ?rq" by (simp add: fallback_ok_def demo_fw_def)
  have run: "?r = (fst ?r, snd ?r)" by simp
  note shape = responses_are_well_formed [OF inv cors fb disjI2, OF run]
  have "\<not> isl (fst ?r)" and st: "rs_status (projr (fst ?r)) = 404" and ne: "route ?rq = Elsewhere" by code_simp+
  then obtain r where r: "fst ?r = Inr r" by (cases "fst ?r") simp_all
  with shape st have wf: "well_formed demo_fw ?rq r" and sec: "secured demo_moment ?rq r"
    by auto
  from wf ne have "is_problem (rq_path ?rq) r" by (simp add: well_formed_def demo_fw_def)
  with r st sec show ?thesis by (auto simp: demo_get_def)
qed

section \<open>Rate limiting\<close>

text \<open>
  C39. A request over the limit stops at the limiter, whatever stands behind it: the answer is 429, a problem document with the
  headers of every answer, and nothing but the limiter's count has changed. The count belongs to the bearer token alone: another
  spelling of the scheme, spaces around the token, another client address, path or body do not escape it.
\<close>

theorem rate_limit_stops:
  assumes "v1_rate_limit_enabled cfg"
    and "lm_hit lm (v1_rate_limit cfg) (limit_key (lm_sha256 lm) rq) (w_limiter w) = (False, l)"
    and "app_v1 fw L lm cors A cfg mo rq w = (res, w')"
  shows "w' = w\<lparr>w_limiter := l\<rparr> \<and>
    (\<exists>r. res = Inr r \<and> rs_status r = 429 \<and> is_problem (rq_path rq) r \<and> secured mo rq r) \<and>
    (\<forall>rq' token. bearer_token (rq_headers rq) = Some token \<and> bearer_token (rq_headers rq') = Some token \<longrightarrow>
       limit_key (lm_sha256 lm) rq' = limit_key (lm_sha256 lm) rq)"
proof -
  have "admitted lm cfg rq w = (False, w\<lparr>w_limiter := l\<rparr>)"
    using assms(1,2) by (simp add: admitted_def hit_limiter_def)
  from app_v1_limited [OF this, of fw L cors A mo] assms(3)
  have out: "w' = w\<lparr>w_limiter := l\<rparr>" "res = Inr (send_wrapper (last_header (rq_headers rq) REQUEST_ID_HEADER (mo_uuid mo))
      (too_many (lm_show lm (v1_rate_limit cfg)) (rq_path rq)))" by simp_all
  have "rs_status (too_many (lm_show lm (v1_rate_limit cfg)) (rq_path rq)) = 429"
    by (simp add: too_many_def json_response_def)
  then show ?thesis unfolding out
    by (auto simp: limit_key_def intro!: send_wrapper_is_problem too_many_problem send_wrapper_secured)
qed

theorem rate_limit_stops_witness:
  "map_sum id rs_status (fst (demo_app_v1 (demo_post ''svc'' ''boom'') (demo_world ((), demo_db)\<lparr>w_limiter := 60\<rparr>))) = Inr 429 \<and>
   limit_key id (demo_post ''svc'' ''boom'') = ''tok:svc''"
proof -
  let ?w = "demo_world ((), demo_db)\<lparr>w_limiter := 60\<rparr>" and ?rq = "demo_post ''svc'' ''boom''"
  let ?r = "demo_app_v1 ?rq ?w"
  have on: "v1_rate_limit_enabled demo_v1" by code_simp
  have hit: "lm_hit demo_limiter (v1_rate_limit demo_v1) (limit_key (lm_sha256 demo_limiter) ?rq) (w_limiter ?w) = (False, 61)"
    by (simp add: demo_limiter_def)
  have eq: "?r = (fst ?r, snd ?r)" by simp
  have key: "limit_key id ?rq = ''tok:svc''" by code_simp
  from rate_limit_stops [OF on hit eq] key show ?thesis by auto
qed

end
