(* ===== verification/Access.thy ===== *)
theory Access
  imports Front_Door
begin

text \<open>
  Who sees what through the HTTP services: users see their own jobs only, a created job can be read at
  its location, and a machine client gets the same answers from both services.
\<close>

section \<open>Users see their own jobs\<close>

text \<open>Whether a type has an active job, and the part of the database that belongs to a subject.\<close>

definition active_row :: "string \<Rightarrow> pg_db \<Rightarrow> bool" where
  "active_row jt db \<longleftrightarrow> list_ex (\<lambda>r. pj_job_type r = jt \<and> pj_status r \<in> set ACTIVE) (db_jobs db)"

definition own_job :: "string \<Rightarrow> pg_db \<Rightarrow> int \<Rightarrow> job option" where
  "own_job sub db j = (case pg_get_job j db of None \<Rightarrow> None
     | Some b \<Rightarrow> if (case j_created_by b of None \<Rightarrow> None | Some c \<Rightarrow> cr_sub c) = Some sub then Some b else None)"

lemma admitted_store:
  "admitted lm cfg rq (w\<lparr>w_store := s\<rparr>) = apsnd (w_store_update (\<lambda>_. s)) (admitted lm cfg rq w)"
  by (simp add: admitted_def hit_limiter_def split: prod.split)

lemma get_principal_store:
  "get_principal ver rq (w\<lparr>w_store := s\<rparr>) = apsnd (w_store_update (\<lambda>_. s)) (get_principal ver rq w)"
  by (simp add: get_principal_def Let_def split: prod.split option.split)

lemma scope_guard_store:
  "scope_guard ver scope rq (w\<lparr>w_store := s\<rparr>) = apsnd (w_store_update (\<lambda>_. s)) (scope_guard ver scope rq w)"
  by (simp add: scope_guard_def try_bind_def get_principal_store split: prod.split sum.split)

lemma pg_api_get_job:
  "as_get_job (pg_api_store fault) j (f, db) = (case fault f of
      (Some x, f') \<Rightarrow> (Inl (Unexpected x), (f', db)) | (None, f') \<Rightarrow> (Inr (pg_get_job j db), (f', db)))"
  by (simp add: pg_api_store_def failing_def failing_call_def reliable_def pg_ops_def split: prod.split option.split)

lemma pg_api_enqueue:
  "as_enqueue (pg_api_store fault) t u jt p c (f, db) = (case fault f of
      (Some x, f') \<Rightarrow> (Inl (Unexpected x), (f', db))
    | (None, f') \<Rightarrow> (Inr (fst (pg_enqueue t u jt p c db)), (f', snd (pg_enqueue t u jt p c db))))"
  by (simp add: pg_api_store_def failing_def failing_call_def reliable_def pg_ops_def case_prod_unfold split: option.split)

lemma pg_enqueue_answer:
  "fst (pg_enqueue t u jt p c db) = (if active_row jt db then None else Some (db_job_seq db))"
  by (simp add: pg_enqueue_def active_row_def Let_def)

text \<open>What a request to create a job is told of the database, and by whom it was sent is no part of it.\<close>

definition same_for_create :: "request \<Rightarrow> pg_db \<Rightarrow> pg_db \<Rightarrow> bool" where
  "same_for_create rq db db' \<longleftrightarrow> db_job_seq db' = db_job_seq db \<and>
     (\<forall>req. create_request (rq_body rq) = Some req \<longrightarrow> active_row (cq_job_type req) db' = active_row (cq_job_type req) db)"

lemma create_job_own:
  assumes "w_store w = (f, db)" "same_for_create rq db db'" "create_request (rq_body rq) = Some req"
  shows "fst (submit (pg_api_store fault) mo c req (w\<lparr>w_store := (f, db')\<rparr>)) = fst (submit (pg_api_store fault) mo c req w)"
  using assms
  by (auto simp: submit_def try_bind_def on_store_def pg_api_enqueue pg_enqueue_answer same_for_create_def Let_def
      split: prod.split option.split)

lemma get_job_own:
  assumes "\<not> is_service p" "\<not> has_scope p (v1_scope_read_all cfg)" "w_store w = (f, db)"
  shows "fst (get_job_v1 fw (pg_api_store fault) cfg p j w) = (case fst (fault f) of
      Some x \<Rightarrow> Inl (Unexpected x)
    | None \<Rightarrow> (case own_job (pr_subject p) db j of
        None \<Rightarrow> Inl (not_found j) | Some b \<Rightarrow> Inr (ok_json (to_response fw b))))"
  using assms
  by (auto simp: get_job_v1_def try_bind_def on_store_def pg_api_get_job own_job_def can_read_job_created_by_def Let_def
      split: prod.split option.split)

lemma readyz_pg:
  "fst (readyz (pg_api_store fault) w) = (case fst (fault (fst (w_store w))) of
      Some x \<Rightarrow> Inl unreachable | None \<Rightarrow> Inr (ok_json (JObj (fmap_of_list [(''status'', JStr ''ready'')]))))"
  by (cases "w_store w") (auto simp: readyz_def on_store_def pg_api_get_job unreachable_def split: prod.split option.split)

text \<open>A caller who may see own jobs only, as the token of the request and the keys at hand decide.\<close>

definition sees_own :: "('k, 'n) idp \<Rightarrow> settings_v1 \<Rightarrow> moment \<Rightarrow> request \<Rightarrow> 'k jwks \<times> 'n \<Rightarrow> (string \<Rightarrow> bool) \<Rightarrow> bool" where
  "sees_own L cfg mo rq st P \<longleftrightarrow> (\<forall>token p st'. bearer_token (rq_headers rq) = Some token \<longrightarrow>
     verify_v1 L cfg (mo_mono mo) (mo_wall mo) token st = (Inr p, st') \<longrightarrow>
     \<not> is_service p \<and> \<not> has_scope p (v1_scope_read_all cfg) \<and> P (pr_subject p))"

lemma sees_own_guard:
  assumes "sees_own L cfg mo rq (w_jwks w, w_net w) P" "scope_guard (verify_of_v1 L cfg mo) scope rq w = (Inr p, u)"
  shows "\<not> is_service p \<and> \<not> has_scope p (v1_scope_read_all cfg) \<and> P (pr_subject p)"
  using assms
  by (auto simp: scope_guard_Inr sees_own_def get_principal_def verify_v1_def Let_def split: option.splits prod.splits)

lemma router_v1_own:
  assumes "w_store w = (f, db)" "route rq = Create_Job \<Longrightarrow> same_for_create rq db db'"
    and own: "sees_own L cfg mo rq (w_jwks w, w_net w) (\<lambda>sub. own_job sub db' = own_job sub db)"
  shows "fst (router_v1 fw L (pg_api_store fault) cfg mo rq (w\<lparr>w_store := (f, db')\<rparr>)) =
    fst (router_v1 fw L (pg_api_store fault) cfg mo rq w)"
proof (cases "route rq")
  case (Get_Job s)
  let ?guard = "scope_guard (verify_of_v1 L cfg mo) (st_scope_read cfg) rq"
  obtain r u where guard: "?guard w = (r, u)" by force
  then have guard': "?guard (w\<lparr>w_store := (f, db')\<rparr>) = (r, u\<lparr>w_store := (f, db')\<rparr>)" by (simp add: scope_guard_store)
  have st: "w_store u = (f, db)" using scope_guard_world [OF guard] assms(1) by simp
  show ?thesis
  proof (cases r)
    case (Inl e)
    with guard guard' Get_Job show ?thesis by (simp add: router_routes routes_def get_endpoint_def try_bind_def)
  next
    case (Inr p)
    note user = sees_own_guard [OF own guard [unfolded Inr]]
    have "fst (get_job_v1 fw (pg_api_store fault) cfg p j (u\<lparr>w_store := (f, db')\<rparr>)) =
        fst (get_job_v1 fw (pg_api_store fault) cfg p j u)" for j
      using user by (simp add: get_job_own [OF _ _ st] get_job_own [of p cfg "u\<lparr>w_store := (f, db')\<rparr>" f db']
          cong: option.case_cong)
    with Inr guard guard' Get_Job show ?thesis
      by (simp add: router_routes routes_def get_endpoint_def try_bind_def split: sum.split)
  qed
next
  case Readyz
  with assms(1) show ?thesis by (simp add: router_routes routes_def readyz_pg)
next
  case Create_Job
  let ?guard = "scope_guard (verify_of_v1 L cfg mo) (st_scope_write cfg) rq"
  obtain r u where guard: "?guard w = (r, u)" by force
  then have guard': "?guard (w\<lparr>w_store := (f, db')\<rparr>) = (r, u\<lparr>w_store := (f, db')\<rparr>)" by (simp add: scope_guard_store)
  have st: "w_store u = (f, db)" using scope_guard_world [OF guard] assms(1) by simp
  have "fst (submit (pg_api_store fault) mo c req (u\<lparr>w_store := (f, db')\<rparr>)) = fst (submit (pg_api_store fault) mo c req u)"
    if "create_request (rq_body rq) = Some req" for c req
    by (rule create_job_own [OF st assms(2) [OF Create_Job] that])
  with guard guard' Create_Job show ?thesis
    by (simp add: router_routes routes_def create_endpoint_def try_bind_def validate_def split: sum.split body.split option.split)
qed (simp_all add: router_routes routes_def)

text \<open>
  C32. A user without the scope for reading everything learns of the jobs of others only what the one-active-job rule gives away. When two
  databases agree on the jobs that the caller created, every request gets the same answer from both, whatever
  else they hold: in particular a job of somebody else and a job that does not exist are answered alike. A request to create a job, and only that,
  also depends on whether any job of its type is active, which decides between 201 and 409, and on the next
  id, which a 201 names. (On the first service without CORS origins, the default.)
\<close>

theorem users_see_own_jobs:
  assumes "v1_cors_allow_origins cfg = []" "w_store w = (f, db)"
    and "route rq = Create_Job \<Longrightarrow> same_for_create rq db db'"
    and "sees_own L cfg mo rq (w_jwks w, w_net w) (\<lambda>sub. own_job sub db' = own_job sub db)"
  shows "fst (app_v1 fw L lm cors (pg_api_store fault) cfg mo rq (w\<lparr>w_store := (f, db')\<rparr>)) =
    fst (app_v1 fw L lm cors (pg_api_store fault) cfg mo rq w)"
proof -
  obtain ok w1 where adm: "admitted lm cfg rq w = (ok, w1)" by force
  then have adm': "admitted lm cfg rq (w\<lparr>w_store := (f, db')\<rparr>) = (ok, w1\<lparr>w_store := (f, db')\<rparr>)"
    by (simp add: admitted_store)
  note world = admitted_world [OF adm]
  show ?thesis
  proof (cases ok)
    case True
    have "fst (router_v1 fw L (pg_api_store fault) cfg mo rq (w1\<lparr>w_store := (f, db')\<rparr>)) =
      fst (router_v1 fw L (pg_api_store fault) cfg mo rq w1)"
      using assms(2,4) world by (intro router_v1_own [of _ _ db] assms(3)) simp_all
    moreover from adm adm' True have "admitted lm cfg rq w = (True, w1)"
      "admitted lm cfg rq (w\<lparr>w_store := (f, db')\<rparr>) = (True, w1\<lparr>w_store := (f, db')\<rparr>)" by simp_all
    ultimately show ?thesis by (simp add: app_v1_routed [OF assms(1)])
  next
    case False
    then show ?thesis
      using app_v1_limited [of lm cfg rq w w1 fw L cors "pg_api_store fault" mo] adm adm'
        app_v1_limited [of lm cfg rq "w\<lparr>w_store := (f, db')\<rparr>" "w1\<lparr>w_store := (f, db')\<rparr>" fw L cors "pg_api_store fault" mo]
      by simp
  qed
qed

lemma own_job_none:
  "list_all (\<lambda>r. pj_created_by_sub r \<noteq> Some sub) (db_jobs db) \<Longrightarrow> own_job sub db = Map.empty"
  by (auto simp: own_job_def pg_get_job_def pg_to_job_def list_all_iff fun_eq_iff find_Some_iff split: option.split)

theorem users_see_own_jobs_witness:
  "fst (demo_app_v1 (demo_get ''ann'' ''/v1/jobs/1'') (demo_world ((), demo_db))) =
     fst (demo_app_v1 (demo_get ''ann'' ''/v1/jobs/1'') (demo_world ((), pg_migrated))) \<and>
   fst (demo_app_v1 (demo_post ''ann'' ''hello'') (demo_world ((), demo_db))) =
     fst (demo_app_v1 (demo_post ''ann'' ''hello'') (demo_world ((), snd (pg_claim 5 1 demo_db))))"
proof -
  let ?w = "demo_world ((), demo_db)" and ?get = "demo_get ''ann'' ''/v1/jobs/1''" and ?post = "demo_post ''ann'' ''hello''"
  let ?db = "snd (pg_claim 5 1 demo_db)"
  let ?v = "verify_v1 demo_idp demo_v1 (mo_mono demo_moment) (mo_wall demo_moment) ''ann'' (w_jwks ?w, w_net ?w)"
  have "bearer_token (rq_headers ?get) = Some ''ann''" "bearer_token (rq_headers ?post) = Some ''ann''" by code_simp+
  moreover have "\<not> is_service (projr (fst ?v))" "\<not> has_scope (projr (fst ?v)) (v1_scope_read_all demo_v1)"
    "pr_subject (projr (fst ?v)) = ''ann''" by code_simp+
  moreover have "list_all (\<lambda>r. pj_created_by_sub r \<noteq> Some ''ann'') (db_jobs demo_db)"
    "list_all (\<lambda>r. pj_created_by_sub r \<noteq> Some ''ann'') (db_jobs pg_migrated)"
    "list_all (\<lambda>r. pj_created_by_sub r \<noteq> Some ''ann'') (db_jobs ?db)" by code_simp+
  ultimately have own: "sees_own demo_idp demo_v1 demo_moment ?get (w_jwks ?w, w_net ?w)
      (\<lambda>sub. own_job sub pg_migrated = own_job sub demo_db)"
    "sees_own demo_idp demo_v1 demo_moment ?post (w_jwks ?w, w_net ?w) (\<lambda>sub. own_job sub ?db = own_job sub demo_db)"
    by (auto simp: sees_own_def own_job_none)
  have cors: "v1_cors_allow_origins demo_v1 = []" "route ?get \<noteq> Create_Job" by code_simp+
  have "map_option cq_job_type (create_request (rq_body ?post)) = Some ''hello''" "db_job_seq ?db = db_job_seq demo_db"
    "active_row ''hello'' ?db" "active_row ''hello'' demo_db" by code_simp+
  then have same: "same_for_create ?post demo_db ?db" by (auto simp: same_for_create_def)
  have "fst (demo_app_v1 ?get (?w\<lparr>w_store := ((), pg_migrated)\<rparr>)) = fst (demo_app_v1 ?get ?w)"
    by (rule users_see_own_jobs [OF cors(1) _ _ own(1)]) (use cors(2) in \<open>simp_all add: demo_world_def\<close>)
  moreover have "fst (demo_app_v1 ?post (?w\<lparr>w_store := ((), ?db)\<rparr>)) = fst (demo_app_v1 ?post ?w)"
    by (rule users_see_own_jobs [OF cors(1) _ same own(2)]) (simp add: demo_world_def)
  ultimately show ?thesis by (simp add: demo_world_def)
qed

section \<open>Machine clients\<close>

text \<open>The settings that decide the answers of a route.\<close>

definition same_policy :: "'a settings_scheme \<Rightarrow> 'b settings_scheme \<Rightarrow> bool" where
  "same_policy c d \<longleftrightarrow> st_algorithms c = st_algorithms d \<and> st_audience c = st_audience d \<and> st_issuer c = st_issuer d \<and>
     st_leeway c = st_leeway d \<and> st_scope_write c = st_scope_write d \<and> st_scope_read c = st_scope_read d"

lemma to_principal_agree:
  "to_principal_v2 repr claims = map_sum id principal.truncate (to_principal_v1 repr cfg claims)"
  by (cases "typed_client (claim_client claims)")
     (simp_all add: to_principal_v1_def to_principal_v2_def Let_def principal.defs)

lemma verify_map:
  assumes "same_policy cfg cfg'"
  shows "verify (\<lambda>claims. map_sum id h (tp claims)) L cfg' clk now token st =
    apfst (map_sum id h) (verify tp L cfg clk now token st)"
  using assms by (simp add: verify_def same_policy_def split: option.split prod.split sum.split)

lemma verify_agree:
  "same_policy cfg cfg' \<Longrightarrow> verify_of_v2 L cfg' mo token st =
    apfst (map_sum id principal.truncate) (verify_of_v1 L cfg mo token st)"
  unfolding to_principal_agree [of _ _ cfg, abs_def] by (rule verify_map)

lemma truncate_scope [simp]: "has_scope (principal.truncate p) s = has_scope p s"
  by (simp add: has_scope_def principal.defs)

lemma scope_guard_agree:
  assumes "same_policy cfg cfg'"
  shows "scope_guard (verify_of_v2 L cfg' mo) scope rq w =
    apfst (map_sum id principal.truncate) (scope_guard (verify_of_v1 L cfg mo) scope rq w)"
  by (simp add: scope_guard_def try_bind_def get_principal_def verify_agree [OF assms] Let_def
      split: option.split prod.split sum.split)

lemma service_creator: "is_service p \<Longrightarrow> to_creator_v2 (principal.truncate p) = to_creator_v1 p"
  by (simp add: to_creator_v2_def to_creator_v1_def is_service_def principal.defs)

lemma service_get_job: "is_service p \<Longrightarrow> get_job_v1 fw A cfg p j = get_job_v2 fw A j"
  by (auto simp: get_job_v1_def get_job_v2_parts can_read_job_created_by_def Let_def try_bind_def fun_eq_iff
      split: prod.split sum.split option.split)

text \<open>
  C35. A machine client gets the same from both services. On the same store and state, with settings that agree on the issuer and the
  scopes, every request whose token the first service takes for that of a service, or refuses, has the same result and the
  same effect at the routes of both; the recorded creator is the same too.
\<close>

theorem services_see_one_api:
  assumes "same_policy cfg cfg'"
    and "\<forall>p u. get_principal (verify_v1 L cfg (mo_mono mo) (mo_wall mo)) rq w = (Inr p, u) \<longrightarrow> is_service p"
  shows "router_v1 fw L A cfg mo rq w = router_v2 fw L A cfg' mo rq w"
proof -
  have service: "is_service p" if "scope_guard (verify_of_v1 L cfg mo) scope rq w = (Inr p, u)" for scope p u
    using that assms(2) by (auto simp: scope_guard_Inr verify_v1_def)
  have bind: "try_bind (scope_guard (verify_of_v2 L cfg' mo) scope rq) f w =
      try_bind (scope_guard (verify_of_v1 L cfg mo) scope rq) g w"
    if "\<And>p. is_service p \<Longrightarrow> f (principal.truncate p) = g p" for scope f g
    using service [of scope] that
    by (auto simp: try_bind_def scope_guard_agree [OF assms(1)] split: prod.split sum.split)
  have scopes: "st_scope_write cfg' = st_scope_write cfg" "st_scope_read cfg' = st_scope_read cfg"
    using assms(1) by (simp_all add: same_policy_def)
  show ?thesis unfolding router_routes scopes routes_def
    by (auto simp: create_endpoint_def get_endpoint_def service_creator service_get_job
        intro!: bind [symmetric] split: target.split body.split sum.split)
qed

theorem services_see_one_api_witness:
  "router_v1 demo_fw demo_idp (pg_api_store no_fault) demo_v1 demo_moment (demo_post ''svc'' ''boom'') (demo_world ((), demo_db)) =
   router_v2 demo_fw demo_idp (pg_api_store no_fault) (demo_v2\<lparr>st_issuer := st_issuer demo_v1\<rparr>) demo_moment
     (demo_post ''svc'' ''boom'') (demo_world ((), demo_db))"
proof (rule services_see_one_api)
  show "same_policy demo_v1 (demo_v2\<lparr>st_issuer := st_issuer demo_v1\<rparr>)" by code_simp
  let ?g = "get_principal (verify_v1 demo_idp demo_v1 (mo_mono demo_moment) (mo_wall demo_moment)) (demo_post ''svc'' ''boom'')
    (demo_world ((), demo_db))"
  have "is_service (projr (fst ?g))" by code_simp
  then show "\<forall>p u. ?g = (Inr p, u) \<longrightarrow> is_service p" by auto
qed

section \<open>A created job can be read\<close>

lemma to_response_with_creator: "to_response fw (with_creator b) = to_response fw b"
  by (simp add: to_response_def job_response_of_def job_response_json_def created_by_json_def with_creator_def no_creator_def split: option.split)

lemma int_str_path: "int_str i \<noteq> []" "CHR ''/'' \<notin> set (int_str i)"
proof -
  have "CHR ''/'' \<notin> set (nat_str n)" "nat_str n \<noteq> []" for n
    using nat_str_digits [of n] by (auto simp: list_all_iff is_digit_def)
  then show "int_str i \<noteq> []" "CHR ''/'' \<notin> set (int_str i)" by (auto simp: int_str_def)
qed

lemma route_location:
  assumes "rq_method rq = ''GET''" "rq_path rq = ''/v1/jobs/'' @ int_str i"
  shows "route rq = Get_Job (int_str i)"
  using assms int_str_path [of i] by (simp add: route_def)

lemma created_location:
  assumes "(''location'', path) \<in> set (rs_headers (send_wrapper rid (created jid)))"
  shows "path = ''/v1/jobs/'' @ int_str jid"
proof -
  have "\<forall>h \<in> set SECURITY_HEADERS. fst h \<noteq> ''location''" by (simp add: SECURITY_HEADERS_def)
  with assms show ?thesis by (auto simp: send_wrapper_def created_def REQUEST_ID_HEADER_def Let_def)
qed

lemma created_in_job:
  "created_in mo c req jid a a' \<Longrightarrow> \<exists>v. a_jobs a' jid =
     Some (with_creator (new_job jid (mo_created mo) v (cq_job_type req) (Some (or_empty (cq_payload req))) (Some c)))"
  by (auto simp: created_in_def spec_enqueue_def)

lemma get_job_readable:
  assumes "can_read_job_created_by p cfg (case j_created_by b of None \<Rightarrow> None | Some c \<Rightarrow> cr_sub c)"
    and "pg_get_job j (w_store w) = Some b"
  shows "get_job_v1 fw (reliable pg_ops) cfg p j w = (Inr (ok_json (to_response fw b)), w)"
  using assms by (simp add: get_job_v1_def try_bind_def on_store_def reliable_def pg_ops_def)

text \<open>An answer 201 of the first service comes from the route that creates jobs.\<close>

lemma v1_created:
  assumes "pg_inv (w_store w)" "v1_cors_allow_origins cfg = []" "route rq = Create_Job" "rs_status r = 201"
    and "app_v1 fw L lm cors (reliable pg_ops) cfg mo rq w = (Inr r, w')"
  obtains c req jid rid where "may_create_v1 L cfg (mo_wall mo) (w_jwks w') rq c"
    "create_request (rq_body rq) = Some req" "r = send_wrapper rid (created jid)"
    "created_in mo c req jid (pg_abs (w_store w)) (pg_abs (w_store w'))" "pg_inv (w_store w')"
  using assms(2,5)
proof (cases rule: app_v1_cases)
  case over_limit
  with assms(4) show thesis by (simp add: too_many_def json_response_def)
next
  case (routed w1 raw)
  from pg.api.router_v1_law [OF _ routed(2)] assms(1) admitted_world [OF routed(1)]
  have law: "pg_inv (w_store w')" "routed fw mo rq (may_create_v1 L cfg (mo_wall mo) (w_jwks w') rq)
    (pg_abs (w_store w)) (pg_abs (w_store w')) raw" by simp_all
  show thesis
  proof (cases raw)
    case (Inl e)
    with law(2) assms(3) have "refusal e" by (simp add: routed_def)
    from refusal_answer [OF this, of handle_v1 mo rq] routed(3) Inl assms(4) show thesis by auto
  next
    case (Inr r')
    with law(2) assms(3) routed(3) that law(1) show thesis by (auto simp: routed_def answer_def)
  qed
qed

text \<open>
  C33. What is created can be read, on a database that does not fail. When the first service (without CORS origins, the default) answers a request to create a job by 201, a later request for the
  location in that answer, with an accepted token that carries the scope for reading and belongs to the creator, to a service or to a
  holder of the scope for reading everything, is answered by 200 with the job: queued, with the given type and overrides, no
  attempts, and the creator that the first token named.
\<close>

theorem created_job_is_readable:
  assumes "pg_inv (w_store w)" "v1_cors_allow_origins cfg = []" "\<forall>i. fw_parse_id fw (int_str i) = Inr i"
    and post: "route rq = Create_Job" "app_v1 fw L lm cors (reliable pg_ops) cfg mo rq w = (Inr r, w')" "rs_status r = 201"
    and get: "rq_method rq' = ''GET''" "(''location'', rq_path rq') \<in> set (rs_headers r)"
    and admitted: "admitted lm cfg rq' w' = (True, w1)"
    and read: "require_read (verify_v1 L cfg (mo_mono mo') (mo_wall mo')) cfg rq' w1 = (Inr p, w2)"
    and who: "\<forall>c. may_create_v1 L cfg (mo_wall mo) (w_jwks w') rq c \<longrightarrow> can_read_job_created_by p cfg (cr_sub c)"
  shows "\<exists>c req jid v r'. may_create_v1 L cfg (mo_wall mo) (w_jwks w') rq c \<and> create_request (rq_body rq) = Some req \<and>
    fst (app_v1 fw L lm cors (reliable pg_ops) cfg mo' rq' w') = Inr r' \<and> rs_status r' = 200 \<and>
    rs_body r' = to_response fw (new_job jid (mo_created mo) v (cq_job_type req) (Some (or_empty (cq_payload req))) (Some c))"
proof -
  from v1_created [OF assms(1,2) post(1,3,2)] obtain c req jid rid where
    new: "may_create_v1 L cfg (mo_wall mo) (w_jwks w') rq c" "create_request (rq_body rq) = Some req"
      "r = send_wrapper rid (created jid)" "created_in mo c req jid (pg_abs (w_store w)) (pg_abs (w_store w'))" by metis
  let ?new = "\<lambda>v. new_job jid (mo_created mo) v (cq_job_type req) (Some (or_empty (cq_payload req))) (Some c)"
  from new(4) obtain v where "a_jobs (pg_abs (w_store w')) jid = Some (with_creator (?new v))"
    using created_in_job by blast
  then have job: "pg_get_job jid (w_store w') = Some (?new v)"
    by (simp add: pg_get_job_abs with_creator_def new_job_def del: pg_abs_simps)
  have "rq_path rq' = ''/v1/jobs/'' @ int_str jid" by (rule created_location [OF get(2) [unfolded new(3)]])
  note route = route_location [OF get(1) this]
  have guard: "scope_guard (verify_of_v1 L cfg mo') (st_scope_read cfg) rq' w1 = (Inr p, w2)"
    using read by (simp add: require_is_guard verify_v1_def)
  have "w_store w2 = w_store w'" using scope_guard_world [OF guard] admitted_world [OF admitted] by simp
  then have "get_job_v1 fw (reliable pg_ops) cfg p jid w2 = (Inr (ok_json (to_response fw (?new v))), w2)"
    using job who new(1) by (intro get_job_readable) (simp_all add: new_job_def)
  then have "router_v1 fw L (reliable pg_ops) cfg mo' rq' w1 = (Inr (ok_json (to_response fw (?new v))), w2)"
    using assms(3) by (simp add: router_routes routes_def route get_endpoint_def try_bind_def guard)
  then have "fst (app_v1 fw L lm cors (reliable pg_ops) cfg mo' rq' w') = answer handle_v1 mo' rq' (Inr (ok_json (to_response fw (?new v))))"
    using app_v1_routed [OF assms(2) admitted, of fw L cors "reliable pg_ops" mo'] by simp
  with new(1,2) show ?thesis
    by (intro exI [of _ c] exI [of _ req] exI [of _ jid] exI [of _ v])
       (simp add: answer_def ok_json_def json_response_def)
qed

theorem created_job_is_readable_witness:
  "let app = app_v1 demo_fw demo_idp demo_limiter no_cors (reliable pg_ops) demo_v1 demo_moment
   in \<exists>r. fst (app (demo_get ''svc'' ''/v1/jobs/2'') (snd (app (demo_post ''svc'' ''boom'') (demo_world demo_db)))) = Inr r \<and>
     rs_status r = 200"
proof -
  let ?app = "app_v1 demo_fw demo_idp demo_limiter no_cors (reliable pg_ops) demo_v1 demo_moment"
  let ?w = "demo_world demo_db" and ?post = "demo_post ''svc'' ''boom''" and ?get = "demo_get ''svc'' ''/v1/jobs/2''"
  let ?r = "?app ?post ?w"
  let ?adm = "admitted demo_limiter demo_v1 ?get (snd ?r)"
  let ?g = "require_read (verify_v1 demo_idp demo_v1 (mo_mono demo_moment) (mo_wall demo_moment)) demo_v1 ?get (snd ?adm)"
  have inv: "pg_inv (w_store ?w)" by (simp add: demo_world_def pg_inv_demo)
  have cors: "v1_cors_allow_origins demo_v1 = []" by code_simp
  have parse: "\<forall>i. fw_parse_id demo_fw (int_str i) = Inr i" by (simp add: demo_fw_def py_int_int_str)
  have post: "\<not> isl (fst ?r)" "rs_status (projr (fst ?r)) = 201" "route ?post = Create_Job" by code_simp+
  then have run: "?r = (Inr (projr (fst ?r)), snd ?r)" by (cases "fst ?r") (simp_all add: prod_eq_iff)
  have loc: "rq_method ?get = ''GET''" "(''location'', rq_path ?get) \<in> set (rs_headers (projr (fst ?r)))" by code_simp+
  have "fst ?adm" by code_simp
  then have adm: "?adm = (True, snd ?adm)" by (simp add: prod_eq_iff)
  have g: "\<not> isl (fst ?g)" and service: "is_service (projr (fst ?g))" by code_simp+
  then have read: "?g = (Inr (projr (fst ?g)), snd ?g)" by (cases "fst ?g") (simp_all add: prod_eq_iff)
  show ?thesis unfolding Let_def
    using created_job_is_readable [OF inv cors parse post(3) run post(2) loc adm read] service
    by (simp add: can_read_job_created_by_def) blast
qed

end
