(* ===== verification/Migrate.thy ===== *)
theory Migrate
  imports Postgres_Store Settings "HOL-Library.List_Lexorder" "HOL-Library.Char_ord"
begin

text \<open>
  The migration runner (\<open>common/migrate.py\<close>) and the statements of the files it runs (\<open>migrations\<close>). The runner is independent of what
  a file contains: the type of contents and their execution are parameters, as is the opening of the connection. The
  statements that the files use are modelled on a database of named tables, with their \<open>IF NOT EXISTS\<close> and \<open>ON CONFLICT\<close> clauses.
\<close>

section \<open>The runner\<close>

text \<open>A directory lists names with contents, or with the error of reading them.\<close>

type_synonym 'q directory = "(string \<times> (exn + 'q)) list"

definition sql_files :: "'q directory \<Rightarrow> 'q directory" where
  "sql_files dir = sort_key fst (filter (\<lambda>(name, _). drop (length name - 4) name = ''.sql'') dir)"

text \<open>The loop over the files, inside the transaction: the exception that ends it, the output, the state of the transaction.\<close>

fun apply_files :: "('q \<Rightarrow> 'd \<Rightarrow> exn + 'd) \<Rightarrow> 'q directory \<Rightarrow> string \<Rightarrow> 'd \<Rightarrow> exn option \<times> string \<times> 'd" where
  "apply_files exec [] out d = (None, out, d)"
| "apply_files exec ((name, contents) # files) out d =
     (let out' = out @ ''applying '' @ name @ newline
      in case contents of
           Inl e \<Rightarrow> (Some e, out', d)
         | Inr q \<Rightarrow> (case exec q d of
               Inl e \<Rightarrow> (Some e, out', d)
             | Inr d' \<Rightarrow> apply_files exec files out' d'))"

text \<open>
  \<open>run\<close>: the connection commits when its block is left normally, and rolls back when an exception leaves it.
\<close>

definition migrate_run ::
  "(string \<Rightarrow> exn option) \<Rightarrow> ('q \<Rightarrow> 'd \<Rightarrow> exn + 'd) \<Rightarrow> 'q directory \<Rightarrow> string \<Rightarrow> 'd \<Rightarrow> exn option \<times> string \<times> 'd" where
  "migrate_run connect exec dir database_url d =
     (let files = sql_files dir
      in case connect database_url of
           Some e \<Rightarrow> (Some e, [], d)
         | None \<Rightarrow> (case apply_files exec files [] d of
               (Some e, out, _) \<Rightarrow> (Some e, out, d)
             | (None, out, d') \<Rightarrow> (None, out, d')))"

definition migrate_main ::
  "(string \<Rightarrow> exn + interval) \<Rightarrow> environment \<Rightarrow> (string \<Rightarrow> exn option) \<Rightarrow> ('q \<Rightarrow> 'd \<Rightarrow> exn + 'd) \<Rightarrow> 'q directory \<Rightarrow> 'd \<Rightarrow>
   exn option \<times> string \<times> 'd" where
  "migrate_main py_float env connect exec dir d = (case config_from_env py_float env of
      Inl e \<Rightarrow> (Some e, [], d)
    | Inr cfg \<Rightarrow> (case migrate_run connect exec dir (cf_database_url cfg) d of
          (Some e, out, d') \<Rightarrow> (Some e, out, d')
        | (None, out, d') \<Rightarrow> (None, out @ ''migrations complete'' @ newline, d')))"

section \<open>The statements\<close>

text \<open>
  A column that is absent from an inserted row is null, refused, a constant or generated (an identity value, the current time:
  the parameter \<open>gen\<close>).
\<close>

datatype column_default = Nullable | Required | Const json | Generated

type_synonym sql_row = "(string, json) fmap"

datatype stmt =
    Create_Table string "(string \<times> column_default) list"
  | Create_Index string string
  | Create_Unique_Index string string string string "json list"
      \<comment> \<open>name, table, column, and the column and values of its condition\<close>
  | Add_Column string string column_default
  | Insert_Absent string string "sql_row list"   \<comment> \<open>table, key, rows\<close>

record sql_table =
  tb_columns :: "(string \<times> column_default) list"
  tb_rows :: "sql_row list"

record sql_db =
  sd_tables :: "(string \<times> sql_table) list"
  sd_indexes :: "string list"

definition default_value :: "(string \<Rightarrow> json) \<Rightarrow> string \<Rightarrow> column_default \<Rightarrow> json" where
  "default_value gen c def = (case def of Const v \<Rightarrow> v | Generated \<Rightarrow> gen c | _ \<Rightarrow> JNull)"

text \<open>An inserted row has columns of the table only, and a value for every required one.\<close>

definition row_fits :: "(string \<times> column_default) list \<Rightarrow> sql_row \<Rightarrow> bool" where
  "row_fits cols r \<longleftrightarrow> fset (fmdom r) \<subseteq> fst ` set cols \<and> (\<forall>(c, def) \<in> set cols. def = Required \<longrightarrow> c |\<in>| fmdom r)"

definition complete :: "(string \<Rightarrow> json) \<Rightarrow> (string \<times> column_default) list \<Rightarrow> sql_row \<Rightarrow> sql_row" where
  "complete gen cols r = fmap_of_list (map (\<lambda>(c, def). (c, default_value gen c def)) cols) ++\<^sub>f r"

fun insert_absent ::
  "(string \<Rightarrow> json) \<Rightarrow> (string \<times> column_default) list \<Rightarrow> string \<Rightarrow> sql_row list \<Rightarrow> sql_row list \<Rightarrow> exn + sql_row list" where
  "insert_absent gen cols key [] rows = Inr rows"
| "insert_absent gen cols key (r # rs) rows =
     (if \<not> row_fits cols r \<or> key |\<notin>| fmdom r then Inl (RuntimeError ''not-null violation'')
      else if list_ex (\<lambda>r'. fmlookup r' key = fmlookup r key) rows then insert_absent gen cols key rs rows
      else insert_absent gen cols key rs (rows @ [complete gen cols r]))"

definition unique_where :: "string \<Rightarrow> string \<Rightarrow> json list \<Rightarrow> sql_row list \<Rightarrow> bool" where
  "unique_where col cond vals rows \<longleftrightarrow>
     distinct (map (\<lambda>r. fmlookup r col) (filter (\<lambda>r. list_ex (\<lambda>v. fmlookup r cond = Some v) vals) rows))"

definition add_index :: "string \<Rightarrow> sql_db \<Rightarrow> sql_db" where
  "add_index name d = (if name \<in> set (sd_indexes d) then d else d\<lparr>sd_indexes := sd_indexes d @ [name]\<rparr>)"

definition put_table :: "string \<Rightarrow> sql_table \<Rightarrow> sql_db \<Rightarrow> sql_db" where
  "put_table name tb d = d\<lparr>sd_tables := AList.update name tb (sd_tables d)\<rparr>"

fun exec_stmt :: "(string \<Rightarrow> json) \<Rightarrow> stmt \<Rightarrow> sql_db \<Rightarrow> exn + sql_db" where
  "exec_stmt gen (Create_Table name cols) d = (case map_of (sd_tables d) name of
      Some tb \<Rightarrow> Inr d
    | None \<Rightarrow> Inr (put_table name \<lparr>tb_columns = cols, tb_rows = []\<rparr> d))"
| "exec_stmt gen (Create_Index name tbl) d = (case map_of (sd_tables d) tbl of
      None \<Rightarrow> Inl (RuntimeError ''undefined table'')
    | Some tb \<Rightarrow> Inr (add_index name d))"
| "exec_stmt gen (Create_Unique_Index name tbl col cond vals) d = (case map_of (sd_tables d) tbl of
      None \<Rightarrow> Inl (RuntimeError ''undefined table'')
    | Some tb \<Rightarrow>
        (if name \<in> set (sd_indexes d) \<or> unique_where col cond vals (tb_rows tb) then Inr (add_index name d)
         else Inl (RuntimeError ''unique violation'')))"
| "exec_stmt gen (Add_Column tbl col def) d = (case map_of (sd_tables d) tbl of
      None \<Rightarrow> Inl (RuntimeError ''undefined table'')
    | Some tb \<Rightarrow>
        (if col \<in> fst ` set (tb_columns tb) then Inr d
         else if def = Required \<and> tb_rows tb \<noteq> [] then Inl (RuntimeError ''not-null violation'')
         else Inr (put_table tbl \<lparr>tb_columns = tb_columns tb @ [(col, def)],
                tb_rows = map (\<lambda>r. fmap_of_list [(col, default_value gen col def)] ++\<^sub>f r) (tb_rows tb)\<rparr> d)))"
| "exec_stmt gen (Insert_Absent tbl key rows) d = (case map_of (sd_tables d) tbl of
      None \<Rightarrow> Inl (RuntimeError ''undefined table'')
    | Some tb \<Rightarrow> (case insert_absent gen (tb_columns tb) key rows (tb_rows tb) of
          Inl e \<Rightarrow> Inl e
        | Inr rows' \<Rightarrow> Inr (put_table tbl (tb\<lparr>tb_rows := rows'\<rparr>) d)))"

fun exec_all :: "(string \<Rightarrow> json) \<Rightarrow> stmt list \<Rightarrow> sql_db \<Rightarrow> exn + sql_db" where
  "exec_all gen [] d = Inr d"
| "exec_all gen (s # ss) d = (case exec_stmt gen s d of Inl e \<Rightarrow> Inl e | Inr d' \<Rightarrow> exec_all gen ss d')"

section \<open>The files\<close>

definition migration_001 :: "stmt list" where
  "migration_001 =
    [Create_Table ''jobs'' [(''id'', Generated), (''job_type'', Required), (''status'', Const (JStr ''queued'')),
       (''payload'', Const (JObj fmempty)), (''attempts'', Const (JInt 0)), (''created_at'', Generated),
       (''updated_at'', Generated)],
     Create_Unique_Index ''jobs_one_active_per_type'' ''jobs'' ''job_type'' ''status''
       [JStr ''queued'', JStr ''dispatched'', JStr ''running''],
     Create_Index ''jobs_status_idx'' ''jobs'',
     Create_Index ''jobs_type_created_idx'' ''jobs'',
     Create_Table ''outbox'' [(''id'', Generated), (''job_id'', Required), (''payload'', Required), (''published_at'', Nullable)],
     Create_Index ''outbox_unpublished'' ''outbox'',
     Create_Table ''job_type_config'' [(''job_type'', Required), (''run_timeout'', Const (JInt (minutes 15))),
       (''max_attempts'', Const (JInt 3))]]"

definition migration_002 :: "stmt list" where
  "migration_002 =
    [Add_Column ''job_type_config'' ''payload'' (Const (JObj fmempty)),
     Insert_Absent ''job_type_config'' ''job_type''
       [fmap_of_list [(''job_type'', JStr ''hello''), (''payload'', JObj (fmap_of_list [(''name'', JStr ''Ada'')]))],
        fmap_of_list [(''job_type'', JStr ''boom''), (''payload'', JObj fmempty)]]]"

definition migration_003 :: "stmt list" where
  "migration_003 = [Add_Column ''jobs'' ''input_payload'' (Const (JObj fmempty))]"

definition migration_004 :: "stmt list" where
  "migration_004 =
    [Add_Column ''jobs'' ''created_by_sub'' Nullable,
     Add_Column ''jobs'' ''created_by_type'' Nullable,
     Add_Column ''jobs'' ''created_by_client'' Nullable,
     Create_Index ''jobs_created_by_sub_idx'' ''jobs'']"

definition migrations_dir :: "stmt list directory" where
  "migrations_dir = [(''003_job_input_payload.sql'', Inr migration_003), (''001_init.sql'', Inr migration_001),
     (''004_job_creator.sql'', Inr migration_004), (''002_config_payload.sql'', Inr migration_002)]"

section \<open>Every statement is idempotent\<close>

text \<open>A statement has nothing left to do.\<close>

fun settled :: "stmt \<Rightarrow> sql_db \<Rightarrow> bool" where
  "settled (Create_Table name cols) d \<longleftrightarrow> map_of (sd_tables d) name \<noteq> None"
| "settled (Create_Index name tbl) d \<longleftrightarrow> map_of (sd_tables d) tbl \<noteq> None \<and> name \<in> set (sd_indexes d)"
| "settled (Create_Unique_Index name tbl col cond vals) d \<longleftrightarrow>
     map_of (sd_tables d) tbl \<noteq> None \<and> name \<in> set (sd_indexes d)"
| "settled (Add_Column tbl col def) d \<longleftrightarrow> (\<exists>tb. map_of (sd_tables d) tbl = Some tb \<and> col \<in> fst ` set (tb_columns tb))"
| "settled (Insert_Absent tbl key rows) d \<longleftrightarrow> (\<exists>tb. map_of (sd_tables d) tbl = Some tb \<and>
     (\<forall>r \<in> set rows. row_fits (tb_columns tb) r \<and> key |\<in>| fmdom r \<and> (\<exists>r' \<in> set (tb_rows tb). fmlookup r' key = fmlookup r key)))"

lemma put_table_simps [simp]:
  "sd_indexes (put_table n tb d) = sd_indexes d"
  "map_of (sd_tables (put_table n tb d)) = (map_of (sd_tables d))(n \<mapsto> tb)"
  by (simp_all add: put_table_def)

lemma add_index_simps [simp]:
  "sd_tables (add_index n d) = sd_tables d" "set (sd_indexes (add_index n d)) = insert n (set (sd_indexes d))"
  "n \<in> set (sd_indexes d) \<Longrightarrow> add_index n d = d"
  by (auto simp: add_index_def)

lemma put_table_same: "map_of (sd_tables d) n = Some tb \<Longrightarrow> put_table n tb d = d"
  by (simp add: put_table_def update_triv)

lemma complete_key: "key |\<in>| fmdom r \<Longrightarrow> fmlookup (complete gen cols r) key = fmlookup r key"
  by (simp add: complete_def)

lemma insert_absent_keeps: "insert_absent gen cols key rs rows = Inr rows' \<Longrightarrow> set rows \<subseteq> set rows'"
  by (induction rs arbitrary: rows) (fastforce split: if_splits)+

lemma insert_absent_done:
  assumes "insert_absent gen cols key rs rows = Inr rows'" "r \<in> set rs"
  shows "row_fits cols r \<and> key |\<in>| fmdom r \<and> (\<exists>r' \<in> set rows'. fmlookup r' key = fmlookup r key)"
  using assms
proof (induction rs arbitrary: rows)
  case (Cons x xs)
  show ?case
  proof (cases "r = x")
    case True
    with Cons.prems(1) have fits: "row_fits cols x" "key |\<in>| fmdom x" by (auto split: if_splits)
    obtain rows1 where rest: "insert_absent gen cols key xs rows1 = Inr rows'"
      "\<exists>r' \<in> set rows1. fmlookup r' key = fmlookup x key"
      using Cons.prems(1) fits complete_key [OF fits(2), of gen cols] by (fastforce simp: list_ex_iff split: if_splits)
    with insert_absent_keeps [OF rest(1)] fits True show ?thesis by blast
  next
    case False
    with Cons show ?thesis by (auto split: if_splits)
  qed
qed simp

lemma insert_absent_settled:
  "\<forall>r \<in> set rs. row_fits cols r \<and> key |\<in>| fmdom r \<and> (\<exists>r' \<in> set rows. fmlookup r' key = fmlookup r key) \<Longrightarrow>
   insert_absent gen cols key rs rows = Inr rows"
  by (induction rs) (auto simp: list_ex_iff)

text \<open>Executing a statement settles it; a settled statement changes nothing; no statement unsettles another.\<close>

lemma exec_stmt_settles: "exec_stmt gen s d = Inr d' \<Longrightarrow> settled s d'"
  by (cases s) (auto split: option.splits if_splits sum.splits dest: insert_absent_done)

lemma settled_exec: "settled s d \<Longrightarrow> exec_stmt gen s d = Inr d"
  by (cases s) (auto simp: insert_absent_settled put_table_same split: option.splits)

text \<open>What a statement keeps of every table: it stays, with its columns, its rows, and no new demands on inserted rows.\<close>

definition extends_table :: "sql_table \<Rightarrow> sql_table \<Rightarrow> bool" where
  "extends_table tb tb' \<longleftrightarrow> fst ` set (tb_columns tb) \<subseteq> fst ` set (tb_columns tb') \<and>
     (\<forall>r \<in> set (tb_rows tb). \<exists>r' \<in> set (tb_rows tb'). \<forall>c v. fmlookup r c = Some v \<longrightarrow> fmlookup r' c = Some v) \<and>
     (tb_rows tb \<noteq> [] \<longrightarrow> (\<forall>c. (c, Required) \<in> set (tb_columns tb') \<longrightarrow> (c, Required) \<in> set (tb_columns tb)))"

lemma extends_table_refl: "extends_table tb tb"
  by (auto simp: extends_table_def)

lemma extends_table_column:
  assumes "def = Required \<longrightarrow> tb_rows tb = []"
  shows "extends_table tb \<lparr>tb_columns = tb_columns tb @ [(col, def)], tb_rows = map ((++\<^sub>f) m) (tb_rows tb)\<rparr>"
proof -
  have keep: "fmlookup r c = Some v \<longrightarrow> fmlookup (m ++\<^sub>f r) c = Some v" for r c v by (auto simp: fmdomI)
  then have "\<exists>r' \<in> set (map ((++\<^sub>f) m) (tb_rows tb)). \<forall>c v. fmlookup r c = Some v \<longrightarrow> fmlookup r' c = Some v"
    if "r \<in> set (tb_rows tb)" for r using that by (intro bexI [of _ "m ++\<^sub>f r"]) auto
  with assms show ?thesis by (auto simp: extends_table_def)
qed

lemma extends_table_rows: "set (tb_rows tb) \<subseteq> set rows \<Longrightarrow> extends_table tb (tb\<lparr>tb_rows := rows\<rparr>)"
  by (auto simp: extends_table_def)

lemma exec_stmt_extends:
  assumes "exec_stmt gen s d = Inr d'" "map_of (sd_tables d) n = Some tb"
  shows "set (sd_indexes d) \<subseteq> set (sd_indexes d') \<and> (\<exists>tb'. map_of (sd_tables d') n = Some tb' \<and> extends_table tb tb')"
proof -
  have empty: "tb_rows tb = [] \<Longrightarrow> extends_table tb \<lparr>tb_columns = tb_columns tb @ [(col, def)], tb_rows = []\<rparr>" for col def
    using extends_table_column [of def tb col fmempty] by simp
  show ?thesis using assms
    by (cases s) (auto simp: extends_table_refl empty extends_table_rows intro!: extends_table_column
        split: option.splits if_splits sum.splits dest!: insert_absent_keeps)
qed

lemma row_fits_extends:
  assumes "extends_table tb tb'" "tb_rows tb \<noteq> []" "row_fits (tb_columns tb) r"
  shows "row_fits (tb_columns tb') r"
  unfolding row_fits_def
proof (intro conjI)
  show "fset (fmdom r) \<subseteq> fst ` set (tb_columns tb')"
    using assms(1,3) unfolding extends_table_def row_fits_def by (meson subset_trans)
next
  have "c |\<in>| fmdom r" if "(c, Required) \<in> set (tb_columns tb')" for c
  proof -
    have "(c, Required) \<in> set (tb_columns tb)" using that assms(1,2) unfolding extends_table_def by blast
    with assms(3) show ?thesis unfolding row_fits_def by blast
  qed
  then show "\<forall>(c, def) \<in> set (tb_columns tb'). def = Required \<longrightarrow> c |\<in>| fmdom r" by auto
qed

lemma settled_stays:
  assumes "settled s d" "exec_stmt gen s' d = Inr d'"
  shows "settled s d'"
proof (cases s)
  case (Insert_Absent tbl key rows)
  with assms(1) obtain tb where tb: "map_of (sd_tables d) tbl = Some tb" "\<forall>r \<in> set rows. row_fits (tb_columns tb) r \<and>
      key |\<in>| fmdom r \<and> (\<exists>r' \<in> set (tb_rows tb). fmlookup r' key = fmlookup r key)" by auto
  from exec_stmt_extends [OF assms(2) tb(1)] obtain tb' where tb': "map_of (sd_tables d') tbl = Some tb'" "extends_table tb tb'"
    by blast
  have "row_fits (tb_columns tb') r \<and> key |\<in>| fmdom r \<and> (\<exists>r' \<in> set (tb_rows tb'). fmlookup r' key = fmlookup r key)"
    if "r \<in> set rows" for r
  proof -
    from tb(2) that obtain r' where r': "r' \<in> set (tb_rows tb)" "fmlookup r' key = fmlookup r key"
      and r: "row_fits (tb_columns tb) r" "key |\<in>| fmdom r" by blast
    have "tb_rows tb \<noteq> []" using r'(1) by auto
    then have "row_fits (tb_columns tb') r" by (rule row_fits_extends [OF tb'(2) _ r(1)])
    moreover have "\<exists>r'' \<in> set (tb_rows tb'). fmlookup r'' key = fmlookup r key"
      using tb'(2) r' r(2) unfolding extends_table_def by (metis fmlookup_dom_iff)
    ultimately show ?thesis using r(2) by blast
  qed
  with Insert_Absent tb' show ?thesis by simp
next
  case (Add_Column tbl col def)
  with assms(1) obtain tb where tb: "map_of (sd_tables d) tbl = Some tb" "col \<in> fst ` set (tb_columns tb)" by auto
  with exec_stmt_extends [OF assms(2) tb(1)] Add_Column show ?thesis
    unfolding extends_table_def by (metis settled.simps(4) subsetD)
next
  case (Create_Table name cols)
  with assms(1) obtain tb where "map_of (sd_tables d) name = Some tb" by auto
  from exec_stmt_extends [OF assms(2) this] Create_Table show ?thesis by auto
next
  case (Create_Index name tbl)
  with assms(1) obtain tb where "map_of (sd_tables d) tbl = Some tb" "name \<in> set (sd_indexes d)" by auto
  with exec_stmt_extends [OF assms(2) this(1)] Create_Index show ?thesis by auto
next
  case (Create_Unique_Index name tbl col cond vals)
  with assms(1) obtain tb where "map_of (sd_tables d) tbl = Some tb" "name \<in> set (sd_indexes d)" by auto
  with exec_stmt_extends [OF assms(2) this(1)] Create_Unique_Index show ?thesis by auto
qed

lemma settled_stays_all: "settled s d \<Longrightarrow> exec_all gen ss d = Inr d' \<Longrightarrow> settled s d'"
  by (induction ss arbitrary: d) (auto split: sum.splits dest: settled_stays)

lemma exec_all_settles: "exec_all gen ss d = Inr d' \<Longrightarrow> s \<in> set ss \<Longrightarrow> settled s d'"
  by (induction ss arbitrary: d) (auto split: sum.splits dest: exec_stmt_settles settled_stays_all)

lemma settled_exec_all: "\<forall>s \<in> set ss. settled s d \<Longrightarrow> exec_all gen ss d = Inr d"
  by (induction ss) (auto simp: settled_exec)

section \<open>Running the files again\<close>

definition progress_line :: "string \<Rightarrow> string" where
  "progress_line name = ''applying '' @ name @ newline"

lemma apply_files_None:
  "apply_files exec (f # files) out d = (None, out', d') \<longleftrightarrow> (\<exists>q d1. snd f = Inr q \<and> exec q d = Inr d1 \<and>
     apply_files exec files (out @ progress_line (fst f)) d1 = (None, out', d'))"
  by (cases f) (auto simp: progress_line_def Let_def split: sum.splits)

lemma apply_files_keeps:
  "apply_files (exec_all gen) files out d = (None, out', d') \<Longrightarrow> settled s d \<Longrightarrow> settled s d'"
proof (induction files arbitrary: out d)
  case (Cons f files)
  then obtain q d1 where "exec_all gen q d = Inr d1"
    "apply_files (exec_all gen) files (out @ progress_line (fst f)) d1 = (None, out', d')" unfolding apply_files_None by blast
  with Cons.IH settled_stays_all [OF Cons.prems(2)] show ?case by blast
qed simp

lemma apply_files_settles:
  "apply_files (exec_all gen) files out d = (None, out', d') \<Longrightarrow> (name, Inr ss) \<in> set files \<Longrightarrow> s \<in> set ss \<Longrightarrow> settled s d'"
proof (induction files arbitrary: out d)
  case (Cons f files)
  then obtain q d1 where q: "snd f = Inr q" "exec_all gen q d = Inr d1"
    "apply_files (exec_all gen) files (out @ progress_line (fst f)) d1 = (None, out', d')" unfolding apply_files_None by blast
  show ?case
  proof (cases "f = (name, Inr ss)")
    case True
    with q(1,2) Cons.prems(3) have "settled s d1" by (auto intro: exec_all_settles)
    with q(3) show ?thesis by (rule apply_files_keeps)
  next
    case False
    with Cons.prems(2) have "(name, Inr ss) \<in> set files" by auto
    from Cons.IH [OF q(3) this Cons.prems(3)] show ?thesis .
  qed
qed simp

lemma apply_files_again:
  assumes "apply_files exec files out d = (None, out', d')"
    and "\<And>name q. (name, Inr q) \<in> set files \<Longrightarrow> exec' q d2 = Inr d2"
  shows "apply_files exec' files out d2 = (None, out', d2)"
  using assms
proof (induction files arbitrary: out d)
  case (Cons f files)
  then obtain q d1 where q: "snd f = Inr q"
    "apply_files exec files (out @ progress_line (fst f)) d1 = (None, out', d')" unfolding apply_files_None by blast
  have "apply_files exec' files (out @ progress_line (fst f)) d2 = (None, out', d2)"
    by (rule Cons.IH [OF q(2)]) (auto intro: Cons.prems(2))
  moreover have "exec' q d2 = Inr d2" by (rule Cons.prems(2) [of "fst f"]) (simp flip: q(1))
  ultimately show ?case unfolding apply_files_None using q(1) by blast
qed simp

text \<open>
  C15. Migrations are all or nothing, and can be run on every start: a run that raises leaves the database as it was. A run that succeeds
  can be repeated, on whatever directory of files with such statements, and changes nothing then, whatever generated values it
  would use.
\<close>

theorem migrations_idempotent:
  assumes "migrate_run connect (exec_all gen) dir url d = (raised, out, d')"
  shows "(raised \<noteq> None \<longrightarrow> d' = d) \<and>
    (raised = None \<longrightarrow> migrate_run (\<lambda>_. None) (exec_all gen') dir url' d' = (None, out, d'))"
proof (cases raised)
  case None
  then have run: "apply_files (exec_all gen) (sql_files dir) [] d = (None, out, d')"
    using assms by (auto simp: migrate_run_def Let_def split: option.splits prod.splits)
  have "apply_files (exec_all gen') (sql_files dir) [] d' = (None, out, d')"
    by (rule apply_files_again [OF run]) (blast intro: settled_exec_all apply_files_settles [OF run])
  then show ?thesis using None by (simp add: migrate_run_def)
next
  case (Some e)
  with assms show ?thesis by (auto simp: migrate_run_def Let_def split: option.splits prod.splits)
qed

definition no_tables :: sql_db where
  "no_tables = \<lparr>sd_tables = [], sd_indexes = []\<rparr>"

text \<open>The rows of the configuration table as the store's model has them.\<close>

definition config_of_row :: "sql_row \<Rightarrow> pg_config_row option" where
  "config_of_row r = (case (fmlookup r ''job_type'', fmlookup r ''run_timeout'', fmlookup r ''max_attempts'', fmlookup r ''payload'') of
      (Some (JStr jt), Some (JInt t), Some (JInt n), Some (JObj p)) \<Rightarrow>
        Some \<lparr>pc_job_type = jt, pc_run_timeout = t, pc_max_attempts = n, pc_payload = p\<rparr>
    | _ \<Rightarrow> None)"

definition table_rows :: "sql_db \<Rightarrow> string \<Rightarrow> sql_row list option" where
  "table_rows d n = map_option tb_rows (map_of (sd_tables d) n)"

text \<open>On an empty database the files of the repository leave the tables that the store starts from: no jobs, no messages, and the demo types.\<close>

lemma migrations_result:
  "(case apply_files (exec_all gen) (sql_files migrations_dir) [] no_tables of (raised, out, d) \<Rightarrow>
     raised = None \<and> table_rows d ''jobs'' = Some [] \<and> table_rows d ''outbox'' = Some [] \<and>
     map_option (map config_of_row) (table_rows d ''job_type_config'') = Some (map Some (db_config pg_migrated)))"
  by code_simp

theorem migrations_idempotent_witness:
  "\<exists>out d. migrate_run (\<lambda>_. None) (exec_all (\<lambda>_. JNull)) migrations_dir [] no_tables = (None, out, d) \<and>
     migrate_run (\<lambda>_. None) (exec_all (\<lambda>_. JInt 1)) migrations_dir [] d = (None, out, d) \<and>
     map_option (map config_of_row) (table_rows d ''job_type_config'') = Some (map Some (db_config pg_migrated))"
proof -
  obtain raised out d where run: "apply_files (exec_all (\<lambda>_. JNull)) (sql_files migrations_dir) [] no_tables = (raised, out, d)"
    by (metis prod_cases3)
  with migrations_result [of "\<lambda>_. JNull"] have raised: "raised = None" and
    rows: "map_option (map config_of_row) (table_rows d ''job_type_config'') = Some (map Some (db_config pg_migrated))" by simp_all
  have first: "migrate_run (\<lambda>_. None) (exec_all (\<lambda>_. JNull)) migrations_dir [] no_tables = (None, out, d)"
    using run raised by (simp add: migrate_run_def)
  from migrations_idempotent [OF this, of "\<lambda>_. JInt 1" "[]"] first rows show ?thesis by blast
qed

end
