(* ===== verification/Services.thy ===== *)
theory Services
  imports Dispatcher Worker Reaper Settings
begin

text \<open>
  The entry points of the three services (\<open>dispatcher/__main__.py\<close>, \<open>worker/__main__.py\<close>, \<open>reaper/__main__.py\<close>): read the
  configuration, connect to Postgres, create the Kafka client, run the loop, and release the clients. A loop ends by an
  exception, which leaves \<open>main\<close>, or by a \<open>KeyboardInterrupt\<close>, which is exit status 0; it comes between two rounds here, after a number of
  them that is an argument (a stop in the middle of a round is a crash in the theory of the whole system).

  \<open>err\<close> says which attempts to open the connection pool fail. The last component of a result is the pool, if one was made, as the
  process leaves it.
\<close>

section \<open>Definitions\<close>

definition dispatcher_main ::
  "'s store_ops \<Rightarrow> 'k confluent_producer \<Rightarrow> (int \<Rightarrow> int \<Rightarrow> string) \<Rightarrow> (payload \<Rightarrow> jtree) \<Rightarrow> (string \<Rightarrow> exn + interval) \<Rightarrow> environment \<Rightarrow>
   (nat \<Rightarrow> string option) \<Rightarrow> (nat \<Rightarrow> clock) \<Rightarrow> nat \<Rightarrow> 's \<Rightarrow> (exn + int) \<times> string \<times> 's \<times> 'k option \<times> pool option" where
  "dispatcher_main ops lib float_str layout py_float env err clks rounds s = (case config_from_env py_float env of
      Inl e \<Rightarrow> (Inl e, [], s, None, None)
    | Inr cfg \<Rightarrow> (case pg_init err (cf_database_url cfg) 30 of
          (Inl e, _, pool) \<Rightarrow> (Inl e, [], s, None, Some pool)
        | (Inr _, _, pool) \<Rightarrow>
            let k = kafka_producer_init lib (cf_kafka_bootstrap_servers cfg);
                (raised, sleeps, s', k') = dispatcher_loop ops (kafka_publish lib float_str layout) (cf_kafka_topic cfg)
                  (cf_dispatcher_batch_size cfg) clks rounds s k
            in (case raised of None \<Rightarrow> Inr 0 | Some e \<Rightarrow> Inl e, ''dispatcher started'' @ newline, s',
                Some (kafka_producer_close lib k'), Some (pg_close pool))))"

text \<open>
  The worker's loop polls its consumer and commits on it. \<open>types\<close> is the registry's list of types as it is printed.
\<close>

definition worker_main ::
  "'s job_calls \<Rightarrow> lookup \<Rightarrow> string \<Rightarrow> (json \<Rightarrow> string) \<Rightarrow> 'k confluent_consumer \<Rightarrow> (string \<Rightarrow> json) \<Rightarrow> (string \<Rightarrow> exn + interval) \<Rightarrow> environment \<Rightarrow>
   (nat \<Rightarrow> string option) \<Rightarrow> (nat \<Rightarrow> clock) \<Rightarrow> nat \<Rightarrow> 's \<Rightarrow> ((exn + int) \<times> string \<times> 's \<times> 'k option \<times> pool option) option" where
  "worker_main C lookup types repr lib flt py_float env err clks rounds s = (case config_from_env py_float env of
      Inl e \<Rightarrow> Some (Inl e, [], s, None, None)
    | Inr cfg \<Rightarrow> (case pg_init err (cf_database_url cfg) 30 of
          (Inl e, _, pool) \<Rightarrow> Some (Inl e, [], s, None, Some pool)
        | (Inr _, _, pool) \<Rightarrow>
            let k = kafka_consumer_init lib (cf_kafka_bootstrap_servers cfg) (cf_consumer_group cfg) (cf_kafka_topic cfg)
            in map_option (\<lambda>(log, s', k').
                 (case wl_error log of None \<Rightarrow> Inr 0 | Some e \<Rightarrow> Inl e,
                  ''worker started; handlers: '' @ types @ newline @ concat (wl_output log), s',
                  Some (kafka_consumer_close lib k'), Some (pg_close pool)))
               (worker_loop C lookup repr (kafka_poll lib flt) (kafka_commit lib) clks rounds
                  \<lparr>wl_committed = 0, wl_output = [], wl_error = None\<rparr> s k)))"

definition reaper_main ::
  "'s store_ops \<Rightarrow> (string \<Rightarrow> exn + interval) \<Rightarrow> environment \<Rightarrow> (nat \<Rightarrow> string option) \<Rightarrow> (nat \<Rightarrow> clock) \<Rightarrow> nat \<Rightarrow> 's \<Rightarrow>
   (exn + int) \<times> string \<times> 's \<times> pool option" where
  "reaper_main ops py_float env err clks rounds s = (case config_from_env py_float env of
      Inl e \<Rightarrow> (Inl e, [], s, None)
    | Inr cfg \<Rightarrow> (case pg_init err (cf_database_url cfg) 30 of
          (Inl e, _, pool) \<Rightarrow> (Inl e, [], s, Some pool)
        | (Inr _, _, pool) \<Rightarrow>
            let (lines, s') = reaper_loop ops clks rounds s
            in (Inr 0, ''reaper started'' @ newline @ concat lines, s', Some (pg_close pool))))"

text \<open>However a service ends, its connection pool is not left open.\<close>

lemma mains_release_pool:
  "dispatcher_main ops lib float_str layout py_float env err clks rounds s = (res, out, s', client, pool) \<Longrightarrow> released pool"
  "worker_main C lookup types repr lib' flt py_float env err clks rounds s = Some (res, out, s', client', pool) \<Longrightarrow> released pool"
  "reaper_main ops py_float env err clks rounds s = (res, out, s', pool) \<Longrightarrow> released pool"
  by (auto simp: dispatcher_main_def worker_main_def reaper_main_def released_def pg_init_def Let_def
      split: sum.splits prod.splits)

section \<open>Properties\<close>

lemma kafka_publish_all_sends:
  assumes "delivers lib topics" "\<forall>m \<in> set ms. lays_out layout (om_payload m) \<and> ints_print (layout (om_payload m))"
  shows "fst (publish_all (kafka_publish lib float_str layout) topic ms k) = None"
  using assms(2)
proof (induction ms arbitrary: k)
  case (Cons m ms)
  then have m: "lays_out layout (om_payload m)" "ints_print (layout (om_payload m))" by simp_all
  from m(1) obtain k' where "kafka_publish lib float_str layout topic (int_str (om_job_id m)) (om_payload m) k = (None, k')"
    by (rule kafka_publish_cases [OF assms(1)]) (use m(2) in auto)
  with Cons show ?case by (simp add: case_prod_unfold Let_def)
qed simp

text \<open>
  C9. The dispatcher drains the outbox. Started with a configuration that can be read and a database that answers in time, on the
  Postgres store and with a client library that delivers, it publishes every pending message exactly once and in order,
  each as a record under its job's id that is read back as the message, within as many rounds as the batch size
  needs; the outbox is empty then, and an interrupt ends it with exit status 0 and its connection pool closed. (The envelope is printed in the order of
  \<open>jsonb\<close>, and the ids of the jobs have no more digits than Python prints.)
\<close>

theorem dispatcher_main_drains:
  assumes "pg_inv db" "config_from_env py_float env = Inr cfg" "fst (connect_with_retry err 30) = Inr ()"
    and "0 < cf_dispatcher_batch_size cfg"
    and "length (a_pending (pg_abs db)) \<le> rounds * nat (cf_dispatcher_batch_size cfg)"
    and "delivers lib topics" "\<forall>i jt. layout (build_envelope i jt) = envelope_tree i jt"
    and "\<forall>j. pg_get_job j db \<noteq> None \<longrightarrow> int_prints j"
    and "dispatcher_main pg_ops lib float_str layout py_float env err clks rounds db = (res, out, db', client, pool)"
  shows "res = Inr 0 \<and> pool = Some (made_pool (cf_database_url cfg) False) \<and> a_pending (pg_abs db') = [] \<and> (\<exists>k recs. client = Some (kafka_producer_close lib k) \<and>
    topics k = topics (kafka_producer_init lib (cf_kafka_bootstrap_servers cfg)) @ recs \<and>
    list_all2 (carries flt (cf_kafka_topic cfg)) (a_pending (pg_abs db)) recs)"
proof -
  let ?n = "cf_dispatcher_batch_size cfg" and ?pub = "kafka_publish lib float_str layout" and ?topic = "cf_kafka_topic cfg"
  let ?k = "kafka_producer_init lib (cf_kafka_bootstrap_servers cfg)" and ?pend = "a_pending (pg_abs db)"
  obtain e sleeps k' where loop: "dispatcher_loop pg_ops ?pub ?topic ?n clks rounds db ?k = (e, sleeps, db', k')"
    and res: "res = (case e of None \<Rightarrow> Inr 0 | Some e \<Rightarrow> Inl e)" "client = Some (kafka_producer_close lib k')"
      "pool = Some (made_pool (cf_database_url cfg) False)"
    using assms(2,9) pg_init_cases(2) [OF assms(3), of "cf_database_url cfg"] by (auto simp: dispatcher_main_def Let_def split: prod.splits)
  have lay: "lays_out layout (om_payload m) \<and> ints_print (layout (om_payload m))" if m: "m \<in> set ?pend" for m
  proof -
    obtain b where b: "a_jobs (pg_abs db) (om_job_id m) = Some b" "om_payload m = build_envelope (om_job_id m) (j_job_type b)"
      using m by (rule a_pending_envelope [OF pg.inv_wf [OF assms(1)]])
    then have "int_prints (om_job_id m)" using assms(8) unfolding pg_get_job_abs by (simp del: pg_abs_simps)
    then show ?thesis using assms(7) b(2) by (simp add: lays_out_def envelope_tree_json) (simp add: envelope_tree_def)
  qed
  have sends: "fst (publish_all ?pub ?topic ms k) = None" if "set ms \<subseteq> set ?pend" for ms k
    using that lay by (intro kafka_publish_all_sends [OF assms(6)]) blast
  note drained = pg.dispatcher_loop_spec [OF assms(1,4) sends loop]
  obtain k2 where all: "publish_all ?pub ?topic ?pend ?k = (None, length ?pend, k2)"
    using sends [of ?pend ?k] publish_all_count by (metis order_refl prod_cases3 fst_conv)
  with drained assms(5) have "e = None" "a_pending (pg_abs db') = []" "k2 = k'" by auto
  moreover obtain recs where "topics k2 = topics ?k @ recs" "list_all2 (carries flt ?topic) (take (length ?pend) ?pend) recs"
    using kafka_publish_all [OF assms(6) _ all, of flt] lay by blast
  ultimately show ?thesis using res by auto
qed

theorem dispatcher_main_drains_witness:
  "let r = dispatcher_main pg_ops direct_client (\<lambda>_ _. []) envelope_layout (\<lambda>_. Inr 1) (\<lambda>_. None) (\<lambda>_. None) (\<lambda>_ _. 5) 1 demo_db
   in fst r = Inr 0 \<and> a_pending (pg_abs (fst (snd (snd r)))) = []"
proof -
  let ?r = "dispatcher_main pg_ops direct_client (\<lambda>_ _. []) envelope_layout (\<lambda>_. Inr 1) (\<lambda>_. None) (\<lambda>_. None) (\<lambda>_ _. 5) 1 demo_db"
  have "map_sum id cf_dispatcher_batch_size (config_from_env (\<lambda>_. Inr 1) (\<lambda>_. None)) = Inr 100" by code_simp
  then obtain cfg where cfg: "config_from_env (\<lambda>_. Inr 1) (\<lambda>_. None) = Inr cfg" "cf_dispatcher_batch_size cfg = 100"
    by (cases "config_from_env (\<lambda>_. Inr 1) (\<lambda>_. None)") auto
  have conn: "fst (connect_with_retry (\<lambda>_. None) 30) = Inr ()" by code_simp
  have "int_prints 1" by code_simp
  then have ids: "\<forall>j. pg_get_job j demo_db \<noteq> None \<longrightarrow> int_prints j"
    by (auto simp: demo_db_def pg_enqueue_def pg_migrated_def pg_get_job_def Let_def)
  have "map_sum id length (pg_fetch_unpublished 2 demo_db) = Inr 1" by code_simp
  then have "length (take 2 (a_pending (pg_abs demo_db))) = 1" using pg.fetch [OF pg_inv_demo, of 2] by (simp add: pg_ops_def)
  then have pend: "length (a_pending (pg_abs demo_db)) \<le> 1 * nat (cf_dispatcher_batch_size cfg)" by (simp add: cfg(2))
  have lay: "\<forall>i jt. envelope_layout (build_envelope i jt) = envelope_tree i jt" by (simp add: envelope_layout_envelope)
  have "?r = (fst ?r, fst (snd ?r), fst (snd (snd ?r)), fst (snd (snd (snd ?r))), snd (snd (snd (snd ?r))))" by simp
  from dispatcher_main_drains [OF pg_inv_demo cfg(1) conn _ pend example_clients(1) lay ids this] cfg(2)
  show ?thesis by (simp add: Let_def)
qed

end
