(* ===== verification/Spec2Isabelle.thy ===== *)
theory Spec2Isabelle
  imports Progress Access Lifecycle Migrate Services
begin

text \<open>
  A verification of the job orchestrator: producers enqueue typed jobs, at most one active job per
  type; a dispatcher moves them through an outbox to Kafka; workers claim and run them; a reaper queues
  runs that hang again, or gives them up; two HTTP services enqueue and look up jobs.

  \<^bold>\<open>The parts and their theories.\<close>

  \<^item> \<open>Prelude\<close>, \<open>Py_Strings\<close>: values (JSON, instants), the fragments of Python in use, lemmas on association lists.
  \<^item> \<open>Json_Codec\<close>, \<open>Json_Laws\<close>: \<open>json.dumps\<close>, \<open>json.loads\<close> and the UTF-8 codec. The reader has fuel, twice the length of its text and
    one, which is never used up; what is printed is read back.
  \<^item> \<open>Models\<close> (\<open>common/models.py\<close>): statuses, job rows, creators, outbox messages, the envelope.
  \<^item> \<open>Store_Spec\<close>, \<open>Store_Laws\<close> (\<open>common/store.py\<close>, class \<open>Store\<close>): the protocol as a record of operations on any state; an
    abstract store of three tables with one operation per method, its invariant and life cycle; the locale \<open>job_store\<close>, the
    contract of an implementation.
  \<^item> \<open>Memory_Store\<close> (\<open>InMemoryStore\<close>) and \<open>Postgres_Store\<close> (\<open>common/db.py\<close> over the schema in \<open>migrations\<close>): the two
    implementations, each an interpretation of \<open>job_store\<close>. A method of the Postgres store is one transaction on the tables; the
    partial unique index, the identity columns and the 32-bit attempts column are modelled.
  \<^item> \<open>Migrate\<close> (\<open>common/migrate.py\<close>, \<open>migrations\<close>): the migration runner for any kind of file, and the statements of the files on a
    database of named tables.
  \<^item> \<open>Messaging\<close> (\<open>common/messaging.py\<close>): the in-memory producer, and the Kafka producer and consumer over the client library.
  \<^item> \<open>Dispatcher\<close>, \<open>Worker\<close>, \<open>Reaper\<close>, \<open>Handler\<close>: the components over any store (\<open>service.py\<close>, \<open>__main__.py\<close> and the
    registry of each), with their lemmas proved inside \<open>job_store\<close>. A producer may raise; a poll and a commit may raise,
    and a poll may give any value. The worker calls the store with the values of the envelope as they are, whatever their type, and such a call may raise
    (\<open>job_calls\<close>); \<open>store_calls\<close> makes these calls of a store, \<open>conversion\<close> saying what becomes of values of other types.
    A service loop runs for a number of rounds; the theorems on loops hold for every number.
    \<open>Services\<close> puts the entry points of the three services together: configuration, connection pool, Kafka client, loop, release.
  \<^item> \<open>System\<close>, \<open>System_Laws\<close>, \<open>Schedules\<close>, \<open>Progress\<close>: any number of dispatchers, workers and reapers as an inductive step
    relation, one step for each store call, publication, poll or commit; components may stop between any two steps, a
    message may be delivered again, and a dispatcher does not see the rows that are locked at the moment. Invariants are proved by rule induction; schedules are executable
    runs of the relation; \<open>Progress\<close> builds the runs that finish a job.
  \<^item> \<open>Settings\<close> (\<open>common/config.py\<close>, \<open>config.py\<close> of both services): the configuration from the environment.
  \<^item> \<open>Http\<close> (\<open>errors.py\<close>, \<open>middleware.py\<close>, \<open>ratelimit.py\<close>), \<open>Auth\<close> (\<open>auth.py\<close>, \<open>principal.py\<close>), \<open>Circuit_Breaker\<close>
    (\<open>handlerAPIv2/circuit_breaker.py\<close>), \<open>Api\<close> (\<open>deps.py\<close>, \<open>schemas.py\<close>, \<open>routes.py\<close>, \<open>app.py\<close>): the HTTP services. Names
    that end in \<open>_v1\<close> and \<open>_v2\<close> are those of \<open>handlerAPI\<close> and \<open>handlerAPIv2\<close>. What the second service repeats of the first (a name
    with \<open>_v2\<close> beside the same name without a suffix) is modelled once more from its own files and proved to be the same function
    (\<open>http_copies\<close>, \<open>auth_copies\<close>, \<open>api_copies\<close>), so that the laws carry over. The locale \<open>fallible_store\<close> states what the routes rely on of a store that may raise; every \<open>job_store\<close> is one, and
    both decorators, database failures and the circuit breaker, preserve it.
  \<^item> \<open>Api_Laws\<close>, \<open>Front_Door\<close>, \<open>Access\<close>: the laws and the properties of the HTTP services.
  \<^item> \<open>Lifecycle\<close> (\<open>app.py\<close>, \<open>__main__.py\<close> and the first dependencies of \<open>deps.py\<close> of both services): applications as objects with
    settings, store, verifier, middleware and handlers, as \<open>create_app\<close> makes them; the lifespan that connects, builds the verifier,
    serves, and closes; the connection pools and stores of a process. A session is a list of requests, served one after the other; the contract
    \<open>fallible_store\<close>, carried over to the process's state, gives its effect on whichever store the lifespan chose.

  \<^bold>\<open>What is shown.\<close>

  \<^item> The system (this theory): one active job per type (C1), no active job is lost as long as no job is queued again in
    the middle of its dispatch (C2), so that every job can still finish (C16), and can be lost otherwise (C5), bounded claims (C3), the life cycle of rows (C4); the service functions of the
    components are runs of the step relation (C25, C26), two dispatchers can publish a message twice (C27), and a job
    goes from the producer through Kafka to its outcome (C24), unless the client library loses its record, which nobody
    notices (C23).
  \<^item> The stores: both implement the abstract store (C6, C7), agree on equal tables (C28) and differ in two places, on any tables (C29);
    exclusive claims and ranges (C12, C19), the retry loop of the connection (C20), migrations (C15).
  \<^item> The components: dispatching with any producer, draining, enqueueing, processing, duplicates, reaping, payloads, messages through
    Kafka, the command line and the worker's loop (C8 to C11, C13, C14, C17, C18, C21, C22).
  \<^item> The HTTP services: no write without authority (C30, C31), users see their own jobs only, but for what a conflict gives away (C32), what is created can be
    read (C33), the shape of every answer (C34), both services agree for machine clients (C35), the job-type pattern (C36),
    the key cache (C37), the open circuit (C38), the rate limiter (C39), a process from its environment to its end (C40).

  \<^bold>\<open>Parameters.\<close> Code outside the repository is an argument of the definitions: job handlers, confluent-kafka, the order in which a dictionary is printed (\<open>layout\<close>), the printing and reading of floats, what a driver makes of a job id or type of another type (\<open>conversion\<close>),
  the attempts to open a connection pool, the HTTP client and PyJWT (\<open>idp\<close>), FastAPI and pydantic (\<open>framework\<close>), the CORS middleware,
  the packages \<open>limits\<close> (\<open>limiter\<close>) and \<open>pybreaker\<close> (\<open>breaker\<close>), the failures of the database. Clocks are arguments: a function gives
  the successive readings of an operation that reads the clock more than once.

  \<^bold>\<open>Not modelled.\<close> The inside of the Kafka client and of the broker (deliveries, offsets and rebalancing are steps of the system or
  hypotheses), characters above 255 (\<open>Outside\<close>, \<open>Foreign\<close>), the interpreter's limit on nested calls, the HTTP server
  (it is a parameter of \<open>main\<close>) and the interleaving of requests in its threads, the parsing of a rate limit, a keyboard interrupt in the middle of a round (it is a crash of the process in the system), foreign keys and
  column types in the migrations, and values outside the declared types where the code passes them on unchecked (the
  outcomes \<open>Untyped\<close>). The failures of the database in the HTTP services come before a transaction commits; a commit whose
  acknowledgement is lost is modelled in the worker's loop only. The methods of the Postgres store are modelled for arguments that the database takes:
  \<open>pg_refuses\<close> says which texts \<open>enqueue\<close> refuses, and the services that can meet one have such failures as a parameter (\<open>fault\<close>);
  numbers beyond 64 bits are not considered.
\<close>

section \<open>Reachable states\<close>

lemma pg_fresh:
  assumes "pg_inv db" "db_jobs db = []"
  shows "sys_ok (pg_abs db) (sys_init db)" "delivered (pg_abs db) (sys_init db)" "a_capped (pg_abs db)"
  using assms by (auto intro!: sys_ok_init delivered_init simp: a_capped_def)

lemma pg_reachable:
  assumes "pg_inv db" "db_jobs db = []" "sys_steps pg_ops lookup (sys_init db) c"
  shows "pg_inv (sy_store c)" "sys_ok (pg_abs (sy_store c)) c" "a_evolves (pg_abs db) (pg_abs (sy_store c))"
    "a_capped (pg_abs (sy_store c))"
  using pg_sys.sys_steps_law [OF assms(3)] pg_fresh [OF assms(1,2)] assms(1) by simp_all

lemma pg_calm_reachable:
  assumes "pg_inv db" "db_jobs db = []" "calm_steps pg_ops lookup (sys_init db) c"
  shows "pg_inv (sy_store c)" "sys_ok (pg_abs (sy_store c)) c" "delivered (pg_abs (sy_store c)) c"
  using pg_sys.calm_steps_law [OF assms(3)] pg_fresh [OF assms(1,2)] assms(1) by simp_all

lemma pg_migrated_empty: "db_jobs pg_migrated = []"
  by (simp add: pg_migrated_def)

lemma pg_dispatched_live:
  assumes "sys_ok a c" "delivered a c" "a_jobs a j = Some b" "j_status b = DISPATCHED"
  shows "\<exists>off. off < length (sy_log c) \<and> sy_log c ! off = build_envelope j (j_job_type b) \<and>
    off \<notin> sy_committed c \<and> \<not> taken c off j"
proof -
  have "due a c j" using assms(3,4) by (auto simp: due_def)
  with assms(2) obtain off jt where off: "off < length (sy_log c)" "sy_log c ! off = build_envelope j jt"
    "off \<notin> sy_committed c" "\<not> taken c off j" by (auto simp: delivered_def live_def)
  with assms(1) obtain j' b' where "build_envelope j jt = build_envelope j' (j_job_type b')" "a_jobs a j' = Some b'"
    unfolding sys_ok_def flight_ok_def log_ok_def by (metis nth_mem)
  with assms(3) have "jt = j_job_type b" by auto
  with off show ?thesis by blast
qed

lemma pg_stranded_blocks:
  assumes "sys_steps pg_ops lookup c c'" "pg_inv (sy_store c)" "sys_ok (pg_abs (sy_store c)) c"
    and "stranded (pg_abs (sy_store c)) c j b" "j_job_type b = jt"
  shows "map_option j_status (pg_get_job j (sy_store c')) = Some DISPATCHED \<and>
    (\<forall>t u p cr. fst (pg_enqueue t u jt p cr (sy_store c')) = None)"
proof -
  have b: "a_jobs (pg_abs (sy_store c')) j = Some b" "j_status b = DISPATCHED"
    using pg_sys.stranded_steps [OF assms(1-4)] by (simp_all only: stranded_def)
  have inv: "pg_inv (sy_store c')" using pg_sys.sys_steps_law [OF assms(1-3)] by blast
  have "active_job b" using b(2) by simp
  with b(1) assms(5) have "a_active (pg_abs (sy_store c')) jt" unfolding a_active_def by blast
  from pg.enqueue_dup [OF inv this] have "fst (pg_enqueue t u jt p cr (sy_store c')) = None" for t u p cr
    by (metis fst_conv pg_ops_def store_ops.select_convs(1))
  with b show ?thesis unfolding pg_get_job_abs by (simp del: pg_abs_simps)
qed

text \<open>
  C1. At most one active job per type, always: whatever the interleaving of producers, dispatchers, workers and reapers,
  and whatever crashes, two active jobs of one type are the same job.
\<close>

theorem one_active_job_per_type:
  assumes "pg_inv db" "db_jobs db = []" "sys_steps pg_ops lookup (sys_init db) c"
    and "pg_get_job i (sy_store c) = Some a" "pg_get_job j (sy_store c) = Some b"
    and "active_job a" "active_job b" "j_job_type a = j_job_type b"
  shows "i = j"
proof -
  have "one_active (pg_abs (sy_store c))"
    using pg.inv_wf [OF pg_reachable(1) [OF assms(1-3)]] by (simp add: a_wf_def)
  with assms(4-8) show ?thesis unfolding one_active_def pg_get_job_abs by blast
qed

definition busy_schedule :: "action list" where
  "busy_schedule = [AProduce 0 ''hello'' None None, AProduce 1 ''boom'' None None, AFetch 0 10, APublish 0, AMark 0 2,
     AReceive 0 0, AClaim 0 3, AResolve 0 4, AProduce 5 ''hello'' None None]"

theorem one_active_job_per_type_witness:
  "\<exists>c. schedule pg_ops demo_lookup busy_schedule (sys_init pg_migrated) = Some c \<and>
     (\<exists>a. pg_get_job 1 (sy_store c) = Some a \<and> j_status a = RUNNING \<and>
       (\<forall>i b. pg_get_job i (sy_store c) = Some b \<longrightarrow> active_job b \<longrightarrow> j_job_type b = j_job_type a \<longrightarrow> i = 1))"
proof -
  have "map_option (\<lambda>c. map_option j_status (pg_get_job 1 (sy_store c)))
      (schedule pg_ops demo_lookup busy_schedule (sys_init pg_migrated)) = Some (Some RUNNING)" by code_simp
  then obtain c a where c: "schedule pg_ops demo_lookup busy_schedule (sys_init pg_migrated) = Some c"
    and a: "pg_get_job 1 (sy_store c) = Some a" "j_status a = RUNNING" by auto
  have "i = 1" if "pg_get_job i (sy_store c) = Some b" "active_job b" "j_job_type b = j_job_type a" for i b
    by (rule one_active_job_per_type [OF pg_inv_migrated pg_migrated_empty schedule_steps [OF c] that(1) a(1) that(2)])
      (simp_all add: a(2) that(3))
  with c a show ?thesis by blast
qed

text \<open>
  C2. No job is lost: as long as no reaper queues a job again between a dispatcher's publishing and marking it, every
  active job is in somebody's reach. A queued one is pending in the outbox; a dispatched one has a message that is not committed
  and that no worker has taken past its claim; a running one is found by the reaper as soon as it is past its
  timeout.
\<close>

theorem no_job_is_lost:
  assumes "pg_inv db" "db_jobs db = []" "calm_steps pg_ops lookup (sys_init db) c"
    and "pg_get_job j (sy_store c) = Some b" "active_job b"
  shows "j_status b = QUEUED \<and> (\<exists>m \<in> set (a_pending (pg_abs (sy_store c))).
        om_job_id m = j \<and> om_payload m = build_envelope j (j_job_type b)) \<or>
    j_status b = DISPATCHED \<and> (\<exists>off. off < length (sy_log c) \<and> sy_log c ! off = build_envelope j (j_job_type b) \<and>
        off \<notin> sy_committed c \<and> \<not> taken c off j) \<or>
    j_status b = RUNNING \<and> (\<forall>t. t - j_updated_at b > timeout_of (a_config (pg_abs (sy_store c))) (j_job_type b) \<longrightarrow>
        j \<in> sj_job_id ` set (pg_find_stuck t (sy_store c)))"
proof -
  note reach = pg_calm_reachable [OF assms(1-3)]
  have b: "a_jobs (pg_abs (sy_store c)) j = Some b" using assms(4) by (simp only: pg_get_job_abs)
  from assms(5) consider "j_status b = QUEUED" | "j_status b = DISPATCHED" | "j_status b = RUNNING"
    by (auto simp: ACTIVE_iff)
  then show ?thesis
  proof cases
    case 1
    with a_wf_queued_pending [OF pg.inv_wf [OF reach(1)] b] show ?thesis by blast
  next
    case 2
    with pg_dispatched_live [OF reach(2,3) b] show ?thesis by blast
  next
    case 3
    have "j \<in> a_stuck t (pg_abs (sy_store c))"
      if "t - j_updated_at b > timeout_of (a_config (pg_abs (sy_store c))) (j_job_type b)" for t
      using that b 3 unfolding a_stuck_def by blast
    with 3 pg.find_stuck [OF reach(1)] show ?thesis by (simp add: pg_ops_def)
  qed
qed

theorem no_job_is_lost_witness:
  "\<exists>c b. schedule pg_ops demo_lookup [AProduce 0 ''hello'' None None, AFetch 0 10, APublish 0, AMark 0 2]
       (sys_init pg_migrated) = Some c \<and> pg_get_job 1 (sy_store c) = Some b \<and> j_status b = DISPATCHED \<and>
     (\<exists>off. off < length (sy_log c) \<and> sy_log c ! off = build_envelope 1 (j_job_type b) \<and> off \<notin> sy_committed c)"
proof -
  let ?as = "[AProduce 0 ''hello'' None None, AFetch 0 10, APublish 0, AMark 0 2]"
  have "map_option (\<lambda>c. map_option j_status (pg_get_job 1 (sy_store c)))
      (schedule pg_ops demo_lookup ?as (sys_init pg_migrated)) = Some (Some DISPATCHED)" by code_simp
  then obtain c b where c: "schedule pg_ops demo_lookup ?as (sys_init pg_migrated) = Some c"
    and b: "pg_get_job 1 (sy_store c) = Some b" "j_status b = DISPATCHED" by auto
  have "calm_steps pg_ops demo_lookup (sys_init pg_migrated) c" by (rule schedule_calm [OF c]) simp
  from no_job_is_lost [OF pg_inv_migrated pg_migrated_empty this b(1)] b(2) have
    "\<exists>off. off < length (sy_log c) \<and> sy_log c ! off = build_envelope 1 (j_job_type b) \<and> off \<notin> sy_committed c" by auto
  with c b show ?thesis by blast
qed

text \<open>
  C16. Every job can finish: from every state that the system reaches without a reaper that queues a job again between a dispatcher's
  publishing and marking it, whatever processes have crashed and whatever messages are in flight, there is a continuation that ends the given job as completed or failed. No such state is a dead end for any job.
\<close>

theorem every_job_can_finish:
  assumes "pg_inv db" "db_jobs db = []" "calm_steps pg_ops lookup (sys_init db) c"
    and "pg_get_job j (sy_store c) = Some b"
  shows "\<exists>c' b'. sys_steps pg_ops lookup c c' \<and> pg_get_job j (sy_store c') = Some b' \<and> terminal_job b'"
proof -
  note reach = pg_calm_reachable [OF assms(1-3)]
  have b: "a_jobs (pg_abs (sy_store c)) j = Some b" using assms(4) by (simp only: pg_get_job_abs)
  have offs: "\<forall>off \<in> sy_committed c. off < length (sy_log c)" using reach(2) by (simp add: sys_ok_def flight_ok_def)
  have "can_finish pg_ops lookup pg_abs c j"
  proof (cases "j_status b")
    case QUEUED
    then show ?thesis by (rule pg.queued_can_finish [OF reach(1) offs b])
  next
    case DISPATCHED
    with pg_dispatched_live [OF reach(2,3) b] obtain off where "off < length (sy_log c)"
      "sy_log c ! off = build_envelope j (j_job_type b)" "off \<notin> sy_committed c" by blast
    with DISPATCHED show ?thesis by (intro pg.message_can_finish [OF reach(1) _ _ _ b]) simp_all
  next
    case RUNNING
    then show ?thesis by (rule pg.running_can_finish [OF reach(1) offs b])
  qed (rule finished_can_finish [of pg_abs, OF b], simp)+
  then show ?thesis unfolding can_finish_def pg_get_job_abs .
qed

theorem every_job_can_finish_witness:
  "\<exists>c c' b'. schedule pg_ops demo_lookup [AProduce 0 ''hello'' None None, AFetch 0 10, APublish 0, AMark 0 2]
       (sys_init pg_migrated) = Some c \<and>
     sys_steps pg_ops demo_lookup c c' \<and> pg_get_job 1 (sy_store c') = Some b' \<and> terminal_job b'"
proof -
  let ?as = "[AProduce 0 ''hello'' None None, AFetch 0 10, APublish 0, AMark 0 2]"
  have "map_option (\<lambda>c. map_option j_status (pg_get_job 1 (sy_store c)))
      (schedule pg_ops demo_lookup ?as (sys_init pg_migrated)) = Some (Some DISPATCHED)" by code_simp
  then obtain c b where c: "schedule pg_ops demo_lookup ?as (sys_init pg_migrated) = Some c"
    and b: "pg_get_job 1 (sy_store c) = Some b" by auto
  have "calm_steps pg_ops demo_lookup (sys_init pg_migrated) c" by (rule schedule_calm [OF c]) simp
  from every_job_can_finish [OF pg_inv_migrated pg_migrated_empty this b] c show ?thesis by blast
qed

text \<open>
  C3. The reaper's churn is bounded: no job is ever claimed more often than its type's \<open>max_attempts\<close> plus one, over all
  workers and all crashes, so no handler runs more often than that for one job.
\<close>

theorem claims_are_bounded:
  assumes "pg_inv db" "db_jobs db = []" "sys_steps pg_ops lookup (sys_init db) c" "pg_get_job j (sy_store c) = Some b"
  shows "int (sy_claims c j) \<le> max 0 (max_attempts_of (a_config (pg_abs db)) (j_job_type b)) + 1"
proof -
  note reach = pg_reachable [OF assms(1-3)]
  have b: "a_jobs (pg_abs (sy_store c)) j = Some b" using assms(4) by (simp only: pg_get_job_abs)
  have "a_config (pg_abs (sy_store c)) = a_config (pg_abs db)" using reach(3) by (simp add: a_evolves_def)
  with claims_bound [OF _ reach(4) b] reach(2) show ?thesis by (simp add: sys_ok_def)
qed

theorem claims_are_bounded_witness:
  "\<exists>c b. schedule pg_ops demo_lookup busy_schedule (sys_init pg_migrated) = Some c \<and>
     pg_get_job 1 (sy_store c) = Some b \<and> sy_claims c 1 = 1 \<and>
     int (sy_claims c 1) \<le> max 0 (max_attempts_of (a_config (pg_abs pg_migrated)) (j_job_type b)) + 1"
proof -
  have "map_option (\<lambda>c. (map_option j_status (pg_get_job 1 (sy_store c)), sy_claims c 1))
      (schedule pg_ops demo_lookup busy_schedule (sys_init pg_migrated)) = Some (Some RUNNING, 1)" by code_simp
  then obtain c b where c: "schedule pg_ops demo_lookup busy_schedule (sys_init pg_migrated) = Some c"
    and b: "pg_get_job 1 (sy_store c) = Some b" "sy_claims c 1 = 1" by auto
  from claims_are_bounded [OF pg_inv_migrated pg_migrated_empty schedule_steps [OF c] b(1)] c b show ?thesis by blast
qed

text \<open>
  C4. Rows only move along the life cycle: between any two reachable states a job keeps its id, type, overrides, creation
  time and creator, its status follows the life cycle queued, dispatched, running, completed or failed (with running back to
  queued), its attempts never decrease, and once completed or failed the row never changes.
\<close>

theorem rows_follow_life_cycle:
  assumes "pg_inv db" "db_jobs db = []" "sys_steps pg_ops lookup (sys_init db) c" "sys_steps pg_ops lookup c c'"
    and "pg_get_job j (sy_store c) = Some b"
  shows "\<exists>b'. pg_get_job j (sy_store c') = Some b' \<and> job_evolves b b'"
proof -
  note reach = pg_reachable [OF assms(1-3)]
  have "a_evolves (pg_abs (sy_store c)) (pg_abs (sy_store c'))"
    using pg_sys.sys_steps_law [OF assms(4) reach(1,2)] by blast
  with assms(5) show ?thesis unfolding pg_get_job_abs a_evolves_def by blast
qed

definition finished_schedule :: "action list" where
  "finished_schedule = [AProduce 0 ''hello'' None None, AFetch 0 10, APublish 0, AMark 0 2, AReceive 0 0, AClaim 0 3,
     AResolve 0 4, ARun 0, AFinish 0 5]"

theorem rows_follow_life_cycle_witness:
  "\<exists>c b. schedule pg_ops demo_lookup finished_schedule (sys_init pg_migrated) = Some c \<and>
     pg_get_job 1 (sy_store c) = Some b \<and> j_status b = COMPLETED \<and>
     (\<forall>c'. sys_steps pg_ops demo_lookup c c' \<longrightarrow> pg_get_job 1 (sy_store c') = Some b)"
proof -
  have "map_option (\<lambda>c. map_option j_status (pg_get_job 1 (sy_store c)))
      (schedule pg_ops demo_lookup finished_schedule (sys_init pg_migrated)) = Some (Some COMPLETED)" by code_simp
  then obtain c b where c: "schedule pg_ops demo_lookup finished_schedule (sys_init pg_migrated) = Some c"
    and b: "pg_get_job 1 (sy_store c) = Some b" "j_status b = COMPLETED" by auto
  have "pg_get_job 1 (sy_store c') = Some b" if "sys_steps pg_ops demo_lookup c c'" for c'
    using rows_follow_life_cycle [OF pg_inv_migrated pg_migrated_empty schedule_steps [OF c] that b(1)] b(2)
    by (auto simp: job_evolves_def)
  with c b show ?thesis by blast
qed

text \<open>
  C5. Without the proviso of C2 a job can be lost for good. A dispatcher publishes a message and stalls before marking it; a worker
  claims the job and is slow; the reaper queues the job again; the dispatcher marks it dispatched; the slow worker finishes,
  to no effect, and commits the only message. From then on the job stays dispatched in every later state, and every attempt
  to enqueue its type is refused.
\<close>

definition late_mark_schedule :: "action list" where
  "late_mark_schedule = [AProduce 0 ''hello'' None None, AFetch 0 10, APublish 0, AReceive 0 0, AClaim 0 1, AResolve 0 2,
     ASweep 0 (minutes 16), ARequeue 0 (minutes 16), AMark 0 (minutes 17), ARoundOver 0, ARun 0, AFinish 0 (minutes 18),
     ACommit 0]"

lemma late_mark_stranded:
  obtains c b where "sys_steps pg_ops demo_lookup (sys_init pg_migrated) c" "stranded (pg_abs (sy_store c)) c 1 b"
    "j_job_type b = ''hello''"
proof -
  have "map_option (\<lambda>c. (map_option (\<lambda>b. (j_status b, j_job_type b)) (pg_get_job 1 (sy_store c)),
      sy_disp c 0, sy_work c 0, length (sy_log c), 0 \<in> sy_committed c))
      (schedule pg_ops demo_lookup late_mark_schedule (sys_init pg_migrated)) =
    Some (Some (DISPATCHED, ''hello''), DIdle, WIdle, 1, True)" by code_simp
  then obtain c b where c: "schedule pg_ops demo_lookup late_mark_schedule (sys_init pg_migrated) = Some c"
    and b: "pg_get_job 1 (sy_store c) = Some b" "j_status b = DISPATCHED" "j_job_type b = ''hello''"
    and idle: "sy_disp c 0 = DIdle" "sy_work c 0 = WIdle" and log: "length (sy_log c) = 1" "0 \<in> sy_committed c" by auto
  have "actor ` set late_mark_schedule = {0}" by (auto simp: late_mark_schedule_def)
  then have "sy_disp c i = DIdle \<and> sy_work c i = WIdle" for i
    using idle schedule_others [OF c, of i] by (cases "i = 0") auto
  with b log have "stranded (pg_abs (sy_store c)) c 1 b" unfolding stranded_def pg_get_job_abs by simp
  with that schedule_steps [OF c] b(3) show thesis by blast
qed

theorem late_mark_loses_a_job:
  "\<exists>c. sys_steps pg_ops demo_lookup (sys_init pg_migrated) c \<and>
     (\<forall>c'. sys_steps pg_ops demo_lookup c c' \<longrightarrow>
        map_option j_status (pg_get_job 1 (sy_store c')) = Some DISPATCHED \<and>
        (\<forall>t u p cr. fst (pg_enqueue t u ''hello'' p cr (sy_store c')) = None))"
proof -
  obtain c b where c: "sys_steps pg_ops demo_lookup (sys_init pg_migrated) c"
    and str: "stranded (pg_abs (sy_store c)) c 1 b" and jt: "j_job_type b = ''hello''" by (rule late_mark_stranded)
  note reach = pg_reachable [OF pg_inv_migrated pg_migrated_empty c]
  have "map_option j_status (pg_get_job 1 (sy_store c')) = Some DISPATCHED \<and>
      (\<forall>t u p cr. fst (pg_enqueue t u ''hello'' p cr (sy_store c')) = None)"
    if c': "sys_steps pg_ops demo_lookup c c'" for c'
    by (rule pg_stranded_blocks [OF c' reach(1,2) str jt])
  with c show ?thesis by blast
qed

theorem late_mark_loses_a_job_witness:
  "\<exists>c. sys_steps pg_ops demo_lookup (sys_init pg_migrated) c \<and>
     map_option j_status (pg_get_job 1 (sy_store c)) = Some DISPATCHED \<and>
     fst (pg_enqueue (minutes 999) (minutes 999) ''hello'' None None (sy_store c)) = None"
  using late_mark_loses_a_job sys_steps.none by metis

section \<open>From producer to result\<close>

text \<open>
  C24. End to end on the Postgres store and through Kafka: a job enqueued while no job of its type is active is published by a dispatch
  round that is large enough and succeeds, as the last record of the topic and under its own id; the value of that record
  is read back as the envelope of the job, and processing it runs the job, with the outcome, the final
  status and the recorded payload that its type's configuration, its overrides and its handler determine.
\<close>

theorem enqueue_dispatch_process:
  assumes "pg_inv db" "\<not> a_active (pg_abs db) jt" "enqueue pg_ops t u jt p db = (r, db1)"
    and "delivers lib topics" "\<forall>i jt. lays_out layout (build_envelope i jt)"
    and "int (length (a_pending (pg_abs db))) < n"
    and "dispatch_once pg_ops (kafka_publish lib float_str layout) topic n clk db1 k = (Inr sent, db2, k2)"
  shows "\<exists>jid b val. er_job_id r = Some jid \<and> last (topics k2) = (topic, utf8_encode (int_str jid), val) \<and>
    read_event flt (Message (Some val)) = Some (Inr (JObj (build_envelope jid jt))) \<and>
    pg_get_job jid db2 = Some b \<and> j_status b = DISPATCHED \<and> j_job_type b = jt \<and> j_input_payload b = or_empty p \<and>
    (case process (store_calls cv pg_ops) lookup clk' (build_envelope jid jt) db2 of (out, db3) \<Rightarrow>
       out = Inr (fst (run_outcome lookup (a_config (pg_abs db2)) b)) \<and>
       map_option j_status (pg_get_job jid db3) = Some (snd (run_outcome lookup (a_config (pg_abs db2)) b)))"
proof -
  note enq = pg.enqueue_spec [OF assms(1,3)]
  obtain jid where jid: "er_job_id r = Some jid" using enq(2,3) assms(2) by auto
  from enq(5) [OF jid] obtain t' v i where jobs: "a_jobs (pg_abs db1) =
      (a_jobs (pg_abs db))(jid \<mapsto> with_creator (new_job jid t' v jt (Some (or_empty p)) None))"
    and pend: "a_pending (pg_abs db1) = a_pending (pg_abs db) @ [new_message i jid jt]" by (auto simp: enqueued_as_def)
  let ?b1 = "with_creator (new_job jid t' v jt (Some (or_empty p)) None)" and ?ms = "a_pending (pg_abs db1)"
  have n: "0 \<le> n" "length ?ms \<le> nat n" using assms(6) by (simp_all add: pend)
  have all: "publish_all (kafka_publish lib float_str layout) topic (take (nat n) ?ms) k = (None, length ?ms, k2)"
    using pg.dispatch_once_success [OF enq(1) n(1) assms(7)] n(2) by (simp add: min_def)
  note disp = pg.dispatch_once_spec [OF enq(1) n(1) assms(7) all]
  have "\<forall>m \<in> set ?ms. lays_out layout (om_payload m)"
    using a_pending_envelope [OF pg.inv_wf [OF enq(1)]] assms(5) by metis
  then obtain recs where recs: "topics k2 = topics k @ recs" "list_all2 (carries flt topic) ?ms recs"
    using kafka_publish_all [OF assms(4) _ all, of flt] n(2) by auto
  then obtain val where val: "last (topics k2) = (topic, utf8_encode (int_str jid), val)"
    "decode_value flt val = Some (Inr (JObj (build_envelope jid jt)))"
    by (auto simp: pend list_all2_append1 list_all2_Cons1 carries_def)
  from disp(8) [of "new_message i jid jt"] obtain b where
    b: "a_jobs (pg_abs db2) jid = Some b" "dispatched_as ?b1 b"
    using jobs by (auto simp: pend simp del: pg_abs_simps)
  then have b': "j_status b = DISPATCHED" "j_job_type b = jt" "j_input_payload b = or_empty p"
    by (auto simp: dispatched_as_def)
  obtain out db3 where run: "process (store_calls cv pg_ops) lookup clk' (build_envelope jid jt) db2 = (out, db3)" by fastforce
  then have run': "process (store_calls cv pg_ops) lookup clk' (build_envelope jid (j_job_type b)) db2 = (out, db3)" using b'(2) by simp
  note finish = pg.process_claimed [OF disp(2) b(1) _ run'] pg_sys.process_recorded [OF disp(2) b(1) _ run']
  then show ?thesis using jid val b b' run unfolding pg_get_job_abs
    by (auto simp: read_event_def simp del: pg_abs_simps)
qed

theorem enqueue_dispatch_process_witness:
  "\<exists>val. last (snd (snd (dispatch_once pg_ops (kafka_publish direct_client (\<lambda>_ _. []) envelope_layout) ''jobs'' 9 (\<lambda>_. 5)
       (snd (enqueue pg_ops 3 3 ''boom'' None pg_migrated)) []))) = (''jobs'', utf8_encode ''1'', val) \<and>
     read_event (\<lambda>_. JNull) (Message (Some val)) = Some (Inr (JObj (build_envelope 1 ''boom'')))"
proof -
  let ?e = "enqueue pg_ops 3 3 ''boom'' None pg_migrated"
  let ?d = "dispatch_once pg_ops (kafka_publish direct_client (\<lambda>_ _. []) envelope_layout) ''jobs'' 9 (\<lambda>_. 5) (snd ?e) []"
  have free: "\<not> a_active (pg_abs pg_migrated) ''boom''" by (simp add: a_active_def pg_migrated_def)
  have "a_pending (pg_abs pg_migrated) = []" by (simp add: a_pending_def a_unpublished_def pg_migrated_def)
  then have n: "int (length (a_pending (pg_abs pg_migrated))) < 9" by simp
  have "fst ?d = Inr 1" by code_simp
  then have eqs: "?e = (fst ?e, snd ?e)" "?d = (Inr 1, fst (snd ?d), snd (snd ?d))" by (simp_all add: prod_eq_iff)
  have "er_job_id (fst ?e) = Some 1" "int_str 1 = ''1''" by code_simp+
  with enqueue_dispatch_process [OF pg_inv_migrated free eqs(1) example_clients(1) envelope_layout_ok n eqs(2)]
  show ?thesis by fastforce
qed

section \<open>Deliveries that fail\<close>

text \<open>
  C23. A failed delivery loses the job: \<open>KafkaProducer.publish\<close> looks neither at delivery reports nor at what \<open>flush\<close> returns, so when
  the client library loses the record the round succeeds all the same, with nothing on the topic and the job marked dispatched.
  From then on the job stays dispatched in every later state of the system, and every attempt to enqueue its type is
  refused.
\<close>

theorem lost_delivery_loses_a_job:
  assumes "pg_inv db" "db_jobs db = []" "enqueue pg_ops t u jt p db = (r, db1)"
    and "loses lib topics" "0 < n"
    and "dispatch_once pg_ops (kafka_publish lib float_str layout) topic n clk db1 k = (Inr sent, db2, k2)"
  shows "topics k2 = topics k \<and> (\<exists>jid. er_job_id r = Some jid \<and> (\<forall>c. sys_steps pg_ops lookup (sys_init db2) c \<longrightarrow>
    map_option j_status (pg_get_job jid (sy_store c)) = Some DISPATCHED \<and>
    (\<forall>t u p cr. fst (pg_enqueue t u jt p cr (sy_store c)) = None)))"
proof -
  have none: "a_jobs (pg_abs db) j = None" for j using assms(2) by simp
  then have free: "\<not> a_active (pg_abs db) jt" by (simp add: a_active_def)
  note enq = pg.enqueue_spec [OF assms(1,3)]
  obtain jid where jid: "er_job_id r = Some jid" using enq(2,3) free by auto
  from enq(5) [OF jid] obtain t' v i where jobs: "a_jobs (pg_abs db1) =
      (a_jobs (pg_abs db))(jid \<mapsto> with_creator (new_job jid t' v jt (Some (or_empty p)) None))"
    and pend: "a_pending (pg_abs db1) = a_pending (pg_abs db) @ [new_message i jid jt]" by (auto simp: enqueued_as_def)
  let ?b1 = "with_creator (new_job jid t' v jt (Some (or_empty p)) None)"
  have "a_pending (pg_abs db) = []" using pg.inv_wf [OF assms(1)] none by (rule a_pending_no_jobs)
  then have ms: "take (min (nat n) (length (a_pending (pg_abs db1)))) (a_pending (pg_abs db1)) = [new_message i jid jt]"
    using pend assms(5) by (auto simp: min_def)
  have n: "0 \<le> n" using assms(5) by simp
  note all = pg.dispatch_once_success [OF enq(1) n assms(6)]
  note disp = pg.dispatch_once_spec [OF enq(1) n assms(6) all]
  have lost: "topics k2 = topics k" by (rule lost_publish_all [OF assms(4) all])
  from disp(8) [unfolded ms, of "new_message i jid jt"] obtain b where
    b: "a_jobs (pg_abs db2) jid = Some b" "dispatched_as ?b1 b" using jobs by (auto simp del: pg_abs_simps)
  then have b': "j_status b = DISPATCHED" "j_job_type b = jt" "j_attempts b = 0" by (auto simp: dispatched_as_def)
  have only: "a_jobs (pg_abs db2) j = None" if "j \<noteq> jid" for j
    using disp(7) [unfolded ms, of j] that none jobs by (simp del: pg_abs_simps)
  have "j_status x \<in> {QUEUED, DISPATCHED} \<and> j_attempts x = 0" if "a_jobs (pg_abs db2) j = Some x" for j x
    using that b(1) b' only [of j] by (cases "j = jid") (simp_all del: pg_abs_simps)
  then have ok: "sys_ok (pg_abs db2) (sys_init db2)" by (rule sys_ok_unclaimed)
  have str: "stranded (pg_abs db2) (sys_init db2) jid b" using b(1) b'(1) by (simp add: stranded_def del: pg_abs_simps)
  have "map_option j_status (pg_get_job jid (sy_store c)) = Some DISPATCHED \<and>
      (\<forall>t u p cr. fst (pg_enqueue t u jt p cr (sy_store c)) = None)"
    if c: "sys_steps pg_ops lookup (sys_init db2) c" for c
    by (rule pg_stranded_blocks [OF c _ _ _ b'(2)]) (use disp(2) ok str in simp_all)
  with lost jid show ?thesis by blast
qed

theorem lost_delivery_witness:
  "\<exists>db log. dispatch_once pg_ops (kafka_publish lossy_client (\<lambda>_ _. []) envelope_layout) ''jobs'' 9 (\<lambda>_. 5)
       (snd (enqueue pg_ops 3 3 ''boom'' None pg_migrated)) [] = (Inr 1, db, log) \<and>
     log = [] \<and> map_option j_status (pg_get_job 1 db) = Some DISPATCHED \<and> fst (pg_enqueue 9 9 ''boom'' None None db) = None"
proof -
  let ?e = "enqueue pg_ops 3 3 ''boom'' None pg_migrated"
  let ?d = "dispatch_once pg_ops (kafka_publish lossy_client (\<lambda>_ _. []) envelope_layout) ''jobs'' 9 (\<lambda>_. 5) (snd ?e) []"
  have "fst ?d = Inr 1" by code_simp
  then have eqs: "?e = (fst ?e, snd ?e)" "?d = (Inr 1, fst (snd ?d), snd (snd ?d))" by (simp_all add: prod_eq_iff)
  have "er_job_id (fst ?e) = Some 1" by code_simp
  with lost_delivery_loses_a_job [OF pg_inv_migrated pg_migrated_empty eqs(1) example_clients(2) _ eqs(2)]
    sys_steps.none [of pg_ops demo_lookup "sys_init (fst (snd ?d))"]
  have "snd (snd ?d) = [] \<and> map_option j_status (pg_get_job 1 (fst (snd ?d))) = Some DISPATCHED \<and>
      fst (pg_enqueue 9 9 ''boom'' None None (fst (snd ?d))) = None" by fastforce
  with eqs(2) show ?thesis by blast
qed

section \<open>The services as runs of the system\<close>

text \<open>
  C25. The worker's service function is a run of the system: processing a received message without interruption is a sequence of
  the worker's steps that ends before the commit, with the store the function returns and nothing else touched.
\<close>

theorem process_is_a_run:
  assumes "sy_work c w = WAt off j jt Got" "process (store_calls cv ops) lookup clk (build_envelope j jt) (sy_store c) = (r, s')"
  shows "\<exists>c'. sys_steps ops lookup c c' \<and> sy_store c' = s' \<and> sy_work c' w = WAt off j jt Done \<and> same_but_work w c c'"
  using assms by (rule process_path)

theorem process_is_a_run_witness:
  "\<exists>c'. sys_steps pg_ops demo_lookup ((sys_init demo_db)\<lparr>sy_work := (\<lambda>_. WIdle)(0 := WAt 0 1 ''hello'' Got)\<rparr>) c' \<and>
     map_option j_status (pg_get_job 1 (sy_store c')) = Some COMPLETED"
proof -
  let ?c = "(sys_init demo_db)\<lparr>sy_work := (\<lambda>_. WIdle)(0 := WAt 0 1 ''hello'' Got)\<rparr>"
  let ?r = "process (store_calls demo_conversion pg_ops) demo_lookup (\<lambda>i. int i) (build_envelope 1 ''hello'') demo_db"
  have "map_option j_status (pg_get_job 1 (snd ?r)) = Some COMPLETED" by code_simp
  moreover have "process (store_calls demo_conversion pg_ops) demo_lookup (\<lambda>i. int i) (build_envelope 1 ''hello'') (sy_store ?c) = (fst ?r, snd ?r)" by simp
  ultimately show ?thesis using process_is_a_run [of ?c 0 0 1 "''hello''" demo_conversion pg_ops demo_lookup "\<lambda>i. int i" "fst ?r" "snd ?r"] by auto
qed

text \<open>
  C26. A dispatch round and a sweep are runs of the system: \<open>dispatch_once\<close>, publishing to the topic, and \<open>reap_once\<close> lead from a state
  in which the process is idle to the state with the store (and the topic) they return.
\<close>

theorem services_are_runs:
  assumes "sy_disp c d = DIdle" "0 \<le> n" "sy_reap c r = RIdle"
  shows "(case dispatch_once ops topic_publish topic n clk (sy_store c) (sy_log c) of (sent, s', log') \<Rightarrow>
      sys_steps ops lookup c (c\<lparr>sy_store := s', sy_log := log'\<rparr>)) \<and>
    (case reap_once ops clk (sy_store c) of (stats, s') \<Rightarrow> sys_steps ops lookup c (c\<lparr>sy_store := s'\<rparr>))"
  using dispatch_once_path [OF assms(1,2)] reap_once_path [OF assms(3)] by (auto split: prod.split)

theorem services_are_runs_witness:
  "\<exists>s'. sys_steps pg_ops demo_lookup (sys_init demo_db) ((sys_init demo_db)\<lparr>sy_store := s',
       sy_log := [build_envelope 1 ''hello'']\<rparr>) \<and> map_option j_status (pg_get_job 1 s') = Some DISPATCHED"
proof -
  let ?d = "dispatch_once pg_ops topic_publish ''jobs'' 10 (\<lambda>_. 5) demo_db []"
  have "snd (snd ?d) = [build_envelope 1 ''hello'']" "map_option j_status (pg_get_job 1 (fst (snd ?d))) = Some DISPATCHED"
    by code_simp+
  with services_are_runs [of "sys_init demo_db" 0 10 0 pg_ops demo_lookup "''jobs''" "\<lambda>_. 5"] show ?thesis
    by (auto simp: case_prod_unfold)
qed

section \<open>Two dispatchers\<close>

text \<open>
  C27. Two dispatchers can publish the same message twice: both fetch it before either marks it, since the row locks of
  \<open>fetch_unpublished\<close> end with its transaction. The duplicate is harmless by C13.
\<close>

theorem dispatchers_publish_twice:
  "\<exists>c. sys_steps pg_ops demo_lookup (sys_init pg_migrated) c \<and> length (db_outbox (sy_store c)) = 1 \<and>
     sy_log c = [build_envelope 1 ''hello'', build_envelope 1 ''hello'']"
proof -
  let ?as = "[AProduce 0 ''hello'' None None, AFetch 0 10, AFetch 1 10, APublish 0, APublish 1, AMark 0 1, AMark 1 2]"
  have "map_option (\<lambda>c. (length (db_outbox (sy_store c)), sy_log c))
      (schedule pg_ops demo_lookup ?as (sys_init pg_migrated)) =
    Some (1, [build_envelope 1 ''hello'', build_envelope 1 ''hello''])" by code_simp
  then show ?thesis using schedule_steps by fastforce
qed

section \<open>The two stores\<close>

text \<open>
  C28. The two stores are interchangeable: on states that hold the same tables, every method gives the same answer and leaves the
  same tables (\<open>enqueue\<close> agrees on whether it enqueues; only the fresh ids may differ, since a refused insert still
  draws an identity value).
\<close>

theorem stores_agree:
  assumes "mem_inv s" "pg_inv db" "mem_abs s = pg_abs db" "a_jobs (pg_abs db) j = Some b" "0 \<le> n"
  shows "(fst (mem_enqueue t u jt p c s) = None \<longleftrightarrow> fst (pg_enqueue t u jt p c db) = None) \<and>
    mem_fetch_unpublished n s = pg_fetch_unpublished n db \<and>
    apsnd mem_abs (mem_claim t j s) = apsnd pg_abs (pg_claim t j db) \<and>
    apsnd mem_abs (mem_resolve_payload t j (j_job_type b) s) = apsnd pg_abs (pg_resolve_payload t j (j_job_type b) db) \<and>
    apsnd mem_abs (mem_complete t j s) = apsnd pg_abs (pg_complete t j db) \<and>
    apsnd mem_abs (mem_fail t j s) = apsnd pg_abs (pg_fail t j db) \<and>
    sj_job_id ` set (mem_find_stuck t s) = sj_job_id ` set (pg_find_stuck t db) \<and>
    apsnd mem_abs (mem_requeue_stuck t j s) = apsnd pg_abs (pg_requeue_stuck t j db) \<and>
    apsnd mem_abs (mem_dead_letter t j s) = apsnd pg_abs (pg_dead_letter t j db) \<and>
    map_option with_creator (mem_get_job j s) = pg_get_job j db"
proof (intro conjI)
  show "fst (mem_enqueue t u jt p c s) = None \<longleftrightarrow> fst (pg_enqueue t u jt p c db) = None"
    using mem.enqueue_dup [OF assms(1), of jt t u p c] mem.enqueue_new [OF assms(1), of jt t u p c]
      pg.enqueue_dup [OF assms(2), of jt t u p c] pg.enqueue_new [OF assms(2), of jt t u p c]
    unfolding assms(3) by (cases "a_active (pg_abs db) jt") (auto simp: mem_ops_def pg_ops_def)
  show "mem_fetch_unpublished n s = pg_fetch_unpublished n db"
    using mem.fetch [OF assms(1,5)] pg.fetch [OF assms(2,5)] by (simp add: mem_ops_def pg_ops_def assms(3))
  show "apsnd mem_abs (mem_claim t j s) = apsnd pg_abs (pg_claim t j db)"
    using mem.claim [OF assms(1), of t j] pg.claim [OF assms(2), of t j] by (simp add: mem_ops_def pg_ops_def assms(3))
  show "apsnd mem_abs (mem_resolve_payload t j (j_job_type b) s) = apsnd pg_abs (pg_resolve_payload t j (j_job_type b) db)"
    using mem.resolve [OF assms(1) assms(4) [folded assms(3)], of t] pg.resolve [OF assms(2,4), of t]
    by (simp add: mem_ops_def pg_ops_def assms(3))
  show "apsnd mem_abs (mem_complete t j s) = apsnd pg_abs (pg_complete t j db)"
    using mem.complete [OF assms(1), of t j] pg.complete [OF assms(2), of t j] by (simp add: mem_ops_def pg_ops_def assms(3))
  show "apsnd mem_abs (mem_fail t j s) = apsnd pg_abs (pg_fail t j db)"
    using mem.fail [OF assms(1), of t j] pg.fail [OF assms(2), of t j] by (simp add: mem_ops_def pg_ops_def assms(3))
  show "sj_job_id ` set (mem_find_stuck t s) = sj_job_id ` set (pg_find_stuck t db)"
    using mem.find_stuck [OF assms(1), of t] pg.find_stuck [OF assms(2), of t] by (simp add: mem_ops_def pg_ops_def assms(3))
  show "apsnd mem_abs (mem_requeue_stuck t j s) = apsnd pg_abs (pg_requeue_stuck t j db)"
    using mem.requeue [OF assms(1), of t j] pg.requeue [OF assms(2), of t j] by (simp add: mem_ops_def pg_ops_def assms(3))
  show "apsnd mem_abs (mem_dead_letter t j s) = apsnd pg_abs (pg_dead_letter t j db)"
    using mem.dead_letter [OF assms(1), of t j] pg.dead_letter [OF assms(2), of t j]
    by (simp add: mem_ops_def pg_ops_def assms(3))
  show "map_option with_creator (mem_get_job j s) = pg_get_job j db"
    using mem.get_job [OF assms(1), of j] unfolding pg_get_job_abs assms(3) by (simp add: mem_ops_def del: pg_abs_simps)
qed

definition twin_mem :: mem_store where
  "twin_mem = snd (mem_enqueue 0 0 ''hello'' (Some (fmap_of_list [(''name'', JStr ''Bob'')])) None
     (mem_set_type_config ''boom'' (minutes 15) 3 None
       (mem_set_type_config ''hello'' (minutes 15) 3 (Some (fmap_of_list [(''name'', JStr ''Ada'')])) mem_init)))"

lemma twin_mem_abs: "mem_abs twin_mem = pg_abs demo_db"
  by (rule astate_eqI)
    (auto simp: twin_mem_def demo_db_def mem_enqueue_def mem_active_def mem_set_type_config_def mem_init_def
      pg_enqueue_def pg_migrated_def Let_def with_creator_def pg_to_job_def no_creator_def pg_message_def
      config_row_def default_config_row_def pg_config_of_def fun_eq_iff)

theorem stores_agree_witness:
  "apsnd mem_abs (mem_claim 5 1 twin_mem) = apsnd pg_abs (pg_claim 5 1 demo_db) \<and> fst (pg_claim 5 1 demo_db)"
proof -
  have inv: "mem_inv twin_mem" unfolding twin_mem_def by (intro mem_inv_enqueue mem_inv_config mem_inv_init)
  have "pg_get_job 1 demo_db \<noteq> None" by code_simp
  then obtain b where b: "a_jobs (pg_abs demo_db) 1 = Some b" unfolding pg_get_job_abs by blast
  have "fst (pg_claim 5 1 demo_db)" by code_simp
  with stores_agree [OF inv pg_inv_demo twin_mem_abs b, where n = 0 and t = 5] show ?thesis by blast
qed

text \<open>
  C29. Where the stores differ, on any tables they share. Of a running job, \<open>InMemoryStore.resolve_payload\<close> uses the
  configuration of the row's own type whatever type it is passed, \<open>PostgresStore\<close> that of the type it is passed. And
  when a waiting job with a configuration and a handler is processed, both stores give the same outcome and the same status, but the one in memory
  records the dictionary as the handler left it and Postgres the payload it had resolved: afterwards the tables are equal exactly
  when the handler leaves its argument as it was.
\<close>

theorem stores_differ:
  assumes "mem_inv s" "pg_inv db" "mem_abs s = pg_abs db" "a_jobs (pg_abs db) j = Some b"
  shows "(j_status b = RUNNING \<longrightarrow>
      fst (mem_resolve_payload t j jt s) = map_option (\<lambda>c. effective_payload c b) (a_config (pg_abs db) (j_job_type b)) \<and>
      fst (pg_resolve_payload t j jt db) = map_option (\<lambda>c. effective_payload c b) (a_config (pg_abs db) jt)) \<and>
    (\<forall>c h rm s' rp db'. j_status b \<in> {QUEUED, DISPATCHED} \<and> a_config (pg_abs db) (j_job_type b) = Some c \<and>
       lookup (j_job_type b) = Some h \<and>
       process (store_calls cv mem_ops) lookup clk (build_envelope j (j_job_type b)) s = (rm, s') \<and>
       process (store_calls cv' pg_ops) lookup clk (build_envelope j (j_job_type b)) db = (rp, db') \<longrightarrow>
       rm = rp \<and> map_option j_status (mem_get_job j s') = map_option j_status (pg_get_job j db') \<and>
       map_option j_payload (mem_get_job j s') = Some (hr_payload (h (effective_payload c b))) \<and>
       map_option j_payload (pg_get_job j db') = Some (effective_payload c b) \<and>
       (mem_abs s' = pg_abs db' \<longleftrightarrow> hr_payload (h (effective_payload c b)) = effective_payload c b))"
proof (intro conjI impI allI)
  assume run: "j_status b = RUNNING"
  have "apsnd mem_abs (mem_resolve_payload t j jt s) = spec_resolve t j (pg_abs db)" unfolding mem_resolve_abs assms(3) by simp
  then have "fst (mem_resolve_payload t j jt s) = fst (spec_resolve t j (pg_abs db))" by (metis fst_apsnd)
  with run assms(4) show "fst (mem_resolve_payload t j jt s) =
      map_option (\<lambda>c. effective_payload c b) (a_config (pg_abs db) (j_job_type b))"
    by (auto simp: spec_resolve_def effective_payload_def Let_def simp del: pg_abs_simps split: option.split)
  have dist: "distinct (map pj_id (db_jobs db))" using assms(2) by (simp add: pg_inv_def pg_rep_def)
  from assms(4) obtain row where row: "find (\<lambda>r. pj_id r = j) (db_jobs db) = Some row" "b = pg_to_job row" by auto
  with run show "fst (pg_resolve_payload t j jt db) = map_option (\<lambda>c. effective_payload c b) (a_config (pg_abs db) jt)"
    by (auto simp: pg_resolve_payload_def find_guard [OF dist] effective_payload_def pg_config_of_def Let_def split: option.split)
next
  fix c and h :: handler and rm s' rp db'
  let ?w = "hr_payload (h (effective_payload c b))" and ?st = "snd (run_outcome lookup (a_config (pg_abs db)) b)"
  let ?row = "\<lambda>p. b\<lparr>j_status := ?st, j_payload := p, j_updated_at := clk 2\<rparr>"
  assume *: "j_status b \<in> {QUEUED, DISPATCHED} \<and> a_config (pg_abs db) (j_job_type b) = Some c \<and> lookup (j_job_type b) = Some h \<and>
    process (store_calls cv mem_ops) lookup clk (build_envelope j (j_job_type b)) s = (rm, s') \<and>
    process (store_calls cv' pg_ops) lookup clk (build_envelope j (j_job_type b)) db = (rp, db')"
  note mem_row = assms(4) [folded assms(3)]
  have mem_abs': "mem_abs s' = (pg_abs db)\<lparr>a_jobs := (a_jobs (pg_abs db))(j \<mapsto> ?row ?w)\<rparr>"
    using mem_sys.process_written [OF assms(1) mem_row, of c lookup h cv clk rm s'] * by (simp add: assms(3) del: pg_abs_simps)
  have pg_abs': "pg_abs db' = (pg_abs db)\<lparr>a_jobs := (a_jobs (pg_abs db))(j \<mapsto> ?row (effective_payload c b))\<rparr>"
    using pg_sys.process_recorded [OF assms(2,4), of cv' lookup clk rp db'] * by (simp del: pg_abs_simps)
  have outcome: "rm = rp" "mem_inv s'"
    using mem.process_claimed [OF assms(1) mem_row, of cv lookup clk rm s'] pg.process_claimed [OF assms(2,4), of cv' lookup clk rp db'] *
    by (simp_all add: assms(3) del: pg_abs_simps)
  then show "rm = rp" by blast
  have mem_job: "map_option with_creator (mem_get_job j s') = Some (?row ?w)"
    using mem.get_job [OF outcome(2), of j] by (simp add: mem_ops_def mem_abs' del: pg_abs_simps)
  then obtain x where x: "mem_get_job j s' = Some x" "with_creator x = ?row ?w" by auto
  have "j_status (with_creator x) = ?st" "j_payload (with_creator x) = ?w" unfolding x(2) by simp_all
  then have "j_status x = ?st" "j_payload x = ?w" by (simp_all add: with_creator_def)
  with x(1) show "map_option j_status (mem_get_job j s') = map_option j_status (pg_get_job j db')"
    "map_option j_payload (mem_get_job j s') = Some ?w" "map_option j_payload (pg_get_job j db') = Some (effective_payload c b)"
    unfolding pg_get_job_abs pg_abs' by simp_all
  show "mem_abs s' = pg_abs db' \<longleftrightarrow> ?w = effective_payload c b"
  proof
    assume "mem_abs s' = pg_abs db'"
    then have "a_jobs (mem_abs s') j = a_jobs (pg_abs db') j" by (rule arg_cong)
    then have "?row ?w = ?row (effective_payload c b)" unfolding mem_abs' pg_abs' by simp
    then have "j_payload (?row ?w) = j_payload (?row (effective_payload c b))" by (rule arg_cong)
    then show "?w = effective_payload c b" by simp
  next
    assume "?w = effective_payload c b"
    then show "mem_abs s' = pg_abs db'" unfolding mem_abs' pg_abs' by (simp del: pg_abs_simps)
  qed
qed

definition scribble :: handler where
  "scribble p = \<lparr>hr_payload = fmupd ''x'' (JInt 1) p, hr_output = [], hr_raised = None\<rparr>"

theorem stores_differ_witness:
  "let run_mem = process (store_calls demo_conversion mem_ops) (\<lambda>_. Some scribble) (\<lambda>i. int i) (build_envelope 1 ''hello'') twin_mem;
       run_pg = process (store_calls demo_conversion pg_ops) (\<lambda>_. Some scribble) (\<lambda>i. int i) (build_envelope 1 ''hello'') demo_db
   in fst run_mem = fst run_pg \<and> map_option (\<lambda>b. fmlookup (j_payload b) ''x'') (mem_get_job 1 (snd run_mem)) = Some (Some (JInt 1)) \<and>
      map_option (\<lambda>b. fmlookup (j_payload b) ''x'') (pg_get_job 1 (snd run_pg)) = Some None \<and> mem_abs (snd run_mem) \<noteq> pg_abs (snd run_pg)"
proof -
  let ?m = "process (store_calls demo_conversion mem_ops) (\<lambda>_. Some scribble) (\<lambda>i. int i) (build_envelope 1 ''hello'') twin_mem"
  let ?p = "process (store_calls demo_conversion pg_ops) (\<lambda>_. Some scribble) (\<lambda>i. int i) (build_envelope 1 ''hello'') demo_db"
  have inv: "mem_inv twin_mem" unfolding twin_mem_def by (intro mem_inv_enqueue mem_inv_config mem_inv_init)
  have "map_option (\<lambda>b. (j_status b, j_job_type b, fmlookup (j_input_payload b) ''x'')) (pg_get_job 1 demo_db) =
      Some (QUEUED, ''hello'', None)" by code_simp
  then obtain b where b: "a_jobs (pg_abs demo_db) 1 = Some b" "j_status b = QUEUED" "j_job_type b = ''hello''"
    "fmlookup (j_input_payload b) ''x'' = None" unfolding pg_get_job_abs by auto
  have "map_option (\<lambda>c. fmlookup (pc_payload c) ''x'') (config_row ''hello'' demo_db) = Some None" by code_simp
  then obtain c where c: "a_config (pg_abs demo_db) ''hello'' = Some c" "fmlookup (tc_payload c) ''x'' = None"
    by (auto simp: pg_config_of_def)
  let ?e = "effective_payload c b"
  have e: "fmlookup ?e ''x'' = None" using b(4) c(2) by (simp add: effective_payload_lookup)
  have w: "hr_payload (scribble ?e) \<noteq> ?e"
  proof
    assume "hr_payload (scribble ?e) = ?e"
    then have "fmlookup (hr_payload (scribble ?e)) ''x'' = fmlookup ?e ''x''" by simp
    with e show False by (simp add: scribble_def)
  qed
  have runs: "?m = (fst ?m, snd ?m)" "?p = (fst ?p, snd ?p)" by simp_all
  from stores_differ [OF inv pg_inv_demo twin_mem_abs b(1), THEN conjunct2, rule_format,
      of c "\<lambda>_. Some scribble" scribble demo_conversion "\<lambda>i. int i" "fst ?m" "snd ?m" demo_conversion "fst ?p" "snd ?p"]
    b(2,3) c(1) runs
  have "fst ?m = fst ?p" "map_option j_payload (mem_get_job 1 (snd ?m)) = Some (hr_payload (scribble ?e))"
    "map_option j_payload (pg_get_job 1 (snd ?p)) = Some ?e" "mem_abs (snd ?m) \<noteq> pg_abs (snd ?p)"
    using w by (simp_all del: pg_abs_simps)
  then show ?thesis unfolding Let_def using e by (auto simp: scribble_def)
qed

end
